(* ===== verification/Prelude.thy ===== *)
theory Prelude
  imports Main "HOL-Library.Word" "HOL-Library.AList" "HOL-Library.Multiset"
begin

text \<open>
  Shared vocabulary of the development: the machine integers of the Rust sources with their
  saturating operations, the model of \<^verbatim>\<open>HashMap\<close> as a key-distinct association list, results,
  the byte-string operations of the standard library the sources use, and the generic lemmas on
  them that the component theories rest on.
\<close>

named_theorems sat_simps \<open>saturating word arithmetic read as natural numbers\<close>
named_theorems hm_simps \<open>lookups, keys and key-distinctness of the hash-map model\<close>

section \<open>Machine integers\<close>

type_synonym u8 = "8 word"
type_synonym u16 = "16 word"
type_synonym u32 = "32 word"
type_synonym u64 = "64 word"

text \<open>
  \<^verbatim>\<open>saturating_add\<close>, \<^verbatim>\<open>saturating_sub\<close> and \<^verbatim>\<open>saturating_mul\<close> of the unsigned types.
\<close>

definition sat_add :: "'a::len word \<Rightarrow> 'a word \<Rightarrow> 'a word" where
  "sat_add a b = (if unat a + unat b < 2 ^ LENGTH('a) then a + b else - 1)"

definition sat_sub :: "'a::len word \<Rightarrow> 'a word \<Rightarrow> 'a word" where
  "sat_sub a b = (if b \<le> a then a - b else 0)"

definition sat_mul :: "'a::len word \<Rightarrow> 'a word \<Rightarrow> 'a word" where
  "sat_mul a b = (if unat a * unat b < 2 ^ LENGTH('a) then a * b else - 1)"

lemma unat_max_word: "unat (- 1 :: 'a::len word) = 2 ^ LENGTH('a) - 1"
  by (simp add: unsigned_minus_1_eq_mask mask_eq_exp_minus_1)

lemma unat_sat_add [sat_simps]:
  "unat (sat_add a b) = min (unat a + unat b) (2 ^ LENGTH('a) - 1)"
  for a b :: "'a::len word"
proof (cases "unat a + unat b < 2 ^ LENGTH('a)")
  case True
  then have "unat (a + b) = unat a + unat b" by (rule unat_add_lem [THEN iffD1])
  with True show ?thesis by (simp add: sat_add_def)
next
  case False
  then show ?thesis by (simp add: sat_add_def unat_max_word)
qed

lemma unat_sat_sub [sat_simps]: "unat (sat_sub a b) = unat a - unat b"
  by (simp add: sat_sub_def unat_sub word_le_nat_alt)

lemma unat_sat_mul [sat_simps]:
  "unat (sat_mul a b) = min (unat a * unat b) (2 ^ LENGTH('a) - 1)"
  for a b :: "'a::len word"
proof (cases "unat a * unat b < 2 ^ LENGTH('a)")
  case True
  then have "unat (a * b) = unat a * unat b" by (rule unat_mult_lem [THEN iffD1])
  with True show ?thesis by (simp add: sat_mul_def)
next
  case False
  then show ?thesis by (simp add: sat_mul_def unat_max_word)
qed

lemma unat_le_max: "unat (a :: 'a::len word) \<le> 2 ^ LENGTH('a) - 1"
proof -
  have "unat a < 2 ^ LENGTH('a)" by (rule unsigned_less)
  then show ?thesis by linarith
qed

lemma unat_max [sat_simps]: "unat (max a b) = max (unat a) (unat b)"
  by (simp add: max_def word_le_nat_alt)

lemma unat_min [sat_simps]: "unat (min a b) = min (unat a) (unat b)"
  by (simp add: min_def word_le_nat_alt)

lemma unat_add_one_less: "a < b \<Longrightarrow> unat (a + 1) = Suc (unat a)"
  for a b :: "'a::len word"
proof -
  assume "a < b"
  then have "unat a < unat b" by (simp add: word_less_nat_alt)
  moreover have "unat b < 2 ^ LENGTH('a)" by (rule unsigned_less)
  ultimately have "Suc (unat a) < 2 ^ LENGTH('a)" by (rule less_trans_Suc)
  then have "unat a + unat (1 :: 'a word) < 2 ^ LENGTH('a)" by simp
  then have "unat (a + 1) = unat a + unat (1 :: 'a word)" by (rule unat_add_lem [THEN iffD1])
  then show ?thesis by simp
qed

section \<open>Results\<close>

text \<open>Rust's \<^verbatim>\<open>Result<T, E>\<close>: \<open>Inl\<close> is the error, \<open>Inr\<close> the value.\<close>

type_synonym ('a, 'e) result = "'e + 'a"

abbreviation Ok :: "'a \<Rightarrow> ('a, 'e) result" where "Ok \<equiv> Inr"
abbreviation Err :: "'e \<Rightarrow> ('a, 'e) result" where "Err \<equiv> Inl"

definition is_ok :: "('a, 'e) result \<Rightarrow> bool" where
  "is_ok r = (case r of Inl _ \<Rightarrow> False | Inr _ \<Rightarrow> True)"

lemma is_ok_simps [simp]: "is_ok (Ok x)" "\<not> is_ok (Err e)"
  by (simp_all add: is_ok_def)

section \<open>Hash maps\<close>

text \<open>
  A \<^verbatim>\<open>HashMap\<close> is an association list with distinct keys. The list order stands for the
  unspecified iteration order: a theorem about every such list covers every order.
\<close>

type_synonym ('k, 'v) hashmap = "('k \<times> 'v) list"

abbreviation hm_get :: "('k, 'v) hashmap \<Rightarrow> 'k \<Rightarrow> 'v option" where
  "hm_get \<equiv> map_of"

abbreviation hm_insert :: "'k \<Rightarrow> 'v \<Rightarrow> ('k, 'v) hashmap \<Rightarrow> ('k, 'v) hashmap" where
  "hm_insert \<equiv> AList.update"

abbreviation hm_remove :: "'k \<Rightarrow> ('k, 'v) hashmap \<Rightarrow> ('k, 'v) hashmap" where
  "hm_remove \<equiv> AList.delete"

abbreviation hm_keys :: "('k, 'v) hashmap \<Rightarrow> 'k list" where
  "hm_keys \<equiv> map fst"

abbreviation hm_values :: "('k, 'v) hashmap \<Rightarrow> 'v list" where
  "hm_values \<equiv> map snd"

abbreviation hm_ok :: "('k, 'v) hashmap \<Rightarrow> bool" where
  "hm_ok m \<equiv> distinct (map fst m)"

lemma hm_get_insert [hm_simps]:
  "hm_get (hm_insert k v m) x = (if x = k then Some v else hm_get m x)"
  by (simp add: update_conv)

lemma hm_get_remove [hm_simps]:
  "hm_get (hm_remove k m) x = (if x = k then None else hm_get m x)"
  by (simp add: delete_conv')

lemma hm_ok_insert [hm_simps]: "hm_ok m \<Longrightarrow> hm_ok (hm_insert k v m)"
  by (rule distinct_update)

lemma hm_ok_remove [hm_simps]: "hm_ok m \<Longrightarrow> hm_ok (hm_remove k m)"
  by (rule distinct_delete)

lemma hm_keys_insert [hm_simps]:
  "set (hm_keys (hm_insert k v m)) = insert k (set (hm_keys m))"
  by (simp add: update_keys insert_absorb)

lemma hm_keys_remove [hm_simps]:
  "set (hm_keys (hm_remove k m)) = set (hm_keys m) - {k}"
  by (auto simp: AList.delete_eq)

lemma hm_in_set_iff: "hm_ok m \<Longrightarrow> (k, v) \<in> set m \<longleftrightarrow> hm_get m k = Some v"
  by simp

lemma hm_remove_absent: "hm_get m k = None \<Longrightarrow> hm_remove k m = m"
  by (induction m) (auto simp: AList.delete_eq split: if_splits)

lemma hm_set_remove: "set (hm_remove k m) = {p \<in> set m. fst p \<noteq> k}"
  by (auto simp: AList.delete_eq)

lemma hm_set_insert:
  "hm_ok m \<Longrightarrow> set (hm_insert k v m) = insert (k, v) {p \<in> set m. fst p \<noteq> k}"
  by (induction m) (auto simp: image_iff)

text \<open>Counting entries of a map: what one insertion or removal does to the count.\<close>

definition hm_count :: "('v \<Rightarrow> bool) \<Rightarrow> ('k, 'v) hashmap \<Rightarrow> nat" where
  "hm_count P m = length (filter P (hm_values m))"

lemma hm_count_insert_new:
  "hm_get m k = None \<Longrightarrow> hm_count P (hm_insert k v m) = hm_count P m + (if P v then 1 else 0)"
  by (induction m) (auto simp: hm_count_def split: if_splits)

lemma hm_count_insert_old:
  "hm_get m k = Some u \<Longrightarrow>
   hm_count P (hm_insert k v m) + (if P u then 1 else 0) = hm_count P m + (if P v then 1 else 0)"
  by (induction m) (auto simp: hm_count_def split: if_splits)

lemma hm_count_remove:
  "hm_ok m \<Longrightarrow> hm_get m k = Some u \<Longrightarrow>
   hm_count P (hm_remove k m) + (if P u then 1 else 0) = hm_count P m"
proof (induction m)
  case (Cons p m)
  show ?case
  proof (cases "fst p = k")
    case True
    with Cons.prems(1) have "hm_get m k = None" by (auto simp: map_of_eq_None_iff)
    then have "hm_remove k m = m" by (rule hm_remove_absent)
    with True Cons.prems(2) show ?thesis by (cases p) (auto simp: hm_count_def)
  next
    case False
    with Cons show ?thesis by (cases p) (auto simp: hm_count_def)
  qed
qed simp

text \<open>A map as a multiset of entries: an insertion replaces the entry of its key.\<close>

lemma mset_hm_remove:
  "hm_ok m \<Longrightarrow> hm_get m k = Some u \<Longrightarrow> mset m = add_mset (k, u) (mset (hm_remove k m))"
proof (induction m)
  case (Cons p m)
  show ?case
  proof (cases "fst p = k")
    case True
    with Cons.prems(1) have "hm_get m k = None" by (auto simp: map_of_eq_None_iff)
    then have "hm_remove k m = m" by (rule hm_remove_absent)
    with True Cons.prems(2) show ?thesis by (cases p) auto
  next
    case False
    with Cons show ?thesis by (cases p) auto
  qed
qed simp

lemma mset_hm_insert:
  "hm_ok m \<Longrightarrow> mset (hm_insert k v m) = add_mset (k, v) (mset (hm_remove k m))"
proof (induction m)
  case (Cons p m)
  show ?case
  proof (cases "fst p = k")
    case True
    with Cons.prems(1) have "hm_get m k = None" by (auto simp: map_of_eq_None_iff)
    then have "hm_remove k m = m" by (rule hm_remove_absent)
    with True show ?thesis by (cases p) auto
  next
    case False
    with Cons show ?thesis by (cases p) auto
  qed
qed simp

section \<open>Byte strings\<close>

text \<open>
  The string operations of the standard library the sources use, on ASCII strings. On them
  \<^verbatim>\<open>to_lowercase\<close> and \<^verbatim>\<open>to_ascii_lowercase\<close> agree and \<^verbatim>\<open>trim\<close> strips the ASCII white space.
\<close>

definition ascii_lower :: "char \<Rightarrow> char" where
  "ascii_lower c = (if 65 \<le> (of_char c :: nat) \<and> (of_char c :: nat) \<le> 90
     then char_of ((of_char c :: nat) + 32) else c)"

definition to_lowercase :: "string \<Rightarrow> string" where
  "to_lowercase s = map ascii_lower s"

definition eq_ignore_ascii_case :: "string \<Rightarrow> string \<Rightarrow> bool" where
  "eq_ignore_ascii_case a b = (to_lowercase a = to_lowercase b)"

definition is_digit :: "char \<Rightarrow> bool" where
  "is_digit c = (48 \<le> (of_char c :: nat) \<and> (of_char c :: nat) \<le> 57)"

definition is_white :: "char \<Rightarrow> bool" where
  "is_white c = ((of_char c :: nat) = 32 \<or> 9 \<le> (of_char c :: nat) \<and> (of_char c :: nat) \<le> 13)"

definition trim :: "string \<Rightarrow> string" where
  "trim s = rev (dropWhile is_white (rev (dropWhile is_white s)))"

definition starts_with :: "string \<Rightarrow> string \<Rightarrow> bool" where
  "starts_with s p = (take (length p) s = p)"

definition strip_prefix :: "string \<Rightarrow> string \<Rightarrow> string option" where
  "strip_prefix s p = (if starts_with s p then Some (drop (length p) s) else None)"

fun contains_str :: "string \<Rightarrow> string \<Rightarrow> bool" where
  "contains_str [] p = (p = [])"
| "contains_str (c # s) p = (starts_with (c # s) p \<or> contains_str s p)"

text \<open>\<^verbatim>\<open>split\<close> on a character yields at least one part; \<^verbatim>\<open>split_once\<close> cuts at the first one.\<close>

fun split_on :: "char \<Rightarrow> string \<Rightarrow> string list" where
  "split_on d [] = [[]]"
| "split_on d (c # s) =
     (if c = d then [] # split_on d s
      else (case split_on d s of [] \<Rightarrow> [[c]] | p # ps \<Rightarrow> (c # p) # ps))"

fun split_once :: "char \<Rightarrow> string \<Rightarrow> (string \<times> string) option" where
  "split_once d [] = None"
| "split_once d (c # s) =
     (if c = d then Some ([], s)
      else map_option (\<lambda>(a, b). (c # a, b)) (split_once d s))"

lemma split_on_nonempty [simp]: "split_on d s \<noteq> []"
  by (induction s) (auto split: list.splits)

lemma split_on_none: "d \<notin> set s \<Longrightarrow> split_on d s = [s]"
  by (induction s) auto

lemma split_on_append: "d \<notin> set a \<Longrightarrow> split_on d (a @ d # b) = a # split_on d b"
  by (induction a) auto

lemma split_once_append: "d \<notin> set a \<Longrightarrow> split_once d (a @ d # b) = Some (a, b)"
  by (induction a) auto

lemma split_once_Some: "split_once d s = Some (a, b) \<longleftrightarrow> s = a @ d # b \<and> d \<notin> set a"
proof (induction s arbitrary: a)
  case (Cons c s)
  show ?case by (cases a) (auto simp: Cons.IH split: prod.splits)
qed simp

lemma split_once_None: "split_once d s = None \<longleftrightarrow> d \<notin> set s"
  by (induction s) auto

lemma of_char_ascii_lower:
  "(of_char (ascii_lower c) :: nat) =
     (if 65 \<le> (of_char c :: nat) \<and> (of_char c :: nat) \<le> 90 then of_char c + 32 else of_char c)"
  by (auto simp: ascii_lower_def of_char_of)

lemma ascii_lower_idem [simp]: "ascii_lower (ascii_lower c) = ascii_lower c"
  by (subst (1) ascii_lower_def) (auto simp: of_char_ascii_lower split: if_splits)

lemma to_lowercase_idem [simp]: "to_lowercase (to_lowercase s) = to_lowercase s"
  by (simp add: to_lowercase_def)

lemma to_lowercase_append [simp]: "to_lowercase (a @ b) = to_lowercase a @ to_lowercase b"
  by (simp add: to_lowercase_def)

lemma to_lowercase_Nil [simp]: "to_lowercase [] = []"
  by (simp add: to_lowercase_def)

lemma ascii_lower_colon: "ascii_lower c = CHR '':'' \<longleftrightarrow> c = CHR '':''"
proof
  assume "ascii_lower c = CHR '':''"
  then have "(of_char (ascii_lower c) :: nat) = of_char (CHR '':'')" by simp
  then have "(of_char c :: nat) = of_char (CHR '':'')"
    by (auto simp: of_char_ascii_lower split: if_splits)
  then show "c = CHR '':''" by (simp only: of_char_eq_iff)
next
  assume "c = CHR '':''"
  then show "ascii_lower c = CHR '':''" by (simp add: ascii_lower_def)
qed

lemma to_lowercase_Cons_colon [simp]:
  "to_lowercase (CHR '':'' # s) = CHR '':'' # to_lowercase s"
  using ascii_lower_colon by (auto simp: to_lowercase_def)

lemma colon_in_to_lowercase [simp]:
  "CHR '':'' \<in> set (to_lowercase s) \<longleftrightarrow> CHR '':'' \<in> set s"
  by (auto simp: to_lowercase_def image_iff) (metis ascii_lower_colon)+

lemma eq_ignore_ascii_case_refl [simp]: "eq_ignore_ascii_case s s"
  by (simp add: eq_ignore_ascii_case_def)

lemma starts_with_append [simp]: "starts_with (p @ s) p"
  by (simp add: starts_with_def)

lemma starts_with_iff: "starts_with s p \<longleftrightarrow> (\<exists>t. s = p @ t)"
  by (metis append_take_drop_id append_eq_conv_conj starts_with_def)

end
