(* ===== verification/Guards.thy ===== *)
theory Guards
  imports Prelude
begin

text \<open>
  The two ownership contracts the node's resources follow.

  \<^item> \<open>once_guard\<close>: the drop guards (port leases, memory reservations, queue permits, forward
    counters) release what they own exactly once: a release marks the guard as spent, and a spent
    guard releases nothing, so the explicit release followed by the one of \<^verbatim>\<open>Drop\<close> is harmless.
  \<^item> \<open>lease_pool\<close>: a pool of distinct resources that hands a resource out only while nobody
    holds it. Its client lemma: in every run of the pool, two grants of the same resource are
    separated by a release.
\<close>

section \<open>Guards that release once\<close>

locale once_guard =
  fixes spent :: "'g \<Rightarrow> bool"
    and release :: "'g \<Rightarrow> 's \<Rightarrow> 'g \<times> 's"
  assumes release_spent: "spent g \<Longrightarrow> release g s = (g, s)"
    and spent_release: "spent (fst (release g s))"
begin

lemma release_twice: "case_prod release (release g s) = release g s"
  using spent_release [of g s] by (cases "release g s") (simp add: release_spent)

lemma release_many: "(case_prod release ^^ Suc n) (g, s) = release g s"
  by (induction n) (simp_all add: release_twice)

end

section \<open>Pools that never hand a resource out twice\<close>

datatype 'r pool_event = Acquire 'r | Release 'r

text \<open>What is outstanding after a sequence of grants and releases, the first event first.\<close>

fun outstanding :: "'r set \<Rightarrow> 'r pool_event list \<Rightarrow> 'r set" where
  "outstanding H [] = H"
| "outstanding H (Acquire r # es) = outstanding (insert r H) es"
| "outstanding H (Release r # es) = outstanding (H - {r}) es"

text \<open>A run of the pool: every grant of the sequence must succeed.\<close>

fun pool_run ::
  "('r \<Rightarrow> 's \<Rightarrow> 's option) \<Rightarrow> ('r \<Rightarrow> 's \<Rightarrow> 's) \<Rightarrow> 's \<Rightarrow> 'r pool_event list \<Rightarrow> 's option" where
  "pool_run acq rel s [] = Some s"
| "pool_run acq rel s (Acquire r # es) =
     (case acq r s of None \<Rightarrow> None | Some s' \<Rightarrow> pool_run acq rel s' es)"
| "pool_run acq rel s (Release r # es) = pool_run acq rel (rel r s) es"

lemma pool_run_append:
  "pool_run acq rel s (xs @ ys) =
     (case pool_run acq rel s xs of None \<Rightarrow> None | Some t \<Rightarrow> pool_run acq rel t ys)"
proof (induction xs arbitrary: s)
  case (Cons e xs)
  then show ?case by (cases e) (auto split: option.splits)
qed simp

lemma outstanding_keeps:
  "r \<in> H \<Longrightarrow> Release r \<notin> set es \<Longrightarrow> r \<in> outstanding H es"
proof (induction es arbitrary: H)
  case (Cons e es)
  then show ?case by (cases e) auto
qed simp

locale lease_pool =
  fixes held :: "'s \<Rightarrow> 'r set"
    and acq :: "'r \<Rightarrow> 's \<Rightarrow> 's option"
    and rel :: "'r \<Rightarrow> 's \<Rightarrow> 's"
  assumes acq_fresh: "acq r s = Some s' \<Longrightarrow> r \<notin> held s"
    and acq_held: "acq r s = Some s' \<Longrightarrow> held s' = insert r (held s)"
    and acq_free: "r \<notin> held s \<Longrightarrow> acq r s \<noteq> None"
    and rel_held: "held (rel r s) = held s - {r}"
begin

lemma run_held: "pool_run acq rel s es = Some t \<Longrightarrow> held t = outstanding (held s) es"
proof (induction es arbitrary: s)
  case (Cons e es)
  then show ?case by (cases e) (auto simp: acq_held rel_held split: option.splits)
qed simp

lemma exclusive:
  assumes "pool_run acq rel s (xs @ Acquire r # ys @ Acquire r # zs) = Some t"
  shows "Release r \<in> set ys"
proof (rule ccontr)
  assume no: "Release r \<notin> set ys"
  from assms obtain a b c where a: "pool_run acq rel s xs = Some a"
    and b: "acq r a = Some b" and c: "pool_run acq rel b ys = Some c"
    and d: "acq r c \<noteq> None"
    by (auto simp: pool_run_append split: option.splits)
  have "r \<in> held b" using acq_held [OF b] by simp
  then have "r \<in> held c"
    using run_held [OF c] no by (simp add: outstanding_keeps)
  moreover from d obtain e where "acq r c = Some e" by auto
  ultimately show False using acq_fresh by blast
qed

lemma reacquire: "acq r (rel r s) \<noteq> None"
  by (rule acq_free) (simp add: rel_held)

end

end
