(* ===== verification/Port_Pool.thy ===== *)
theory Port_Pool
  imports Guards
begin

text \<open>
  The port pool of \<^verbatim>\<open>src/node_state/port_pool.rs\<close>: allocation of ports for llama-server
  instances, the lease that owns an allocated port until the instance is in the map, and the
  ways a lease gives its port back. The operating system's bind test and the random start of the
  ephemeral scan are parameters.
\<close>

section \<open>Data\<close>

record port_range =
  range_start :: u16
  range_end :: u16

record llama_cpp_ports =
  explicit_ports :: "u16 list option"
  port_ranges :: "port_range list option"

datatype port_error = NoAvailablePorts | PortInUse u16

record port_lease =
  lease_port :: u16
  armed :: bool

record port_pool =
  used_ports :: "u16 set"
  ports_config :: "llama_cpp_ports option"

definition new_lease :: "u16 \<Rightarrow> port_lease" where
  "new_lease port = \<lparr>lease_port = port, armed = True\<rparr>"

definition new_pool :: "llama_cpp_ports option \<Rightarrow> port_pool" where
  "new_pool cfg = \<lparr>used_ports = {}, ports_config = cfg\<rparr>"

section \<open>Allocation\<close>

text \<open>One \<^verbatim>\<open>for\<close> loop of \<^verbatim>\<open>get_available_port\<close>: the first port that is neither used nor bound.\<close>

fun scan_ports :: "(u16 \<Rightarrow> bool) \<Rightarrow> u16 set \<Rightarrow> u16 list \<Rightarrow> u16 option" where
  "scan_ports avail used [] = None"
| "scan_ports avail used (p # ps) =
     (if p \<notin> used \<and> avail p then Some p else scan_ports avail used ps)"

definition port_span :: "nat \<Rightarrow> nat \<Rightarrow> u16 list" where
  "port_span lo hi = map of_nat [lo..<hi]"

text \<open>\<^verbatim>\<open>range.start..=range.end\<close>\<close>

definition range_ports :: "port_range \<Rightarrow> u16 list" where
  "range_ports r = port_span (unat (range_start r)) (Suc (unat (range_end r)))"

text \<open>\<^verbatim>\<open>(start..20000).chain(10000..start)\<close>\<close>

definition ephemeral_ports :: "nat \<Rightarrow> u16 list" where
  "ephemeral_ports start = port_span start 20000 @ port_span 10000 start"

definition take_port :: "port_pool \<Rightarrow> u16 \<Rightarrow> port_lease \<times> port_pool" where
  "take_port pool p = (new_lease p, pool\<lparr>used_ports := insert p (used_ports pool)\<rparr>)"

definition get_available_port ::
  "(u16 \<Rightarrow> bool) \<Rightarrow> nat \<Rightarrow> port_pool \<Rightarrow> (port_lease \<times> port_pool, port_error) result" where
  "get_available_port avail start pool =
     (case ports_config pool of
        Some cfg \<Rightarrow>
          (case (case explicit_ports cfg of
                   None \<Rightarrow> None
                 | Some ps \<Rightarrow> scan_ports avail (used_ports pool) ps) of
             Some p \<Rightarrow> Ok (take_port pool p)
           | None \<Rightarrow>
               (case (case port_ranges cfg of
                        None \<Rightarrow> None
                      | Some rs \<Rightarrow>
                          scan_ports avail (used_ports pool) (concat (map range_ports rs))) of
                  Some p \<Rightarrow> Ok (take_port pool p)
                | None \<Rightarrow> Err NoAvailablePorts))
      | None \<Rightarrow>
          (case scan_ports avail (used_ports pool) (ephemeral_ports start) of
             Some p \<Rightarrow> Ok (take_port pool p)
           | None \<Rightarrow> Err NoAvailablePorts))"

definition release_port :: "u16 \<Rightarrow> port_pool \<Rightarrow> port_pool" where
  "release_port p pool = pool\<lparr>used_ports := used_ports pool - {p}\<rparr>"

definition reserve_specific_port ::
  "u16 \<Rightarrow> port_pool \<Rightarrow> (port_lease \<times> port_pool, port_error) result" where
  "reserve_specific_port p pool =
     (if p \<in> used_ports pool then Err (PortInUse p) else Ok (take_port pool p))"

section \<open>Leases\<close>

text \<open>
  \<^verbatim>\<open>PortLease::release\<close> and \<^verbatim>\<open>handoff\<close> consume the lease and disarm it; \<^verbatim>\<open>Drop\<close> runs afterwards in
  both cases and does nothing on a disarmed lease. A drop of an armed lease removes the port at
  once when the pool's lock is free, hands the removal to a task when it is contended, and can do
  neither outside a runtime.
\<close>

datatype drop_context = LockFree | Contended | NoRuntime

definition lease_release :: "port_lease \<Rightarrow> port_pool \<Rightarrow> port_lease \<times> port_pool" where
  "lease_release l pool = (l\<lparr>armed := False\<rparr>, release_port (lease_port l) pool)"

definition handoff :: "port_lease \<Rightarrow> port_lease \<times> u16" where
  "handoff l = (l\<lparr>armed := False\<rparr>, lease_port l)"

text \<open>The ports whose removal is left to a spawned task come back as the second component.\<close>

definition drop_lease ::
  "drop_context \<Rightarrow> port_lease \<Rightarrow> port_pool \<Rightarrow> port_pool \<times> u16 list" where
  "drop_lease ctx l pool =
     (if \<not> armed l then (pool, [])
      else case ctx of
        LockFree \<Rightarrow> (release_port (lease_port l) pool, [])
      | Contended \<Rightarrow> (pool, [lease_port l])
      | NoRuntime \<Rightarrow> (pool, []))"

section \<open>Who owns which port\<close>

text \<open>
  The pool together with its users: the armed leases of spawns in progress, the ports handed to
  mapped instances, the removals spawned by contended drops, and the ports a drop outside a
  runtime could not return. One rule per operation of the code.
\<close>

record port_world =
  pool :: port_pool
  leased :: "u16 list"
  mapped :: "u16 list"
  deferred :: "u16 list"
  stranded :: "u16 list"

inductive port_step :: "port_world \<Rightarrow> port_world \<Rightarrow> bool" where
  allocate: "get_available_port avail start (pool w) = Ok (l, q) \<Longrightarrow> 10000 \<le> start \<Longrightarrow> start < 20000
    \<Longrightarrow> port_step w (w\<lparr>pool := q, leased := lease_port l # leased w\<rparr>)"
| reserve: "reserve_specific_port p (pool w) = Ok (l, q)
    \<Longrightarrow> port_step w (w\<lparr>pool := q, leased := lease_port l # leased w\<rparr>)"
| release: "p \<in> set (leased w) \<Longrightarrow> lease_release (new_lease p) (pool w) = (l, q)
    \<Longrightarrow> port_step w (w\<lparr>pool := q, leased := remove1 p (leased w)\<rparr>)"
| hand_off: "p \<in> set (leased w) \<Longrightarrow> handoff (new_lease p) = (l, p')
    \<Longrightarrow> port_step w (w\<lparr>leased := remove1 p (leased w), mapped := p' # mapped w\<rparr>)"
| drop: "p \<in> set (leased w) \<Longrightarrow> drop_lease ctx (new_lease p) (pool w) = (q, ds)
    \<Longrightarrow> port_step w (w\<lparr>pool := q, leased := remove1 p (leased w), deferred := ds @ deferred w,
          stranded := (if ctx = NoRuntime then [p] else []) @ stranded w\<rparr>)"
| deferred_removal: "p \<in> set (deferred w)
    \<Longrightarrow> port_step w (w\<lparr>pool := release_port p (pool w), deferred := remove1 p (deferred w)\<rparr>)"
| cleanup: "p \<in> set (mapped w)
    \<Longrightarrow> port_step w (w\<lparr>pool := release_port p (pool w), mapped := remove1 p (mapped w)\<rparr>)"

inductive port_reachable :: "llama_cpp_ports option \<Rightarrow> port_world \<Rightarrow> bool" for cfg where
  start: "port_reachable cfg
    \<lparr>pool = new_pool cfg, leased = [], mapped = [], deferred = [], stranded = []\<rparr>"
| step: "port_reachable cfg w \<Longrightarrow> port_step w w' \<Longrightarrow> port_reachable cfg w'"

abbreviation port_owners :: "port_world \<Rightarrow> u16 list" where
  "port_owners w \<equiv> leased w @ mapped w @ deferred w @ stranded w"

definition port_inv :: "port_world \<Rightarrow> bool" where
  "port_inv w \<longleftrightarrow> distinct (port_owners w) \<and> set (port_owners w) = used_ports (pool w)"

section \<open>Facts about the scan\<close>

lemma scan_ports_Some:
  "scan_ports avail used ps = Some p \<Longrightarrow> p \<in> set ps \<and> p \<notin> used \<and> avail p"
  by (induction ps) (auto split: if_splits)

lemma scan_ports_None:
  "scan_ports avail used ps = None \<longleftrightarrow> (\<forall>p \<in> set ps. p \<in> used \<or> \<not> avail p)"
  by (induction ps) auto

lemma set_port_span:
  "hi \<le> 65536 \<Longrightarrow> set (port_span lo hi) = {p. lo \<le> unat p \<and> unat p < hi}"
proof -
  assume hi: "hi \<le> 65536"
  have "p \<in> of_nat ` {lo..<hi}" if "lo \<le> unat p" "unat p < hi" for p :: u16
    using that by (auto intro!: image_eqI [of p _ "unat p"])
  with hi show ?thesis
    by (auto simp: port_span_def unsigned_of_nat take_bit_eq_mod)
qed

lemma set_range_ports:
  "set (range_ports r) = {p. range_start r \<le> p \<and> p \<le> range_end r}"
proof -
  have "unat (range_end r) < 2 ^ LENGTH(16)" by (rule unsigned_less)
  then show ?thesis
    by (auto simp: range_ports_def set_port_span word_le_nat_alt)
qed

lemma set_ephemeral_ports:
  "10000 \<le> start \<Longrightarrow> start \<le> 20000 \<Longrightarrow>
   set (ephemeral_ports start) = {p. 10000 \<le> unat p \<and> unat p < 20000}"
  by (auto simp: ephemeral_ports_def set_port_span)

text \<open>The ports a pool may ever hand out by scanning.\<close>

definition configured_ports :: "llama_cpp_ports option \<Rightarrow> u16 set" where
  "configured_ports c = (case c of
     None \<Rightarrow> {p. 10000 \<le> unat p \<and> unat p < 20000}
   | Some cfg \<Rightarrow> set (case explicit_ports cfg of None \<Rightarrow> [] | Some ps \<Rightarrow> ps)
       \<union> {p. \<exists>r \<in> set (case port_ranges cfg of None \<Rightarrow> [] | Some rs \<Rightarrow> rs).
              range_start r \<le> p \<and> p \<le> range_end r})"

text \<open>The scan as one pass over a single list of candidates.\<close>

definition candidate_ports :: "llama_cpp_ports option \<Rightarrow> nat \<Rightarrow> u16 list" where
  "candidate_ports c start = (case c of
     None \<Rightarrow> ephemeral_ports start
   | Some cfg \<Rightarrow> (case explicit_ports cfg of None \<Rightarrow> [] | Some ps \<Rightarrow> ps)
       @ concat (map range_ports (case port_ranges cfg of None \<Rightarrow> [] | Some rs \<Rightarrow> rs)))"

lemma set_candidate_ports:
  "10000 \<le> start \<Longrightarrow> start < 20000 \<Longrightarrow> set (candidate_ports c start) = configured_ports c"
  by (auto simp: candidate_ports_def configured_ports_def set_ephemeral_ports set_range_ports
      split: option.splits)

lemma scan_ports_append:
  "scan_ports avail used (ps @ qs) =
     (case scan_ports avail used ps of None \<Rightarrow> scan_ports avail used qs | Some p \<Rightarrow> Some p)"
  by (induction ps) auto

lemma get_available_port_scan:
  "get_available_port avail start q =
     (case scan_ports avail (used_ports q) (candidate_ports (ports_config q) start) of
        Some p \<Rightarrow> Ok (take_port q p) | None \<Rightarrow> Err NoAvailablePorts)"
  by (auto simp: get_available_port_def candidate_ports_def scan_ports_append split: option.splits)

lemma get_available_port_Ok:
  assumes "get_available_port avail start q = Ok (l, q')" "10000 \<le> start" "start < 20000"
  shows "lease_port l \<in> configured_ports (ports_config q) \<and> lease_port l \<notin> used_ports q
    \<and> avail (lease_port l) \<and> armed l
    \<and> q' = q\<lparr>used_ports := insert (lease_port l) (used_ports q)\<rparr>"
  using assms scan_ports_Some [of avail "used_ports q" "candidate_ports (ports_config q) start"]
  by (auto simp: get_available_port_scan take_port_def new_lease_def set_candidate_ports
      split: option.splits)

lemma reserve_specific_port_Ok:
  "reserve_specific_port p q = Ok (l, q') \<Longrightarrow>
     lease_port l = p \<and> p \<notin> used_ports q \<and> armed l
     \<and> q' = q\<lparr>used_ports := insert p (used_ports q)\<rparr>"
  by (auto simp: reserve_specific_port_def take_port_def new_lease_def split: if_splits)

section \<open>Properties\<close>

text \<open>\<open>get_available_port\<close> fails exactly when no configured port is left: every port of the
  explicit list and of the ranges (or, without a configuration, of 10000 to 19999, wherever the
  random scan starts) is either already used or cannot be bound; the only error is
  \<open>NoAvailablePorts\<close>.\<close>

theorem get_available_port_complete:
  assumes "10000 \<le> start" "start < 20000"
  shows "get_available_port avail start q = Err e \<longleftrightarrow>
    e = NoAvailablePorts \<and>
    (\<forall>p \<in> configured_ports (ports_config q). p \<in> used_ports q \<or> \<not> avail p)"
  using scan_ports_None [of avail "used_ports q" "candidate_ports (ports_config q) start"]
  by (cases "scan_ports avail (used_ports q) (candidate_ports (ports_config q) start)")
    (auto simp: get_available_port_scan set_candidate_ports [OF assms])

theorem get_available_port_complete_witness:
  "get_available_port (\<lambda>p. p \<noteq> 8081) 10000
     \<lparr>used_ports = {8080}, ports_config =
        Some \<lparr>explicit_ports = Some [8080], port_ranges = Some [\<lparr>range_start = 8081, range_end = 8081\<rparr>]\<rparr>\<rparr>
   = Err NoAvailablePorts"
  by (subst get_available_port_complete) (auto simp: configured_ports_def)

section \<open>The pool hands a port to one owner at a time\<close>

definition acquire_port :: "u16 \<Rightarrow> port_pool \<Rightarrow> port_pool option" where
  "acquire_port p q = (case reserve_specific_port p q of Inl _ \<Rightarrow> None | Inr (_, q') \<Rightarrow> Some q')"

interpretation ports: lease_pool used_ports acquire_port release_port
  by unfold_locales
    (auto simp: acquire_port_def reserve_specific_port_def take_port_def release_port_def
      split: if_splits)

interpretation port_guard: once_guard "\<lambda>l. \<not> armed l" "\<lambda>l q. (l\<lparr>armed := False\<rparr>, fst (drop_lease LockFree l q))"
  by unfold_locales (auto simp: drop_lease_def)

text \<open>In every run of reservations and releases of the pool, two successful reservations of the
  same port are separated by a release of it, and a released port can be reserved again at once.\<close>

theorem port_reservation_exclusive:
  assumes "pool_run acquire_port release_port q (xs @ Acquire p # ys @ Acquire p # zs) = Some q'"
  shows "Release p \<in> set ys \<and> acquire_port p (release_port p q') \<noteq> None"
  using ports.exclusive [OF assms] ports.reacquire by blast

theorem port_reservation_exclusive_witness:
  "pool_run acquire_port release_port (new_pool None) ([] @ Acquire 80 # [Release 80] @ Acquire 80 # []) \<noteq> None
   \<and> Release (80 :: u16) \<in> set [Release 80]"
proof -
  have "pool_run acquire_port release_port (new_pool None)
          ([] @ Acquire 80 # [Release 80] @ Acquire 80 # [])
        = Some (new_pool None\<lparr>used_ports := {80}\<rparr>)"
    by (simp add: acquire_port_def reserve_specific_port_def take_port_def release_port_def new_pool_def)
  with port_reservation_exclusive [OF this] show ?thesis by simp
qed

subsection \<open>Reachable worlds\<close>

lemma port_inv_start:
  "port_inv \<lparr>pool = new_pool cfg, leased = [], mapped = [], deferred = [], stranded = []\<rparr>"
  by (simp add: port_inv_def new_pool_def)

lemma port_step_inv: "port_step w w' \<Longrightarrow> port_inv w \<Longrightarrow> port_inv w'"
proof (induction rule: port_step.induct)
  case (allocate avail start w l q)
  then show ?case using get_available_port_Ok [of avail start "pool w" l q]
    by (auto simp: port_inv_def)
next
  case (reserve p w l q)
  then show ?case using reserve_specific_port_Ok [of p "pool w" l q] by (auto simp: port_inv_def)
next
  case (drop p w ctx q ds)
  then show ?case
    by (cases ctx) (auto simp: port_inv_def drop_lease_def new_lease_def release_port_def)
qed (auto simp: port_inv_def lease_release_def handoff_def new_lease_def release_port_def)

lemma port_reachable_inv: "port_reachable cfg w \<Longrightarrow> port_inv w"
  by (induction rule: port_reachable.induct) (auto intro: port_inv_start port_step_inv)

text \<open>C6. In every reachable state of the pool and its users, the used ports are exactly the ports
  somebody still owns (a lease, a mapped instance, a removal left to a task, or a drop outside a
  runtime), and no port has two owners; so a port is freed exactly when its one owner gives it back.\<close>

theorem port_ownership_exclusive:
  "port_reachable cfg w \<Longrightarrow>
   set (port_owners w) = used_ports (pool w) \<and> distinct (port_owners w)"
  using port_reachable_inv by (auto simp: port_inv_def)

lemma port_reachable_example:
  "port_reachable None
     \<lparr>pool = \<lparr>used_ports = {8080}, ports_config = None\<rparr>, leased = [8080], mapped = [],
      deferred = [], stranded = []\<rparr>"
proof -
  let ?w = "\<lparr>pool = new_pool None, leased = [], mapped = [], deferred = [], stranded = []\<rparr>"
  have "reserve_specific_port 8080 (pool ?w)
        = Ok (new_lease 8080, \<lparr>used_ports = {8080}, ports_config = None\<rparr>)"
    by (simp add: reserve_specific_port_def take_port_def new_pool_def)
  from port_step.reserve [OF this] have "port_step ?w
      \<lparr>pool = \<lparr>used_ports = {8080}, ports_config = None\<rparr>, leased = [8080], mapped = [],
       deferred = [], stranded = []\<rparr>"
    by (simp add: new_lease_def)
  with port_reachable.start show ?thesis by (rule port_reachable.step)
qed

theorem port_ownership_exclusive_witness:
  "set (port_owners \<lparr>pool = \<lparr>used_ports = {8080}, ports_config = None\<rparr>, leased = [8080],
        mapped = [], deferred = [], stranded = []\<rparr>) = {8080 :: u16}"
  using port_ownership_exclusive [OF port_reachable_example] by simp

end
