(* ===== verification/Circuit_Breaker.thy ===== *)
theory Circuit_Breaker
  imports Prelude
begin

text \<open>
  The per-peer circuit breaker of \<^verbatim>\<open>src/circuit_breaker.rs\<close>. An instant is a number of nanoseconds
  of the monotonic clock and is passed to each operation; milliseconds are \<open>u64\<close> as in the code.
  The synchronous gate tries to take the circuits' lock, and \<open>locked\<close> says whether it could.
\<close>

section \<open>Data\<close>

type_synonym instant = nat

datatype circuit_state = Closed | Open | HalfOpen

datatype dispatch_decision = Admit (probe_ticket: bool) | Deny

record peer_circuit =
  cb_state :: circuit_state
  failure_count :: u32
  success_count :: u32
  last_failure :: "instant option"
  last_state_change :: instant
  consecutive_opens :: u32
  opened_at :: instant
  created :: instant
  last_probe_ms :: u64

record circuit_config =
  failure_threshold :: u32
  success_threshold :: u32
  open_duration_base_ms :: u64
  open_duration_max_ms :: u64
  half_open_probe_interval_ms :: u64
  cb_enabled :: bool

definition default_circuit_config :: circuit_config where
  "default_circuit_config = \<lparr>failure_threshold = 5, success_threshold = 2,
     open_duration_base_ms = 5000, open_duration_max_ms = 60000,
     half_open_probe_interval_ms = 1000, cb_enabled = True\<rparr>"

definition default_circuit :: "instant \<Rightarrow> peer_circuit" where
  "default_circuit now = \<lparr>cb_state = Closed, failure_count = 0, success_count = 0,
     last_failure = None, last_state_change = now, consecutive_opens = 0, opened_at = now,
     created = now, last_probe_ms = 0\<rparr>"

type_synonym circuits = "(string, peer_circuit) hashmap"

section \<open>Probe pacing\<close>

definition elapsed_ms :: "instant \<Rightarrow> instant \<Rightarrow> nat" where
  "elapsed_ms since now = (now - since) div 1000000"

text \<open>\<^verbatim>\<open>(self.created.elapsed().as_millis() as u64).max(1)\<close>\<close>

definition probe_now_ms :: "instant \<Rightarrow> peer_circuit \<Rightarrow> u64" where
  "probe_now_ms now c = max (of_nat (elapsed_ms (created c) now)) 1"

text \<open>\<^verbatim>\<open>compare_exchange\<close> on \<^verbatim>\<open>last_probe_ms\<close>.\<close>

definition probe_cas :: "u64 \<Rightarrow> u64 \<Rightarrow> peer_circuit \<Rightarrow> bool \<times> peer_circuit" where
  "probe_cas expected new c =
     (if last_probe_ms c = expected then (True, c\<lparr>last_probe_ms := new\<rparr>) else (False, c))"

text \<open>
  What a claimant does with the value it loaded before; in \<open>try_claim_probe\<close> the load and the
  exchange are adjacent, while concurrent claimants may act on the same loaded value.
\<close>

definition claim_with_loaded ::
  "u64 \<Rightarrow> instant \<Rightarrow> u64 \<Rightarrow> peer_circuit \<Rightarrow> bool \<times> peer_circuit" where
  "claim_with_loaded interval now seen c =
     (let now_ms = probe_now_ms now c in
      if interval = 0 then (True, c\<lparr>last_probe_ms := now_ms\<rparr>)
      else if seen \<noteq> 0 \<and> sat_sub now_ms seen < interval then (False, c)
      else probe_cas seen now_ms c)"

definition try_claim_probe :: "u64 \<Rightarrow> instant \<Rightarrow> peer_circuit \<Rightarrow> bool \<times> peer_circuit" where
  "try_claim_probe interval now c = claim_with_loaded interval now (last_probe_ms c) c"

definition reset_probe :: "peer_circuit \<Rightarrow> peer_circuit" where
  "reset_probe c = c\<lparr>last_probe_ms := 0\<rparr>"

section \<open>Backoff\<close>

definition calculate_backoff :: "circuit_config \<Rightarrow> u32 \<Rightarrow> u64" where
  "calculate_backoff cfg opens =
     (let base = open_duration_base_ms cfg;
          exponent = min (unat (sat_sub opens 1)) 10
      in min (sat_mul base (2 ^ exponent)) (open_duration_max_ms cfg))"

definition backoff_elapsed :: "circuit_config \<Rightarrow> instant \<Rightarrow> peer_circuit \<Rightarrow> bool" where
  "backoff_elapsed cfg now c \<longleftrightarrow>
     unat (calculate_backoff cfg (consecutive_opens c)) * 1000000 \<le> now - last_state_change c"

definition is_power_of_two :: "u32 \<Rightarrow> bool" where
  "is_power_of_two w = list_ex (\<lambda>k. unat w = 2 ^ k) [0..<32]"

definition reopen_logs_at_warn :: "circuit_config \<Rightarrow> u32 \<Rightarrow> bool" where
  "reopen_logs_at_warn cfg opens \<longleftrightarrow>
     is_power_of_two opens
     \<or> calculate_backoff cfg opens \<noteq> calculate_backoff cfg (sat_sub opens 1)"

definition close_after_recovery :: "instant \<Rightarrow> peer_circuit \<Rightarrow> peer_circuit" where
  "close_after_recovery now c = reset_probe
     (c\<lparr>cb_state := Closed, last_state_change := now, failure_count := 0, consecutive_opens := 0\<rparr>)"

section \<open>Operations on one circuit\<close>

definition allow_circuit :: "circuit_config \<Rightarrow> instant \<Rightarrow> peer_circuit \<Rightarrow> bool \<times> peer_circuit" where
  "allow_circuit cfg now c = (case cb_state c of
     Closed \<Rightarrow> (True, c)
   | Open \<Rightarrow>
       (if backoff_elapsed cfg now c
        then try_claim_probe (half_open_probe_interval_ms cfg) now
               (reset_probe (c\<lparr>cb_state := HalfOpen, last_state_change := now, success_count := 0\<rparr>))
        else (False, c))
   | HalfOpen \<Rightarrow> try_claim_probe (half_open_probe_interval_ms cfg) now c)"

definition claim_circuit ::
  "circuit_config \<Rightarrow> instant \<Rightarrow> peer_circuit \<Rightarrow> dispatch_decision \<times> peer_circuit" where
  "claim_circuit cfg now c = (case cb_state c of
     Closed \<Rightarrow> (Admit False, c)
   | HalfOpen \<Rightarrow>
       (case try_claim_probe (half_open_probe_interval_ms cfg) now c of
          (True, c') \<Rightarrow> (Admit True, c') | (False, c') \<Rightarrow> (Deny, c'))
   | Open \<Rightarrow>
       (if backoff_elapsed cfg now c then
          (case try_claim_probe (half_open_probe_interval_ms cfg) now c of
             (True, c') \<Rightarrow> (Admit True, c') | (False, c') \<Rightarrow> (Deny, c'))
        else (Deny, c)))"

definition success_circuit ::
  "circuit_config \<Rightarrow> instant \<Rightarrow> bool \<Rightarrow> peer_circuit \<Rightarrow> bool \<times> peer_circuit" where
  "success_circuit cfg now ticket c = (case cb_state c of
     HalfOpen \<Rightarrow>
       (if \<not> ticket then (False, c)
        else let c = c\<lparr>success_count := success_count c + 1\<rparr> in
          if success_threshold cfg \<le> success_count c then (True, close_after_recovery now c)
          else (False, c))
   | Closed \<Rightarrow> (False, c\<lparr>failure_count := 0\<rparr>)
   | Open \<Rightarrow>
       (if ticket
        then let c = c\<lparr>last_state_change := now, success_count := 1\<rparr> in
          (True, if success_threshold cfg \<le> success_count c then close_after_recovery now c
                 else c\<lparr>cb_state := HalfOpen\<rparr>)
        else (False, c)))"

definition failure_circuit ::
  "circuit_config \<Rightarrow> instant \<Rightarrow> bool \<Rightarrow> peer_circuit \<Rightarrow> peer_circuit" where
  "failure_circuit cfg now ticket c0 =
     (let c = c0\<lparr>failure_count := failure_count c0 + 1, last_failure := Some now\<rparr> in
      case cb_state c of
        Closed \<Rightarrow>
          (if failure_threshold cfg \<le> failure_count c
           then reset_probe (c\<lparr>cb_state := Open, last_state_change := now, opened_at := now,
                  consecutive_opens := consecutive_opens c + 1, success_count := 0\<rparr>)
           else c)
      | HalfOpen \<Rightarrow>
          (if ticket
           then reset_probe (c\<lparr>cb_state := Open, last_state_change := now,
                  consecutive_opens := consecutive_opens c + 1, success_count := 0\<rparr>)
           else c)
      | Open \<Rightarrow>
          (if ticket
           then reset_probe (c\<lparr>last_state_change := now,
                  consecutive_opens := consecutive_opens c + 1, success_count := 0\<rparr>)
           else c))"

section \<open>The breaker\<close>

definition entry_or_default :: "instant \<Rightarrow> string \<Rightarrow> circuits \<Rightarrow> peer_circuit" where
  "entry_or_default now peer m =
     (case hm_get m peer of Some c \<Rightarrow> c | None \<Rightarrow> default_circuit now)"

definition should_allow ::
  "circuit_config \<Rightarrow> instant \<Rightarrow> string \<Rightarrow> circuits \<Rightarrow> bool \<times> circuits" where
  "should_allow cfg now peer m =
     (if \<not> cb_enabled cfg then (True, m)
      else case allow_circuit cfg now (entry_or_default now peer m) of
        (ok, c) \<Rightarrow> (ok, hm_insert peer c m))"

definition should_allow_sync ::
  "circuit_config \<Rightarrow> bool \<Rightarrow> instant \<Rightarrow> string \<Rightarrow> circuits \<Rightarrow> bool" where
  "should_allow_sync cfg locked now peer m =
     (if \<not> cb_enabled cfg then True
      else if \<not> locked then True
      else case hm_get m peer of
        None \<Rightarrow> True
      | Some c \<Rightarrow> (case cb_state c of
          Closed \<Rightarrow> True | HalfOpen \<Rightarrow> True | Open \<Rightarrow> backoff_elapsed cfg now c))"

definition try_claim_dispatch_sync ::
  "circuit_config \<Rightarrow> bool \<Rightarrow> instant \<Rightarrow> string \<Rightarrow> circuits \<Rightarrow> dispatch_decision \<times> circuits" where
  "try_claim_dispatch_sync cfg locked now peer m =
     (if \<not> cb_enabled cfg then (Admit False, m)
      else if \<not> locked then (Admit False, m)
      else case hm_get m peer of
        None \<Rightarrow> (Admit False, m)
      | Some c \<Rightarrow> (case claim_circuit cfg now c of (d, c') \<Rightarrow> (d, hm_insert peer c' m)))"

definition record_success ::
  "circuit_config \<Rightarrow> instant \<Rightarrow> string \<Rightarrow> bool \<Rightarrow> circuits \<Rightarrow> bool \<times> circuits" where
  "record_success cfg now peer ticket m =
     (if \<not> cb_enabled cfg then (False, m)
      else case success_circuit cfg now ticket (entry_or_default now peer m) of
        (r, c) \<Rightarrow> (r, hm_insert peer c m))"

definition record_failure ::
  "circuit_config \<Rightarrow> instant \<Rightarrow> string \<Rightarrow> bool \<Rightarrow> circuits \<Rightarrow> circuits" where
  "record_failure cfg now peer ticket m =
     (if \<not> cb_enabled cfg then m
      else hm_insert peer (failure_circuit cfg now ticket (entry_or_default now peer m)) m)"

definition get_state :: "string \<Rightarrow> circuits \<Rightarrow> circuit_state" where
  "get_state peer m = (case hm_get m peer of Some c \<Rightarrow> cb_state c | None \<Rightarrow> Closed)"

definition get_all_states :: "circuits \<Rightarrow> (string, circuit_state) hashmap" where
  "get_all_states m = map (\<lambda>(k, c). (k, cb_state c)) m"

text \<open>The loop of \<^verbatim>\<open>forget\<close> over its keys, counting the circuits that existed.\<close>

fun forget_keys :: "string list \<Rightarrow> nat \<Rightarrow> circuits \<Rightarrow> nat \<times> circuits" where
  "forget_keys [] removed m = (removed, m)"
| "forget_keys (k # ks) removed m =
     (case hm_get m k of
        None \<Rightarrow> forget_keys ks removed m
      | Some _ \<Rightarrow> forget_keys ks (removed + 1) (hm_remove k m))"

definition forget :: "string list \<Rightarrow> circuits \<Rightarrow> nat \<times> circuits" where
  "forget keys m =
     (if \<not> list_ex (\<lambda>k. hm_get m k \<noteq> None) keys then (0, m) else forget_keys keys 0 m)"

definition reset_circuit :: "string \<Rightarrow> circuits \<Rightarrow> circuits" where
  "reset_circuit peer m = hm_remove peer m"

lemmas circuit_defs = allow_circuit_def claim_circuit_def success_circuit_def failure_circuit_def
  close_after_recovery_def reset_probe_def try_claim_probe_def claim_with_loaded_def probe_cas_def
  Let_def

section \<open>Backoff\<close>

lemma two_power_u64: "k \<le> 10 \<Longrightarrow> unat ((2 :: u64) ^ k) = 2 ^ k"
proof -
  assume "k \<le> 10"
  then have "(2 :: nat) ^ k \<le> 2 ^ 10" by (intro power_increasing) auto
  then have "(2 :: nat) ^ k < 2 ^ 64" by simp
  moreover have "unat (of_nat (2 ^ k) :: u64) = take_bit 64 (2 ^ k)"
    by (subst unsigned_of_nat) simp
  ultimately have "unat (of_nat (2 ^ k) :: u64) = 2 ^ k" by (simp only: take_bit_eq_mod mod_less)
  then show ?thesis by simp
qed

lemma backoff_unat:
  "unat (calculate_backoff cfg k) =
     min (unat (open_duration_base_ms cfg) * 2 ^ min (unat k - 1) 10) (unat (open_duration_max_ms cfg))"
proof -
  let ?e = "min (unat k - 1) 10"
  have e: "unat ((2 :: u64) ^ ?e) = 2 ^ ?e" by (rule two_power_u64) simp
  have m: "unat (open_duration_max_ms cfg) \<le> 2 ^ 64 - 1"
    using unat_le_max [of "open_duration_max_ms cfg"] by simp
  have "unat (calculate_backoff cfg k) =
      min (min (unat (open_duration_base_ms cfg) * unat ((2 :: u64) ^ ?e)) (2 ^ 64 - 1))
        (unat (open_duration_max_ms cfg))"
    by (simp add: calculate_backoff_def Let_def sat_simps)
  with e m show ?thesis by (simp add: min.assoc min.absorb2)
qed

lemma backoff_pos:
  "0 < open_duration_base_ms cfg \<Longrightarrow> 0 < open_duration_max_ms cfg \<Longrightarrow>
   0 < unat (calculate_backoff cfg k)"
  by (simp add: backoff_unat word_less_nat_alt)

text \<open>The backoff after the k-th consecutive open is the base doubled k - 1 times (at most ten
  times) and capped at the maximum, computed without overflow: it lies between base and maximum, is
  positive, and never shrinks as the opens accumulate.\<close>

theorem calculate_backoff_spec:
  assumes "0 < open_duration_base_ms cfg" "open_duration_base_ms cfg \<le> open_duration_max_ms cfg"
    and "k \<le> k'"
  shows "unat (calculate_backoff cfg k) =
      min (unat (open_duration_base_ms cfg) * 2 ^ min (unat k - 1) 10) (unat (open_duration_max_ms cfg))
    \<and> open_duration_base_ms cfg \<le> calculate_backoff cfg k
    \<and> calculate_backoff cfg k \<le> open_duration_max_ms cfg
    \<and> 0 < calculate_backoff cfg k
    \<and> calculate_backoff cfg k \<le> calculate_backoff cfg k'"
proof -
  let ?b = "unat (open_duration_base_ms cfg)"
  have pow: "(2 :: nat) ^ min (unat k - 1) 10 \<le> 2 ^ min (unat k' - 1) 10"
    using assms(3) by (intro power_increasing) (auto simp: word_le_nat_alt)
  then have "?b * 2 ^ min (unat k - 1) 10 \<le> ?b * 2 ^ min (unat k' - 1) 10"
    by (rule mult_le_mono2)
  then have "unat (calculate_backoff cfg k) \<le> unat (calculate_backoff cfg k')"
    unfolding backoff_unat by (rule min.mono) simp
  moreover have "?b \<le> ?b * 2 ^ min (unat k - 1) 10" by simp
  ultimately show ?thesis
    using assms(1,2) by (simp add: word_le_nat_alt word_less_nat_alt backoff_unat)
qed

theorem calculate_backoff_spec_witness:
  "unat (calculate_backoff default_circuit_config 4) = 40000
   \<and> calculate_backoff default_circuit_config 4 \<le> calculate_backoff default_circuit_config 9"
  using calculate_backoff_spec [of default_circuit_config 4 9]
  by (simp add: default_circuit_config_def word_le_nat_alt word_less_nat_alt)

section \<open>Probe pacing\<close>

lemma probe_now_ms_pos: "0 < unat (probe_now_ms now c)"
  by (simp add: probe_now_ms_def sat_simps)

lemma probe_now_ms_eq:
  "elapsed_ms (created c) now < 2 ^ 64 \<Longrightarrow>
   unat (probe_now_ms now c) = max (elapsed_ms (created c) now) 1"
  by (simp add: probe_now_ms_def sat_simps unsigned_of_nat take_bit_eq_mod)

lemma try_claim_probe_True:
  assumes "try_claim_probe interval now c = (True, c')"
  shows "c' = c\<lparr>last_probe_ms := probe_now_ms now c\<rparr>
    \<and> (interval = 0 \<or> last_probe_ms c = 0
       \<or> unat (last_probe_ms c) + unat interval \<le> unat (probe_now_ms now c))"
proof -
  have "interval \<le> sat_sub (probe_now_ms now c) (last_probe_ms c) \<Longrightarrow> interval \<noteq> 0 \<Longrightarrow>
      unat (last_probe_ms c) + unat interval \<le> unat (probe_now_ms now c)"
    using unat_gt_0 [of interval] by (auto simp: word_le_nat_alt sat_simps)
  then show ?thesis
    using assms by (auto simp: circuit_defs not_less split: if_splits)
qed

lemma try_claim_probe_False: "try_claim_probe interval now c = (False, c') \<Longrightarrow> c' = c"
  by (auto simp: circuit_defs split: if_splits)

text \<open>Recovery probes are paced: if a claim succeeds and, with no reset of the pacing in between,
  a later claim succeeds too, then at least the configured interval lies between them.\<close>

theorem probes_are_paced:
  assumes "interval \<noteq> 0"
    and "try_claim_probe interval t1 c = (True, c1)"
    and "created c2 = created c1" "last_probe_ms c2 = last_probe_ms c1"
    and "try_claim_probe interval t2 c2 = (True, c3)"
    and "elapsed_ms (created c) t1 < 2 ^ 64" "elapsed_ms (created c) t2 < 2 ^ 64"
  shows "elapsed_ms (created c) t1 + unat interval \<le> elapsed_ms (created c) t2"
proof -
  have c1: "c1 = c\<lparr>last_probe_ms := probe_now_ms t1 c\<rparr>"
    using try_claim_probe_True [OF assms(2)] by simp
  have l: "last_probe_ms c2 = probe_now_ms t1 c" and cr: "created c2 = created c"
    using assms(3,4) c1 by simp_all
  have "last_probe_ms c2 \<noteq> 0" using probe_now_ms_pos [of t1 c] l by auto
  then have "unat (probe_now_ms t1 c) + unat interval \<le> unat (probe_now_ms t2 c2)"
    using try_claim_probe_True [OF assms(5)] assms(1) l by auto
  moreover have "unat (probe_now_ms t1 c) = max (elapsed_ms (created c) t1) 1"
    using assms(6) by (rule probe_now_ms_eq)
  moreover have "unat (probe_now_ms t2 c2) = max (elapsed_ms (created c) t2) 1"
    using assms(7) cr by (simp add: probe_now_ms_eq)
  moreover have "0 < unat interval" using assms(1) by (simp add: unat_gt_0)
  ultimately show ?thesis by linarith
qed

theorem probes_are_paced_witness:
  "elapsed_ms 0 5000000 + unat (3 :: u64) \<le> elapsed_ms 0 9000000"
proof -
  let ?c = "default_circuit 0"
  have a: "try_claim_probe 3 5000000 ?c = (True, ?c\<lparr>last_probe_ms := 5\<rparr>)"
    by (simp add: circuit_defs default_circuit_def probe_now_ms_def elapsed_ms_def max_def word_le_nat_alt)
  have b: "try_claim_probe 3 9000000 (?c\<lparr>last_probe_ms := 5\<rparr>)
           = (True, ?c\<lparr>last_probe_ms := 9\<rparr>)"
    by (simp add: circuit_defs default_circuit_def probe_now_ms_def elapsed_ms_def max_def sat_sub_def
      word_le_nat_alt word_less_nat_alt)
  from probes_are_paced [OF _ a _ _ b] show ?thesis
    by (simp add: default_circuit_def elapsed_ms_def)
qed

text \<open>Of two concurrent claimants that loaded the same last probe time, at most one is admitted
  while gating is on, whichever exchanges first.\<close>

theorem concurrent_claims_admit_one:
  assumes "interval \<noteq> 0"
    and "claim_with_loaded interval t1 seen c = (True, c1)"
  shows "claim_with_loaded interval t2 seen c1 = (False, c1)"
proof -
  have c1: "c1 = c\<lparr>last_probe_ms := probe_now_ms t1 c\<rparr>" "last_probe_ms c = seen"
    and due: "seen = 0 \<or> \<not> sat_sub (probe_now_ms t1 c) seen < interval"
    using assms by (auto simp: circuit_defs split: if_splits)
  have "probe_now_ms t1 c \<noteq> seen"
  proof
    assume eq: "probe_now_ms t1 c = seen"
    then have "seen \<noteq> 0" using probe_now_ms_pos [of t1 c] by auto
    with due eq assms(1) show False by (auto simp: sat_sub_def word_less_nat_alt unat_gt_0)
  qed
  with c1 assms(1) show ?thesis by (simp add: circuit_defs)
qed

theorem concurrent_claims_admit_one_witness:
  "fst (claim_with_loaded 3 9000000 5 ((default_circuit 0)\<lparr>last_probe_ms := 9\<rparr>)) = False"
proof -
  have "claim_with_loaded 3 9000000 5 ((default_circuit 0)\<lparr>last_probe_ms := 5\<rparr>)
        = (True, (default_circuit 0)\<lparr>last_probe_ms := 9\<rparr>)"
    by (simp add: circuit_defs default_circuit_def probe_now_ms_def elapsed_ms_def max_def sat_sub_def
      word_le_nat_alt word_less_nat_alt)
  from concurrent_claims_admit_one [OF _ this] show ?thesis by simp
qed

section \<open>Admission\<close>

text \<open>
  What a routing client relies on: a peer filter that is read while candidates are compared, and
  a claim made when one of them is committed to. The claim never admits a peer the filter had
  rejected at the same instant, and a peer without a circuit is always admitted.
\<close>

locale dispatch_gate =
  fixes allow :: "'t \<Rightarrow> 'p \<Rightarrow> 's \<Rightarrow> bool"
    and claim :: "'t \<Rightarrow> 'p \<Rightarrow> 's \<Rightarrow> dispatch_decision \<times> 's"
    and known :: "'p \<Rightarrow> 's \<Rightarrow> bool"
  assumes claim_allowed: "fst (claim t p s) \<noteq> Deny \<Longrightarrow> allow t p s"
    and unknown_admitted: "\<not> known p s \<Longrightarrow> claim t p s = (Admit False, s)"
    and claim_known: "known q (snd (claim t p s)) \<longleftrightarrow> known q s"
begin

lemma blocked_denied: "\<not> allow t p s \<Longrightarrow> fst (claim t p s) = Deny"
  using claim_allowed by blast

lemma first_admitted:
  "p \<in> set ps \<Longrightarrow> \<not> known p s \<Longrightarrow> \<exists>q \<in> set ps. fst (claim t q s) \<noteq> Deny"
  by (rule bexI [of _ p]) (simp_all add: unknown_admitted)

end

interpretation gate: dispatch_gate
  "should_allow_sync cfg locked" "try_claim_dispatch_sync cfg locked" "\<lambda>p m. p \<in> set (hm_keys m)"
  for cfg locked
proof unfold_locales
  show "should_allow_sync cfg locked t p s"
    if "fst (try_claim_dispatch_sync cfg locked t p s) \<noteq> Deny" for t p s
    using that
    by (auto simp: should_allow_sync_def try_claim_dispatch_sync_def claim_circuit_def
        split: if_splits option.splits circuit_state.splits)
next
  show "try_claim_dispatch_sync cfg locked t p s = (Admit False, s)"
    if "p \<notin> set (hm_keys s)" for t p s
  proof -
    have "hm_get s p = None" using that by (simp add: map_of_eq_None_iff)
    then show ?thesis by (simp add: try_claim_dispatch_sync_def)
  qed
next
  show "(q \<in> set (hm_keys (snd (try_claim_dispatch_sync cfg locked t p s)))) = (q \<in> set (hm_keys s))"
    for q t p s
    by (auto simp: try_claim_dispatch_sync_def hm_simps split: option.splits prod.splits
        simp del: set_map dest!: map_of_SomeD) (force simp: image_iff)+
qed

text \<open>An open circuit whose backoff has not elapsed blocks its peer on every path: the routing
  filter rejects it, a dispatch claim is denied, and the asynchronous check denies it too, and none of
  them changes the circuit.\<close>

theorem open_circuit_blocks:
  assumes "cb_enabled cfg" "hm_get m peer = Some c" "cb_state c = Open" "\<not> backoff_elapsed cfg now c"
  shows "\<not> should_allow_sync cfg True now peer m
    \<and> try_claim_dispatch_sync cfg True now peer m = (Deny, m)
    \<and> should_allow cfg now peer m = (False, m)"
  using assms
  by (simp add: should_allow_sync_def try_claim_dispatch_sync_def should_allow_def claim_circuit_def
      allow_circuit_def entry_or_default_def update_triv)

theorem open_circuit_blocks_witness:
  "try_claim_dispatch_sync default_circuit_config True 4999999999 ''p''
     [(''p'', (default_circuit 0)\<lparr>cb_state := Open, consecutive_opens := 1\<rparr>)]
   = (Deny, [(''p'', (default_circuit 0)\<lparr>cb_state := Open, consecutive_opens := 1\<rparr>)])"
proof -
  let ?c = "(default_circuit 0)\<lparr>cb_state := Open, consecutive_opens := 1\<rparr>"
  have "\<not> backoff_elapsed default_circuit_config 4999999999 ?c"
    by (simp add: backoff_elapsed_def backoff_unat default_circuit_config_def default_circuit_def)
  from open_circuit_blocks [OF _ _ _ this, of "[(''p'', ?c)]" "''p''"] show ?thesis
    by (simp add: default_circuit_config_def)
qed

text \<open>Once the backoff of an open circuit has elapsed and no probe was claimed since it opened,
  the next dispatch claim is admitted and carries a recovery ticket: a blocked peer is always probed
  again.\<close>

theorem elapsed_circuit_is_probed:
  assumes "cb_enabled cfg" "hm_get m peer = Some c" "cb_state c = Open"
    and "backoff_elapsed cfg now c" "last_probe_ms c = 0"
  shows "fst (try_claim_dispatch_sync cfg True now peer m) = Admit True"
  using assms by (simp add: try_claim_dispatch_sync_def circuit_defs)

theorem elapsed_circuit_is_probed_witness:
  "fst (try_claim_dispatch_sync default_circuit_config True 5000000000 ''p''
     [(''p'', (default_circuit 0)\<lparr>cb_state := Open, consecutive_opens := 1\<rparr>)]) = Admit True"
proof -
  let ?c = "(default_circuit 0)\<lparr>cb_state := Open, consecutive_opens := 1\<rparr>"
  have "backoff_elapsed default_circuit_config 5000000000 ?c"
    by (simp add: backoff_elapsed_def backoff_unat default_circuit_config_def default_circuit_def)
  from elapsed_circuit_is_probed [OF _ _ _ this, of "[(''p'', ?c)]" "''p''"] show ?thesis
    by (simp add: default_circuit_config_def default_circuit_def)
qed

section \<open>Recording results\<close>



fun failures :: "circuit_config \<Rightarrow> instant list \<Rightarrow> peer_circuit \<Rightarrow> peer_circuit" where
  "failures cfg [] c = c"
| "failures cfg (t # ts) c = failures cfg ts (failure_circuit cfg t False c)"

lemma failure_closed_step:
  assumes "cb_state c = Closed" "failure_count c < failure_threshold cfg"
  shows "cb_state (failure_circuit cfg t b c)
      = (if Suc (unat (failure_count c)) < unat (failure_threshold cfg) then Closed else Open)
    \<and> unat (failure_count (failure_circuit cfg t b c)) = Suc (unat (failure_count c))"
  using assms unat_add_one_less [OF assms(2)]
  by (auto simp: circuit_defs word_le_nat_alt word_less_nat_alt)

lemma failures_open: "cb_state c = Open \<Longrightarrow> cb_state (failures cfg ts c) = Open"
  by (induction ts arbitrary: c) (auto simp: circuit_defs)

lemma failures_closed:
  assumes "cb_state c = Closed" "failure_count c < failure_threshold cfg"
  shows "cb_state (failures cfg ts c) =
    (if unat (failure_count c) + length ts < unat (failure_threshold cfg) then Closed else Open)"
  using assms
proof (induction ts arbitrary: c)
  case Nil
  then show ?case by (simp add: word_less_nat_alt)
next
  case (Cons t ts)
  note step = failure_closed_step [OF Cons.prems, of t False]
  show ?case
  proof (cases "Suc (unat (failure_count c)) < unat (failure_threshold cfg)")
    case True
    with step have "cb_state (failure_circuit cfg t False c) = Closed"
      and "failure_count (failure_circuit cfg t False c) < failure_threshold cfg"
      by (auto simp: word_less_nat_alt)
    from Cons.IH [OF this] step show ?thesis by simp
  next
    case False
    with step failures_open [of "failure_circuit cfg t False c"] show ?thesis by auto
  qed
qed

text \<open>Starting from a fresh (or just successful) closed circuit, consecutive failures open it at
  exactly the configured threshold: one failure fewer leaves it closed.\<close>

theorem opens_at_threshold:
  assumes "cb_state c = Closed" "failure_count c = 0" "0 < failure_threshold cfg"
  shows "cb_state (failures cfg ts c) =
    (if length ts < unat (failure_threshold cfg) then Closed else Open)"
  using failures_closed [of c cfg ts] assms by simp

theorem opens_at_threshold_witness:
  "cb_state (failures default_circuit_config [1,2,3,4] (default_circuit 0)) = Closed
   \<and> cb_state (failures default_circuit_config [1,2,3,4,5] (default_circuit 0)) = Open"
  using opens_at_threshold [of "default_circuit 0" default_circuit_config "[1,2,3,4]"]
    opens_at_threshold [of "default_circuit 0" default_circuit_config "[1,2,3,4,5]"]
  by (simp add: default_circuit_def default_circuit_config_def word_less_nat_alt)

fun probe_successes :: "circuit_config \<Rightarrow> instant list \<Rightarrow> peer_circuit \<Rightarrow> peer_circuit" where
  "probe_successes cfg [] c = c"
| "probe_successes cfg (t # ts) c = probe_successes cfg ts (snd (success_circuit cfg t True c))"

lemma success_half_open_step:
  assumes "cb_state c = HalfOpen" "success_count c < success_threshold cfg"
  shows "cb_state (snd (success_circuit cfg t True c))
      = (if Suc (unat (success_count c)) < unat (success_threshold cfg) then HalfOpen else Closed)
    \<and> (Suc (unat (success_count c)) < unat (success_threshold cfg) \<longrightarrow>
       unat (success_count (snd (success_circuit cfg t True c))) = Suc (unat (success_count c)))"
  using assms unat_add_one_less [OF assms(2)]
  by (auto simp: circuit_defs word_le_nat_alt word_less_nat_alt)

lemma probe_successes_closed:
  "cb_state c = Closed \<Longrightarrow> cb_state (probe_successes cfg ts c) = Closed"
  by (induction ts arbitrary: c) (auto simp: circuit_defs)

lemma probe_successes_half_open:
  assumes "cb_state c = HalfOpen" "success_count c < success_threshold cfg"
  shows "cb_state (probe_successes cfg ts c) =
    (if unat (success_count c) + length ts < unat (success_threshold cfg) then HalfOpen else Closed)"
  using assms
proof (induction ts arbitrary: c)
  case Nil
  then show ?case by (simp add: word_less_nat_alt)
next
  case (Cons t ts)
  note step = success_half_open_step [OF Cons.prems, of t]
  show ?case
  proof (cases "Suc (unat (success_count c)) < unat (success_threshold cfg)")
    case True
    with step have "cb_state (snd (success_circuit cfg t True c)) = HalfOpen"
      and "success_count (snd (success_circuit cfg t True c)) < success_threshold cfg"
      by (auto simp: word_less_nat_alt)
    from Cons.IH [OF this] step True show ?thesis by simp
  next
    case False
    with step probe_successes_closed [of "snd (success_circuit cfg t True c)"] show ?thesis by auto
  qed
qed

text \<open>An open circuit recovers after exactly the configured number of successful probes in a row:
  one fewer leaves it half-open, and the closing success resets failures, opens and probe pacing.\<close>

theorem recovers_at_threshold:
  assumes "cb_state c = Open" "0 < success_threshold cfg" "ts \<noteq> []"
  shows "cb_state (probe_successes cfg ts c) =
    (if length ts < unat (success_threshold cfg) then HalfOpen else Closed)"
proof -
  from assms(3) obtain t us where ts: "ts = t # us" by (cases ts) auto
  let ?c = "snd (success_circuit cfg t True c)"
  show ?thesis
  proof (cases "success_threshold cfg \<le> 1")
    case True
    then have "unat (success_threshold cfg) = 1"
      using assms(2) by (auto simp: word_le_nat_alt word_less_nat_alt)
    moreover have "cb_state ?c = Closed" using assms(1) True by (simp add: circuit_defs)
    ultimately show ?thesis using ts probe_successes_closed [of ?c cfg us] by simp
  next
    case False
    then have "cb_state ?c = HalfOpen" "success_count ?c = 1" "success_count ?c < success_threshold cfg"
      using assms(1) by (auto simp: circuit_defs)
    then show ?thesis using ts probe_successes_half_open [of ?c cfg us] by simp
  qed
qed

theorem recovers_at_threshold_witness:
  "cb_state (probe_successes default_circuit_config [1] ((default_circuit 0)\<lparr>cb_state := Open\<rparr>)) = HalfOpen
   \<and> cb_state (probe_successes default_circuit_config [1,2] ((default_circuit 0)\<lparr>cb_state := Open\<rparr>)) = Closed"
  using recovers_at_threshold [of "(default_circuit 0)\<lparr>cb_state := Open\<rparr>" default_circuit_config "[1]"]
    recovers_at_threshold [of "(default_circuit 0)\<lparr>cb_state := Open\<rparr>" default_circuit_config "[1,2]"]
  by (simp add: default_circuit_config_def word_less_nat_alt)

section \<open>The life of a circuit\<close>

text \<open>The operations that touch a circuit, as steps; the gate's claim runs under the read lock.\<close>

inductive circuit_step :: "circuit_config \<Rightarrow> peer_circuit \<Rightarrow> peer_circuit \<Rightarrow> bool" for cfg where
  allow_step: "circuit_step cfg c (snd (allow_circuit cfg now c))"
| claim_step: "circuit_step cfg c (snd (claim_circuit cfg now c))"
| success_step: "circuit_step cfg c (snd (success_circuit cfg now ticket c))"
| failure_step: "circuit_step cfg c (failure_circuit cfg now ticket c)"

inductive circuit_reachable :: "circuit_config \<Rightarrow> peer_circuit \<Rightarrow> bool" for cfg where
  fresh: "circuit_reachable cfg (default_circuit now)"
| stepped: "circuit_reachable cfg c \<Longrightarrow> circuit_step cfg c c' \<Longrightarrow> circuit_reachable cfg c'"

definition circuit_inv :: "circuit_config \<Rightarrow> peer_circuit \<Rightarrow> bool" where
  "circuit_inv cfg c \<longleftrightarrow>
     (cb_state c = Closed \<longrightarrow> failure_count c < failure_threshold cfg \<and> consecutive_opens c = 0)
   \<and> (cb_state c = HalfOpen \<longrightarrow> success_count c < success_threshold cfg)"

lemma same_probe [simp]: "\<exists>l. c = c\<lparr>last_probe_ms := l\<rparr>"
  by (rule exI [of _ "last_probe_ms c"]) simp

lemma claim_probe_frame:
  assumes "try_claim_probe i now c = (b, c')"
  shows "\<exists>l. c' = c\<lparr>last_probe_ms := l\<rparr>"
proof (cases b)
  case True
  then show ?thesis using try_claim_probe_True [of i now c c'] assms by auto
next
  case False
  then show ?thesis using try_claim_probe_False [of i now c c'] assms by simp
qed

lemma claim_circuit_frame: "\<exists>l. snd (claim_circuit cfg now c) = c\<lparr>last_probe_ms := l\<rparr>"
  by (cases "cb_state c"; cases "try_claim_probe (half_open_probe_interval_ms cfg) now c")
    (auto simp: claim_circuit_def split: bool.splits dest!: claim_probe_frame)

lemma allow_circuit_frame:
  "(\<exists>l. snd (allow_circuit cfg now c) = c\<lparr>last_probe_ms := l\<rparr>)
   \<or> (cb_state c = Open \<and> backoff_elapsed cfg now c \<and>
      (\<exists>l. snd (allow_circuit cfg now c)
         = c\<lparr>cb_state := HalfOpen, last_state_change := now, success_count := 0, last_probe_ms := l\<rparr>))"
proof -
  let ?h = "reset_probe (c\<lparr>cb_state := HalfOpen, last_state_change := now, success_count := 0\<rparr>)"
  obtain b c' where 1: "try_claim_probe (half_open_probe_interval_ms cfg) now c = (b, c')"
    by (cases "try_claim_probe (half_open_probe_interval_ms cfg) now c")
  obtain b2 c2 where 2: "try_claim_probe (half_open_probe_interval_ms cfg) now ?h = (b2, c2)"
    by (cases "try_claim_probe (half_open_probe_interval_ms cfg) now ?h")
  from claim_probe_frame [OF 1] claim_probe_frame [OF 2] show ?thesis
    using 1 2 by (cases "cb_state c") (auto simp: allow_circuit_def reset_probe_def)
qed

lemma circuit_step_inv:
  assumes "circuit_step cfg c c'" "circuit_inv cfg c" "0 < failure_threshold cfg" "0 < success_threshold cfg"
  shows "circuit_inv cfg c'"
  using assms
proof (induction rule: circuit_step.induct)
  case (allow_step c now)
  then show ?case using allow_circuit_frame [of cfg now c] by (auto simp: circuit_inv_def)
next
  case (claim_step c now)
  then show ?case using claim_circuit_frame [of cfg now c] by (auto simp: circuit_inv_def)
next
  case (success_step c now ticket)
  then show ?case by (cases "cb_state c") (auto simp: circuit_inv_def circuit_defs not_le)
next
  case (failure_step c now ticket)
  then show ?case by (cases "cb_state c") (auto simp: circuit_inv_def circuit_defs not_le)
qed

text \<open>In every reachable circuit (with positive thresholds), a closed circuit has seen fewer
  consecutive failures than the threshold and carries no backoff, and a half-open one has seen fewer
  successful probes than it needs to close.\<close>

theorem circuit_reachable_inv:
  assumes "circuit_reachable cfg c" "0 < failure_threshold cfg" "0 < success_threshold cfg"
  shows "circuit_inv cfg c"
  using assms
proof (induction rule: circuit_reachable.induct)
  case (fresh now)
  then show ?case by (simp add: circuit_inv_def default_circuit_def)
next
  case (stepped c c')
  then show ?case by (blast intro: circuit_step_inv)
qed

theorem circuit_reachable_inv_witness:
  "circuit_inv default_circuit_config (failure_circuit default_circuit_config 5 False (default_circuit 0))"
proof -
  have "circuit_reachable default_circuit_config
      (failure_circuit default_circuit_config 5 False (default_circuit 0))"
    by (rule circuit_reachable.stepped [OF circuit_reachable.fresh circuit_step.failure_step])
  from circuit_reachable_inv [OF this] show ?thesis
    by (simp add: default_circuit_config_def word_less_nat_alt)
qed

text \<open>The transitions of a circuit: a step leaves the closed state only by opening on a failure
  that reaches the threshold; it leaves the open state only when the backoff has elapsed or by a
  ticketed success; a half-open circuit closes on a ticketed success and reopens only on a ticketed
  failure, so a failure without a ticket leaves it half-open.\<close>

theorem circuit_transitions:
  "(\<forall>now. cb_state (snd (claim_circuit cfg now c)) = cb_state c)
   \<and> (\<forall>now. cb_state (snd (allow_circuit cfg now c)) \<noteq> cb_state c \<longrightarrow>
        cb_state c = Open \<and> backoff_elapsed cfg now c
        \<and> cb_state (snd (allow_circuit cfg now c)) = HalfOpen)
   \<and> (\<forall>now t. cb_state (snd (success_circuit cfg now t c)) \<noteq> cb_state c \<longrightarrow>
        t \<and> cb_state c \<noteq> Closed)
   \<and> (\<forall>now t. cb_state (failure_circuit cfg now t c) \<noteq> cb_state c \<longrightarrow>
        cb_state (failure_circuit cfg now t c) = Open
        \<and> (cb_state c = Closed \<and> failure_threshold cfg \<le> failure_count c + 1
           \<or> cb_state c = HalfOpen \<and> t))"
proof (intro conjI allI)
  fix now
  show "cb_state (snd (claim_circuit cfg now c)) = cb_state c"
    using claim_circuit_frame [of cfg now c] by auto
  show "cb_state (snd (allow_circuit cfg now c)) \<noteq> cb_state c \<longrightarrow>
      cb_state c = Open \<and> backoff_elapsed cfg now c
      \<and> cb_state (snd (allow_circuit cfg now c)) = HalfOpen"
    using allow_circuit_frame [of cfg now c] by auto
next
  fix now t
  show "cb_state (snd (success_circuit cfg now t c)) \<noteq> cb_state c \<longrightarrow> t \<and> cb_state c \<noteq> Closed"
    by (cases "cb_state c") (auto simp: circuit_defs)
  show "cb_state (failure_circuit cfg now t c) \<noteq> cb_state c \<longrightarrow>
      cb_state (failure_circuit cfg now t c) = Open
      \<and> (cb_state c = Closed \<and> failure_threshold cfg \<le> failure_count c + 1
         \<or> cb_state c = HalfOpen \<and> t)"
    by (cases "cb_state c") (auto simp: circuit_defs)
qed

theorem circuit_transitions_witness:
  "cb_state (failure_circuit default_circuit_config 3 True ((default_circuit 0)\<lparr>cb_state := HalfOpen\<rparr>)) = Open"
proof -
  have "cb_state (failure_circuit default_circuit_config 3 True ((default_circuit 0)\<lparr>cb_state := HalfOpen\<rparr>))
        \<noteq> HalfOpen"
    by (simp add: circuit_defs)
  then show ?thesis
    using circuit_transitions [of default_circuit_config "(default_circuit 0)\<lparr>cb_state := HalfOpen\<rparr>"]
    by auto
qed

section \<open>Forgetting circuits\<close>

lemma forget_keys_spec:
  "hm_get (snd (forget_keys ks n m)) k = (if k \<in> set ks then None else hm_get m k)
   \<and> fst (forget_keys ks n m) = n + card {k \<in> set ks. hm_get m k \<noteq> None}"
proof (induction ks arbitrary: n m)
  case (Cons a ks)
  show ?case
  proof (cases "hm_get m a")
    case None
    then have "{k. (k = a \<or> k \<in> set ks) \<and> (\<exists>y. hm_get m k = Some y)}
        = {k \<in> set ks. \<exists>y. hm_get m k = Some y}" by auto
    with None Cons.IH [of n m] show ?thesis by auto
  next
    case (Some c)
    let ?S = "{k \<in> set ks. hm_get (hm_remove a m) k \<noteq> None}"
    have "{k \<in> set (a # ks). hm_get m k \<noteq> None} = insert a ?S"
      using Some by (auto simp: hm_simps split: if_splits)
    moreover have "card (insert a ?S) = Suc (card ?S)"
      by (subst card_insert_disjoint) (auto simp: hm_simps)
    ultimately show ?thesis
      using Some Cons.IH [of "n + 1" "hm_remove a m"] by (simp add: hm_simps)
  qed
qed simp

text \<open>\<open>forget\<close> removes exactly the named circuits and returns how many of them existed, counting a
  key named twice once.\<close>

theorem forget_spec:
  "hm_get (snd (forget ks m)) k = (if k \<in> set ks then None else hm_get m k)
   \<and> fst (forget ks m) = card {k \<in> set ks. hm_get m k \<noteq> None}"
proof (cases "list_ex (\<lambda>k. hm_get m k \<noteq> None) ks")
  case True
  then show ?thesis using forget_keys_spec [of ks 0 m k] by (simp add: forget_def)
next
  case False
  then have "{k \<in> set ks. hm_get m k \<noteq> None} = {}" by (auto simp: list_ex_iff)
  with False show ?thesis by (auto simp: forget_def list_ex_iff)
qed

end
