(* ===== verification/Spawn_Reservations.thy ===== *)
theory Spawn_Reservations
  imports Guards
begin

text \<open>
  The in-flight spawn registry of \<^verbatim>\<open>src/node_state/spawn_reservations.rs\<close>: the entries with their
  revision counter, the process-memory token that owns an entry, and the admission guard of a spawn.
  Identifiers (ULIDs) are chosen by the caller of the model and fresh in every run.
\<close>

section \<open>The registry\<close>

record memory_commitment =
  mc_key :: string
  mc_pending :: bool
  mc_pid :: "u32 option"
  mc_estimate :: "u64 \<times> u64"
  mc_ready :: bool

text \<open>\<^verbatim>\<open>ReservationState\<close>; a \<^verbatim>\<open>ReservationSnapshot\<close> is a copy of it.\<close>

record reservation_state =
  entries :: "(string, memory_commitment) hashmap"
  revision :: u64

definition empty_reservations :: reservation_state where
  "empty_reservations = \<lparr>entries = [], revision = 0\<rparr>"

definition profile_count :: "string \<Rightarrow> reservation_state \<Rightarrow> nat" where
  "profile_count key s = length (filter (\<lambda>e. mc_pending e \<and> mc_key e = key) (hm_values (entries s)))"

definition node_total :: "reservation_state \<Rightarrow> nat" where
  "node_total s = length (filter mc_pending (hm_values (entries s)))"

definition snapshot :: "reservation_state \<Rightarrow> reservation_state" where
  "snapshot s = \<lparr>entries = entries s, revision = revision s\<rparr>"

definition with_revision :: "u64 \<Rightarrow> (unit \<Rightarrow> 'a) \<Rightarrow> reservation_state \<Rightarrow> 'a option" where
  "with_revision expected f s = (if revision s = expected then Some (f ()) else None)"

definition bump :: "reservation_state \<Rightarrow> reservation_state" where
  "bump s = s\<lparr>revision := revision s + 1\<rparr>"

definition reserve :: "string \<Rightarrow> string \<Rightarrow> u64 \<times> u64 \<Rightarrow> reservation_state \<Rightarrow> reservation_state" where
  "reserve rid key estimate s = bump (s\<lparr>entries := hm_insert rid
     \<lparr>mc_key = key, mc_pending = True, mc_pid = None, mc_estimate = estimate, mc_ready = False\<rparr>
     (entries s)\<rparr>)"

definition mark_handed_off :: "string \<Rightarrow> reservation_state \<Rightarrow> reservation_state" where
  "mark_handed_off rid s = (case hm_get (entries s) rid of
     Some e \<Rightarrow>
       (if mc_pending e
        then bump (s\<lparr>entries := hm_insert rid (e\<lparr>mc_pending := False\<rparr>) (entries s)\<rparr>) else s)
   | None \<Rightarrow> s)"

definition update_pid :: "string \<Rightarrow> u32 \<Rightarrow> reservation_state \<Rightarrow> reservation_state" where
  "update_pid rid pid s = (case hm_get (entries s) rid of
     Some e \<Rightarrow>
       (if mc_pid e \<noteq> Some pid
        then bump (s\<lparr>entries := hm_insert rid (e\<lparr>mc_pid := Some pid\<rparr>) (entries s)\<rparr>) else s)
   | None \<Rightarrow> s)"

definition mark_ready :: "string \<Rightarrow> reservation_state \<Rightarrow> reservation_state" where
  "mark_ready rid s = (case hm_get (entries s) rid of
     Some e \<Rightarrow>
       (if \<not> mc_ready e
        then bump (s\<lparr>entries := hm_insert rid (e\<lparr>mc_ready := True\<rparr>) (entries s)\<rparr>) else s)
   | None \<Rightarrow> s)"

definition release_memory :: "string \<Rightarrow> reservation_state \<Rightarrow> reservation_state" where
  "release_memory rid s = (case hm_get (entries s) rid of
     Some _ \<Rightarrow> bump (s\<lparr>entries := hm_remove rid (entries s)\<rparr>)
   | None \<Rightarrow> s)"

lemmas registry_defs = reserve_def mark_handed_off_def update_pid_def mark_ready_def
  release_memory_def bump_def

section \<open>Tokens and guards\<close>

text \<open>
  \<^verbatim>\<open>MemoryReservation\<close>: \<open>released\<close> is the value of the watch channel \<^verbatim>\<open>wait_released\<close> awaits, and
  \<open>on_abandon\<close> says whether the abandonment callback is still armed.
\<close>

record memory_reservation =
  mr_id :: string
  finished :: bool
  released :: bool
  on_abandon :: bool

definition set_pid :: "memory_reservation \<Rightarrow> u32 \<Rightarrow> reservation_state \<Rightarrow> reservation_state" where
  "set_pid t pid s = (if \<not> finished t then update_pid (mr_id t) pid s else s)"

definition token_mark_ready :: "memory_reservation \<Rightarrow> reservation_state \<Rightarrow> reservation_state" where
  "token_mark_ready t s = (if \<not> finished t then mark_ready (mr_id t) s else s)"

text \<open>
  \<open>finish\<close> on the token and the registry; the log collects the runs of abandonment callbacks,
  each with the registry its callback sees.
\<close>

type_synonym callback_log = "(string \<times> reservation_state) list"

definition finish ::
  "memory_reservation \<Rightarrow> reservation_state \<times> callback_log \<Rightarrow>
   memory_reservation \<times> (reservation_state \<times> callback_log)" where
  "finish t sl = (if finished t then (t, sl)
     else let s' = release_memory (mr_id t) (fst sl) in
       (t\<lparr>finished := True, released := True, on_abandon := False\<rparr>,
        (s', if on_abandon t then (mr_id t, s') # snd sl else snd sl)))"

interpretation memory_guard: once_guard finished finish
  by unfold_locales (simp_all add: finish_def Let_def)

text \<open>
  \<^verbatim>\<open>SpawnReservation::handoff\<close>: \<open>handed_off\<close> is the guard's own flag. The callback is cleared
  before the registry entry stops being pending.
\<close>

definition guard_handoff ::
  "bool \<Rightarrow> memory_reservation \<Rightarrow> reservation_state \<Rightarrow> bool \<times> memory_reservation \<times> reservation_state" where
  "guard_handoff handed_off t s =
     (if handed_off then (handed_off, t, s)
      else (True, t\<lparr>on_abandon := False\<rparr>, mark_handed_off (mr_id t) s))"

section \<open>Invariants of the registry operations\<close>

lemma registry_keys_ok:
  "hm_ok (entries s) \<Longrightarrow> hm_ok (entries (reserve rid key est s))"
  "hm_ok (entries s) \<Longrightarrow> hm_ok (entries (mark_handed_off rid s))"
  "hm_ok (entries s) \<Longrightarrow> hm_ok (entries (update_pid rid pid s))"
  "hm_ok (entries s) \<Longrightarrow> hm_ok (entries (mark_ready rid s))"
  "hm_ok (entries s) \<Longrightarrow> hm_ok (entries (release_memory rid s))"
  by (simp_all add: registry_defs hm_simps split: option.splits)

lemma registry_dom:
  "set (hm_keys (entries (reserve rid key est s))) = insert rid (set (hm_keys (entries s)))"
  "set (hm_keys (entries (mark_handed_off rid s))) = set (hm_keys (entries s))"
  "set (hm_keys (entries (update_pid rid pid s))) = set (hm_keys (entries s))"
  "set (hm_keys (entries (mark_ready rid s))) = set (hm_keys (entries s))"
  "set (hm_keys (entries (release_memory rid s))) = set (hm_keys (entries s)) - {rid}"
proof -
  have in_keys: "hm_get m i = Some e \<Longrightarrow> i \<in> set (hm_keys m)" for m :: "(string, memory_commitment) hashmap" and i e
    by (force dest: map_of_SomeD)
  have not_in: "hm_get m i = None \<Longrightarrow> i \<notin> set (hm_keys m)" for m :: "(string, memory_commitment) hashmap" and i
    by (auto simp: map_of_eq_None_iff)
  show "set (hm_keys (entries (reserve rid key est s))) = insert rid (set (hm_keys (entries s)))"
    by (simp add: registry_defs hm_simps del: set_map)
  show "set (hm_keys (entries (mark_handed_off rid s))) = set (hm_keys (entries s))"
    "set (hm_keys (entries (update_pid rid pid s))) = set (hm_keys (entries s))"
    "set (hm_keys (entries (mark_ready rid s))) = set (hm_keys (entries s))"
    using in_keys
    by (auto simp: registry_defs hm_simps insert_absorb simp del: set_map split: option.splits)
  show "set (hm_keys (entries (release_memory rid s))) = set (hm_keys (entries s)) - {rid}"
    using not_in by (auto simp: registry_defs hm_simps simp del: set_map split: option.splits)
qed

section \<open>Admission counts refine a bag of pending keys\<close>

text \<open>
  The abstract registry is the bag of \<^verbatim>\<open>model:profile\<close> keys of the spawns still pending
  admission. Reserving adds a key, handing off or releasing a pending spawn takes its key out,
  and nothing else changes the bag.
\<close>

definition pending_keys :: "reservation_state \<Rightarrow> string multiset" where
  "pending_keys s = image_mset (mc_key \<circ> snd) (filter_mset (mc_pending \<circ> snd) (mset (entries s)))"

definition pending_of :: "string \<Rightarrow> reservation_state \<Rightarrow> string multiset" where
  "pending_of rid s = (case hm_get (entries s) rid of
     Some e \<Rightarrow> if mc_pending e then {#mc_key e#} else {#} | None \<Rightarrow> {#})"

lemma profile_count_pending: "profile_count key s = count (pending_keys s) key"
proof -
  have "length (filter (\<lambda>e. mc_pending e \<and> mc_key e = key) (hm_values m))
      = count (image_mset (mc_key \<circ> snd) (filter_mset (mc_pending \<circ> snd) (mset m))) key"
    for m :: "(string, memory_commitment) hashmap"
    by (induction m) auto
  then show ?thesis by (simp add: profile_count_def pending_keys_def)
qed

lemma node_total_pending: "node_total s = size (pending_keys s)"
proof -
  have "length (filter mc_pending (hm_values m))
      = size (image_mset (mc_key \<circ> snd) (filter_mset (mc_pending \<circ> snd) (mset m)))"
    for m :: "(string, memory_commitment) hashmap"
    by (induction m) auto
  then show ?thesis by (simp add: node_total_def pending_keys_def)
qed

lemma pending_keys_split:
  "hm_ok (entries s) \<Longrightarrow> hm_get (entries s) rid = Some e \<Longrightarrow>
   pending_keys s = pending_of rid s
     + image_mset (mc_key \<circ> snd) (filter_mset (mc_pending \<circ> snd) (mset (hm_remove rid (entries s))))"
  by (simp add: pending_keys_def pending_of_def mset_hm_remove)

lemma pending_reserve:
  "hm_ok (entries s) \<Longrightarrow> hm_get (entries s) rid = None \<Longrightarrow>
   pending_keys (reserve rid key est s) = add_mset key (pending_keys s)"
  by (simp add: registry_defs pending_keys_def mset_hm_insert hm_remove_absent)

lemma pending_bag:
  assumes "hm_ok (entries s)"
  shows "pending_keys (mark_handed_off rid s) = pending_keys s - pending_of rid s"
    and "pending_keys (release_memory rid s) = pending_keys s - pending_of rid s"
    and "pending_keys (update_pid rid pid s) = pending_keys s"
    and "pending_keys (mark_ready rid s) = pending_keys s"
proof -
  have "pending_keys (mark_handed_off rid s) = pending_keys s - pending_of rid s
    \<and> pending_keys (release_memory rid s) = pending_keys s - pending_of rid s
    \<and> pending_keys (update_pid rid pid s) = pending_keys s
    \<and> pending_keys (mark_ready rid s) = pending_keys s"
  proof (cases "hm_get (entries s) rid")
    case None
    then show ?thesis using assms by (simp add: registry_defs pending_of_def)
  next
    case (Some e)
    note split = pending_keys_split [OF assms Some]
    have upd: "pending_keys (s\<lparr>entries := hm_insert rid e' (entries s), revision := r\<rparr>)
        = (if mc_pending e' then {#mc_key e'#} else {#})
          + image_mset (mc_key \<circ> snd) (filter_mset (mc_pending \<circ> snd) (mset (hm_remove rid (entries s))))"
      for e' r
      using assms by (simp add: pending_keys_def mset_hm_insert)
    have del: "pending_keys (s\<lparr>entries := hm_remove rid (entries s), revision := r\<rparr>)
        = image_mset (mc_key \<circ> snd) (filter_mset (mc_pending \<circ> snd) (mset (hm_remove rid (entries s))))" for r
      by (simp add: pending_keys_def)
    show ?thesis using Some split by (auto simp: registry_defs upd del pending_of_def)
  qed
  then show "pending_keys (mark_handed_off rid s) = pending_keys s - pending_of rid s"
    "pending_keys (release_memory rid s) = pending_keys s - pending_of rid s"
    "pending_keys (update_pid rid pid s) = pending_keys s"
    "pending_keys (mark_ready rid s) = pending_keys s" by blast+
qed

text \<open>C19. The registry implements its contract: on the bag of pending keys, \<open>reserve\<close> with a fresh
  identifier adds the key, \<open>mark_handed_off\<close> and \<open>release_memory\<close> remove the entry's key if it is still
  pending, and the process and readiness updates change nothing; \<open>profile_count\<close> and \<open>node_total\<close> are the
  multiplicity and the size of that bag.\<close>

theorem registry_refines_pending_bag:
  assumes "hm_ok (entries s)"
  shows "(hm_get (entries s) rid = None \<longrightarrow>
      pending_keys (reserve rid key est s) = add_mset key (pending_keys s))
    \<and> pending_keys (mark_handed_off rid s) = pending_keys s - pending_of rid s
    \<and> pending_keys (release_memory rid s) = pending_keys s - pending_of rid s
    \<and> pending_keys (update_pid rid pid s) = pending_keys s
    \<and> pending_keys (mark_ready rid s) = pending_keys s
    \<and> profile_count key s = count (pending_keys s) key
    \<and> node_total s = size (pending_keys s)"
  by (simp add: pending_bag [OF assms] pending_reserve [OF assms] profile_count_pending node_total_pending)

theorem registry_refines_pending_bag_witness:
  "profile_count ''m:p'' (reserve ''a'' ''m:p'' (400, 800) empty_reservations) = 1"
proof -
  let ?s = "reserve ''a'' ''m:p'' (400, 800) empty_reservations"
  have ok: "hm_ok (entries empty_reservations)" by (simp add: empty_reservations_def)
  have "pending_keys ?s = add_mset ''m:p'' (pending_keys empty_reservations)"
    using registry_refines_pending_bag [OF ok, of "''a''" "''m:p''" "(400, 800)"]
    by (simp add: empty_reservations_def)
  moreover have "profile_count ''m:p'' ?s = count (pending_keys ?s) ''m:p''"
    using registry_refines_pending_bag [OF registry_keys_ok(1) [OF ok]] by blast
  ultimately show ?thesis by (simp add: pending_keys_def empty_reservations_def)
qed

section \<open>The revision detects every change\<close>

datatype registry_op =
    OpReserve string string "u64 \<times> u64"
  | OpHandOff string
  | OpPid string u32
  | OpReady string
  | OpRelease string

fun apply_op :: "registry_op \<Rightarrow> reservation_state \<Rightarrow> reservation_state" where
  "apply_op (OpReserve i k est) s = reserve i k est s"
| "apply_op (OpHandOff i) s = mark_handed_off i s"
| "apply_op (OpPid i pid) s = update_pid i pid s"
| "apply_op (OpReady i) s = mark_ready i s"
| "apply_op (OpRelease i) s = release_memory i s"

fun apply_ops :: "registry_op list \<Rightarrow> reservation_state \<Rightarrow> reservation_state" where
  "apply_ops [] s = s"
| "apply_ops (p # ps) s = apply_ops ps (apply_op p s)"

text \<open>How many operations of a sequence change the registry at all.\<close>

fun changes :: "registry_op list \<Rightarrow> reservation_state \<Rightarrow> nat" where
  "changes [] s = 0"
| "changes (p # ps) s = (if apply_op p s = s then 0 else 1) + changes ps (apply_op p s)"

lemma bump_neq: "bump t \<noteq> (s :: reservation_state)" if "revision t = revision s"
proof
  assume "bump t = s"
  then have "revision (bump t) = revision s" by simp
  with that show False by (simp add: bump_def)
qed

lemma revision_bump: "revision (bump s) = revision s + 1"
  by (simp add: bump_def)

lemma apply_op_revision:
  "revision (apply_op p s) = (if apply_op p s = s then revision s else revision s + 1)"
  using bump_neq
  by (cases p)
    (auto simp: reserve_def mark_handed_off_def update_pid_def mark_ready_def release_memory_def
      revision_bump split: option.splits)

lemma apply_ops_revision: "revision (apply_ops ps s) = revision s + of_nat (changes ps s)"
proof (induction ps arbitrary: s)
  case (Cons p ps)
  show ?case using Cons.IH [of "apply_op p s"] apply_op_revision [of p s] by simp
qed simp

lemma changes_le: "changes ps s \<le> length ps"
proof (induction ps arbitrary: s)
  case (Cons p ps)
  from Cons.IH [of "apply_op p s"] Cons.IH [of s] show ?case by auto
qed simp

lemma changes_0: "changes ps s = 0 \<Longrightarrow> apply_ops ps s = s"
proof (induction ps arbitrary: s)
  case (Cons p ps)
  then show ?case by (auto split: if_splits)
qed simp

text \<open>C7. A commit guarded by \<open>with_revision\<close> runs only on the accounting it was planned with: if fewer
  than two to the 64 registry operations happened since the snapshot and the guarded closure runs, then
  none of them changed anything and the registry still equals the snapshot.\<close>

theorem with_revision_commits_on_snapshot:
  assumes "length ops < 2 ^ 64"
    and "with_revision (revision (snapshot s)) f (apply_ops ops s) = Some x"
  shows "apply_ops ops s = s \<and> snapshot (apply_ops ops s) = snapshot s \<and> x = f ()"
proof -
  from assms(2) have rev: "revision (apply_ops ops s) = revision s" and x: "x = f ()"
    by (auto simp: with_revision_def snapshot_def split: if_splits)
  then have "(of_nat (changes ops s) :: u64) = 0" by (simp add: apply_ops_revision)
  then have "changes ops s mod 2 ^ 64 = 0"
    by (simp add: of_nat_eq_0_iff word_of_nat_eq_0_iff dvd_eq_mod_eq_0)
  moreover have "changes ops s < 2 ^ 64" using changes_le assms(1) by (rule le_less_trans)
  ultimately have "changes ops s = 0" by simp
  then show ?thesis using x changes_0 by simp
qed

theorem with_revision_commits_on_snapshot_witness:
  "apply_ops [OpReady ''gone''] empty_reservations = empty_reservations"
proof -
  have "with_revision (revision (snapshot empty_reservations)) (\<lambda>_. True)
      (apply_ops [OpReady ''gone''] empty_reservations) = Some True"
    by (simp add: with_revision_def snapshot_def empty_reservations_def mark_ready_def)
  from with_revision_commits_on_snapshot [OF _ this] show ?thesis by simp
qed

section \<open>Ownership of the commitments\<close>

text \<open>
  The \<^verbatim>\<open>Arc\<close>s to one token: how many owners it has, whether the admission guard is among them, and
  the guard's \<open>handed_off\<close> flag (kept after the guard is gone). Each method call is one step.
\<close>

record token_cell =
  tc_token :: memory_reservation
  tc_owners :: nat
  tc_guarded :: bool
  tc_handed_off :: bool

record token_world =
  tw_registry :: reservation_state
  tw_log :: callback_log
  tw_cells :: "string \<rightharpoonup> token_cell"

definition empty_world :: token_world where
  "empty_world = \<lparr>tw_registry = empty_reservations, tw_log = [], tw_cells = Map.empty\<rparr>"

definition new_cell :: "string \<Rightarrow> bool \<Rightarrow> token_cell" where
  "new_cell rid callback =
     \<lparr>tc_token = \<lparr>mr_id = rid, finished = False, released = False, on_abandon = callback\<rparr>,
      tc_owners = 1, tc_guarded = True, tc_handed_off = False\<rparr>"

definition world_finish :: "string \<Rightarrow> token_cell \<Rightarrow> token_world \<Rightarrow> token_world" where
  "world_finish rid c w = (let (t, s, l) = finish (tc_token c) (tw_registry w, tw_log w) in
     \<lparr>tw_registry = s, tw_log = l, tw_cells = (tw_cells w)(rid \<mapsto> c\<lparr>tc_token := t\<rparr>)\<rparr>)"

text \<open>Dropping one \<^verbatim>\<open>Arc\<close>: the last owner runs \<^verbatim>\<open>Drop for MemoryReservation\<close>.\<close>

definition drop_owner :: "string \<Rightarrow> token_cell \<Rightarrow> token_world \<Rightarrow> token_world" where
  "drop_owner rid c w = (let c' = c\<lparr>tc_owners := tc_owners c - 1\<rparr> in
     if tc_owners c' = 0 then world_finish rid c' w
     else w\<lparr>tw_cells := (tw_cells w)(rid \<mapsto> c')\<rparr>)"

inductive token_step :: "token_world \<Rightarrow> token_world \<Rightarrow> bool" where
  step_reserve: "tw_cells w rid = None \<Longrightarrow>
     token_step w (w\<lparr>tw_registry := reserve rid key est (tw_registry w),
                     tw_cells := (tw_cells w)(rid \<mapsto> new_cell rid callback)\<rparr>)"
| step_memory: "tw_cells w rid = Some c \<Longrightarrow> 0 < tc_owners c \<Longrightarrow>
     token_step w (w\<lparr>tw_cells := (tw_cells w)(rid \<mapsto> c\<lparr>tc_owners := tc_owners c + 1\<rparr>)\<rparr>)"
| step_set_pid: "tw_cells w rid = Some c \<Longrightarrow> 0 < tc_owners c \<Longrightarrow>
     token_step w (w\<lparr>tw_registry := set_pid (tc_token c) pid (tw_registry w)\<rparr>)"
| step_mark_ready: "tw_cells w rid = Some c \<Longrightarrow> 0 < tc_owners c \<Longrightarrow>
     token_step w (w\<lparr>tw_registry := token_mark_ready (tc_token c) (tw_registry w)\<rparr>)"
| step_finish: "tw_cells w rid = Some c \<Longrightarrow> 0 < tc_owners c \<Longrightarrow>
     token_step w (world_finish rid c w)"
| step_handoff: "tw_cells w rid = Some c \<Longrightarrow> tc_guarded c \<Longrightarrow>
     guard_handoff (tc_handed_off c) (tc_token c) (tw_registry w) = (h, t, s) \<Longrightarrow>
     token_step w (w\<lparr>tw_registry := s,
       tw_cells := (tw_cells w)(rid \<mapsto> c\<lparr>tc_token := t, tc_handed_off := h\<rparr>)\<rparr>)"
| step_drop_guard: "tw_cells w rid = Some c \<Longrightarrow> tc_guarded c \<Longrightarrow>
     token_step w (drop_owner rid (c\<lparr>tc_guarded := False\<rparr>) w)"
| step_drop_memory: "tw_cells w rid = Some c \<Longrightarrow> (if tc_guarded c then 1 else 0) < tc_owners c \<Longrightarrow>
     token_step w (drop_owner rid c w)"

inductive_cases token_stepE: "token_step w w'"

abbreviation token_reachable :: "token_world \<Rightarrow> bool" where
  "token_reachable w \<equiv> token_step\<^sup>*\<^sup>* empty_world w"

definition cell_ok :: "string \<Rightarrow> token_cell \<Rightarrow> bool" where
  "cell_ok rid c \<longleftrightarrow> mr_id (tc_token c) = rid
     \<and> released (tc_token c) = finished (tc_token c)
     \<and> (finished (tc_token c) \<longrightarrow> \<not> on_abandon (tc_token c))
     \<and> (tc_owners c = 0 \<longrightarrow> finished (tc_token c))
     \<and> (tc_guarded c \<longrightarrow> 0 < tc_owners c)
     \<and> (tc_handed_off c \<longrightarrow> \<not> on_abandon (tc_token c))"

definition live_ids :: "token_world \<Rightarrow> string set" where
  "live_ids w = {rid. \<exists>c. tw_cells w rid = Some c \<and> \<not> finished (tc_token c)}"

definition log_ok :: "token_world \<Rightarrow> bool" where
  "log_ok w \<longleftrightarrow> distinct (map fst (tw_log w))
     \<and> (\<forall>(rid, s) \<in> set (tw_log w). hm_get (entries s) rid = None
          \<and> (\<exists>c. tw_cells w rid = Some c \<and> finished (tc_token c)))"

definition world_ok :: "token_world \<Rightarrow> bool" where
  "world_ok w \<longleftrightarrow> hm_ok (entries (tw_registry w))
     \<and> set (hm_keys (entries (tw_registry w))) = live_ids w
     \<and> (\<forall>rid c. tw_cells w rid = Some c \<longrightarrow> cell_ok rid c)
     \<and> log_ok w"

lemma world_ok_cell: "world_ok w \<Longrightarrow> tw_cells w rid = Some c \<Longrightarrow> cell_ok rid c"
  by (simp add: world_ok_def)

text \<open>Steps that leave the finished flag of every token alone.\<close>

lemma world_ok_keep:
  assumes ok: "world_ok w" and c: "tw_cells w rid = Some c" and ok': "cell_ok rid c'"
    and fin: "finished (tc_token c') = finished (tc_token c)"
    and reg: "hm_ok (entries s)"
      "set (hm_keys (entries s)) = set (hm_keys (entries (tw_registry w)))"
  shows "world_ok (w\<lparr>tw_registry := s, tw_cells := (tw_cells w)(rid \<mapsto> c')\<rparr>)"
proof -
  have "live_ids (w\<lparr>tw_registry := s, tw_cells := (tw_cells w)(rid \<mapsto> c')\<rparr>) = live_ids w"
    using c fin by (auto simp: live_ids_def)
  moreover have "log_ok (w\<lparr>tw_registry := s, tw_cells := (tw_cells w)(rid \<mapsto> c')\<rparr>)"
    using ok c fin by (fastforce simp: world_ok_def log_ok_def)
  ultimately show ?thesis using ok ok' reg by (simp add: world_ok_def)
qed

lemma world_ok_keep_registry:
  assumes "world_ok w" "tw_cells w rid = Some c" "hm_ok (entries s)"
    "set (hm_keys (entries s)) = set (hm_keys (entries (tw_registry w)))"
  shows "world_ok (w\<lparr>tw_registry := s\<rparr>)"
  using world_ok_keep [OF assms(1,2) world_ok_cell [OF assms(1,2)] refl assms(3,4)] assms(2)
  by (simp add: fun_upd_idem)

text \<open>Finishing a token removes its entry and runs an armed callback on the registry without it.\<close>

lemma world_ok_finish:
  assumes ok: "world_ok w" and c: "tw_cells w rid = Some c0" "tc_token c = tc_token c0"
    and g: "tc_guarded c \<longrightarrow> 0 < tc_owners c" "tc_handed_off c = tc_handed_off c0"
  shows "world_ok (world_finish rid c w)"
proof (cases "finished (tc_token c)")
  case True
  then have eq: "world_finish rid c w = w\<lparr>tw_registry := tw_registry w, tw_cells := (tw_cells w)(rid \<mapsto> c)\<rparr>"
    by (simp add: world_finish_def finish_def)
  have "cell_ok rid c" using True world_ok_cell [OF ok c(1)] c(2) g by (auto simp: cell_ok_def)
  then show ?thesis unfolding eq
    using ok c by (intro world_ok_keep [OF ok c(1)]) (auto simp: world_ok_def)
next
  case False
  let ?s = "release_memory rid (tw_registry w)"
  have rid: "mr_id (tc_token c) = rid" and cell: "cell_ok rid c0"
    using world_ok_cell [OF ok c(1)] c(2) by (auto simp: cell_ok_def)
  have keys: "set (hm_keys (entries ?s)) = live_ids w - {rid}"
    using ok registry_dom(5) by (auto simp: world_ok_def)
  then have gone: "hm_get (entries ?s) rid = None" by (auto simp: map_of_eq_None_iff)
  have unlogged: "rid \<notin> fst ` set (tw_log w)"
    using ok c False by (fastforce simp: world_ok_def log_ok_def)
  let ?t = "tc_token c\<lparr>finished := True, released := True, on_abandon := False\<rparr>"
  have eq: "world_finish rid c w = \<lparr>tw_registry = ?s,
      tw_log = (if on_abandon (tc_token c) then (rid, ?s) # tw_log w else tw_log w),
      tw_cells = (tw_cells w)(rid \<mapsto> c\<lparr>tc_token := ?t\<rparr>)\<rparr>"
    using False rid by (simp add: world_finish_def finish_def Let_def)
  have "live_ids (world_finish rid c w) = live_ids w - {rid}"
    by (auto simp: eq live_ids_def)
  moreover have "log_ok (world_finish rid c w)"
    using ok gone unlogged by (fastforce simp: eq world_ok_def log_ok_def)
  moreover have "\<forall>i d. tw_cells (world_finish rid c w) i = Some d \<longrightarrow> cell_ok i d"
    using ok g rid by (auto simp: eq world_ok_def cell_ok_def)
  ultimately show ?thesis
    using ok keys registry_keys_ok(5) by (simp add: world_ok_def eq)
qed

lemma world_ok_drop:
  assumes ok: "world_ok w" and c: "tw_cells w rid = Some c0" "tc_token c = tc_token c0"
    and g: "tc_guarded c \<longrightarrow> 1 < tc_owners c" "tc_handed_off c = tc_handed_off c0"
  shows "world_ok (drop_owner rid c w)"
proof (cases "tc_owners c - 1 = 0")
  case True
  then show ?thesis
    using g c by (auto simp: drop_owner_def Let_def intro!: world_ok_finish [OF ok c(1)])
next
  case False
  let ?c = "c\<lparr>tc_owners := tc_owners c - 1\<rparr>"
  have "cell_ok rid ?c" using False world_ok_cell [OF ok c(1)] c(2) g by (auto simp: cell_ok_def)
  from world_ok_keep [OF ok c(1) this, of "tw_registry w"] False ok c(2) show ?thesis
    by (simp add: drop_owner_def Let_def world_ok_def)
qed

lemma world_ok_step: "token_step w w' \<Longrightarrow> world_ok w \<Longrightarrow> world_ok w'"
proof (induction rule: token_step.induct)
  case (step_reserve w rid callback key est)
  let ?w = "w\<lparr>tw_registry := reserve rid key est (tw_registry w),
              tw_cells := (tw_cells w)(rid \<mapsto> new_cell rid callback)\<rparr>"
  have "live_ids ?w = insert rid (live_ids w)" by (auto simp: live_ids_def new_cell_def)
  moreover have "log_ok ?w" using step_reserve by (fastforce simp: world_ok_def log_ok_def)
  moreover have "cell_ok rid (new_cell rid callback)" by (simp add: cell_ok_def new_cell_def)
  ultimately show ?case
    using step_reserve registry_keys_ok(1) registry_dom(1) by (simp add: world_ok_def)
next
  case (step_memory w rid c)
  have "cell_ok rid (c\<lparr>tc_owners := tc_owners c + 1\<rparr>)"
    using world_ok_cell step_memory by (fastforce simp: cell_ok_def)
  from world_ok_keep [OF step_memory(3,1) this, of "tw_registry w"] step_memory(3) show ?case
    by (simp add: world_ok_def)
next
  case (step_set_pid w rid c pid)
  then show ?case
    by (intro world_ok_keep_registry [OF step_set_pid(3,1)])
      (simp_all add: set_pid_def registry_keys_ok registry_dom world_ok_def del: set_map)
next
  case (step_mark_ready w rid c)
  then show ?case
    by (intro world_ok_keep_registry [OF step_mark_ready(3,1)])
      (simp_all add: token_mark_ready_def registry_keys_ok registry_dom world_ok_def del: set_map)
next
  case (step_finish w rid c)
  then show ?case
    using world_ok_cell [OF step_finish(3,1)]
    by (intro world_ok_finish [OF step_finish(3,1)]) (auto simp: cell_ok_def)
next
  case (step_handoff w rid c h t s)
  have "cell_ok rid (c\<lparr>tc_token := t, tc_handed_off := h\<rparr>)" "finished t = finished (tc_token c)"
    using step_handoff(3) world_ok_cell [OF step_handoff(4,1)]
    by (auto simp: guard_handoff_def cell_ok_def split: if_splits)
  then show ?case
    using step_handoff(3,4)
    by (intro world_ok_keep [OF step_handoff(4,1)])
      (auto simp: guard_handoff_def world_ok_def registry_keys_ok registry_dom simp del: set_map
        split: if_splits)
next
  case (step_drop_guard w rid c)
  then show ?case by (intro world_ok_drop [OF step_drop_guard(3,1)]) auto
next
  case (step_drop_memory w rid c)
  then show ?case by (intro world_ok_drop [OF step_drop_memory(3,1)]) auto
qed

lemma world_ok_reachable: "token_reachable w \<Longrightarrow> world_ok w"
proof (induction rule: rtranclp_induct)
  case base
  show ?case
    by (simp add: empty_world_def world_ok_def empty_reservations_def live_ids_def log_ok_def)
next
  case (step w w')
  then show ?case by (blast intro: world_ok_step)
qed

text \<open>C10. No commitment leaks and none is lost: in every reachable state the registry holds exactly one
  entry for each token that is not finished, every such token still has an owner, and once every
  owner has dropped its reference the registry is empty.\<close>

theorem commitments_are_owned:
  assumes "token_reachable w"
  shows "hm_ok (entries (tw_registry w))
    \<and> (\<forall>rid. rid \<in> set (hm_keys (entries (tw_registry w))) \<longleftrightarrow>
         (\<exists>c. tw_cells w rid = Some c \<and> \<not> finished (tc_token c) \<and> 0 < tc_owners c))
    \<and> ((\<forall>c \<in> ran (tw_cells w). tc_owners c = 0) \<longrightarrow> entries (tw_registry w) = [])"
proof -
  have ok: "world_ok w" using assms by (rule world_ok_reachable)
  have owned: "rid \<in> set (hm_keys (entries (tw_registry w))) \<longleftrightarrow>
      (\<exists>c. tw_cells w rid = Some c \<and> \<not> finished (tc_token c) \<and> 0 < tc_owners c)" for rid
    using ok unfolding world_ok_def live_ids_def cell_ok_def by blast
  have "entries (tw_registry w) = []" if "\<forall>c \<in> ran (tw_cells w). tc_owners c = 0"
  proof -
    have "set (hm_keys (entries (tw_registry w))) = {}"
      unfolding set_eq_iff owned using that ranI [of "tw_cells w"] by (metis empty_iff less_numeral_extra(3))
    then show ?thesis by simp
  qed
  with ok owned show ?thesis by (simp add: world_ok_def)
qed

lemma log_grows:
  assumes "token_step w w'" "world_ok w"
  shows "set (tw_log w) \<subseteq> set (tw_log w')
    \<and> (\<forall>c. tw_cells w rid = Some c \<and> tc_handed_off c \<longrightarrow>
         (\<exists>c'. tw_cells w' rid = Some c' \<and> tc_handed_off c')
         \<and> (rid \<in> fst ` set (tw_log w') \<longrightarrow> rid \<in> fst ` set (tw_log w)))"
  using assms
proof (induction rule: token_step.induct)
  case (step_handoff w i c h t s)
  then show ?case by (auto simp: guard_handoff_def split: if_splits)
qed (auto simp: world_finish_def finish_def drop_owner_def Let_def cell_ok_def
    dest: world_ok_cell)

lemma handed_off_stays_silent:
  assumes "token_step\<^sup>*\<^sup>* w w'" "world_ok w" "tw_cells w rid = Some c" "tc_handed_off c"
  shows "world_ok w' \<and> (\<exists>c'. tw_cells w' rid = Some c' \<and> tc_handed_off c')
    \<and> (rid \<in> fst ` set (tw_log w') \<longrightarrow> rid \<in> fst ` set (tw_log w))"
  using assms(1)
proof (induction rule: rtranclp_induct)
  case base
  show ?case using assms by blast
next
  case (step y z)
  then show ?case using log_grows [OF step(2), of rid] world_ok_step by blast
qed

text \<open>The abandonment callback of a spawn runs at most once, and when it runs the registry has
  already given up the commitment; after the admission guard handed the spawn off it never runs
  any more, whatever the owners of the token do.\<close>

theorem abandon_callback_once:
  assumes "token_reachable w" "token_step\<^sup>*\<^sup>* w w'"
  shows "distinct (map fst (tw_log w'))
    \<and> (\<forall>(rid, s) \<in> set (tw_log w'). hm_get (entries s) rid = None)
    \<and> (\<forall>rid c. tw_cells w rid = Some c \<and> tc_handed_off c \<and> rid \<notin> fst ` set (tw_log w) \<longrightarrow>
         rid \<notin> fst ` set (tw_log w'))"
proof -
  have ok: "world_ok w" using assms(1) by (rule world_ok_reachable)
  have "world_ok w'" using assms by (auto intro: world_ok_reachable)
  then have "distinct (map fst (tw_log w'))"
    "\<forall>(rid, s) \<in> set (tw_log w'). hm_get (entries s) rid = None"
    by (auto simp: world_ok_def log_ok_def)
  then show ?thesis using handed_off_stays_silent [OF assms(2) ok] by blast
qed

definition demo_world :: "token_world" where
  "demo_world = empty_world\<lparr>tw_registry := reserve ''a'' ''m:p'' (400, 800) (tw_registry empty_world),
     tw_cells := (tw_cells empty_world)(''a'' \<mapsto> new_cell ''a'' True)\<rparr>"

lemma demo_reachable: "token_reachable demo_world"
  unfolding demo_world_def
  by (intro r_into_rtranclp step_reserve) (simp add: empty_world_def)

lemma demo_drop: "token_step demo_world (drop_owner ''a'' ((new_cell ''a'' True)\<lparr>tc_guarded := False\<rparr>) demo_world)"
  by (rule step_drop_guard) (simp_all add: demo_world_def new_cell_def)

theorem commitments_are_owned_witness:
  "entries (tw_registry (drop_owner ''a'' ((new_cell ''a'' True)\<lparr>tc_guarded := False\<rparr>) demo_world)) = []"
proof -
  let ?w = "drop_owner ''a'' ((new_cell ''a'' True)\<lparr>tc_guarded := False\<rparr>) demo_world"
  have "token_reachable ?w" using demo_reachable demo_drop by (rule rtranclp.rtrancl_into_rtrancl)
  from commitments_are_owned [OF this] show ?thesis
    by (auto simp: drop_owner_def Let_def world_finish_def finish_def new_cell_def demo_world_def
        empty_world_def ran_def)
qed

theorem abandon_callback_once_witness:
  "distinct (map fst (tw_log (drop_owner ''a'' ((new_cell ''a'' True)\<lparr>tc_guarded := False\<rparr>) demo_world)))
   \<and> map fst (tw_log (drop_owner ''a'' ((new_cell ''a'' True)\<lparr>tc_guarded := False\<rparr>) demo_world)) = [''a'']"
  using abandon_callback_once [OF demo_reachable r_into_rtranclp [of token_step, OF demo_drop]]
  by (simp add: drop_owner_def Let_def world_finish_def finish_def new_cell_def demo_world_def
      empty_world_def)

end
