(* ===== verification/Launch_Args.thy ===== *)
theory Launch_Args
  imports Prelude "HOL-Library.Char_ord" "HOL-Library.List_Lexorder"
begin

text \<open>
  Cookbook entries and the arguments a llama-server is started with: the records \<^verbatim>\<open>Profile\<close>,
  \<^verbatim>\<open>Model\<close> and \<^verbatim>\<open>Cookbook\<close> of \<^verbatim>\<open>src/config.rs\<close>, \<^verbatim>\<open>build_pre_args\<close> and the argument hash of
  \<^verbatim>\<open>src/node_state/model_index.rs\<close>, and \<^verbatim>\<open>compute_args_hash\<close> of \<^verbatim>\<open>src/instance.rs\<close>. The SHA-256
  digest comes from a library and is a parameter. Characters are bytes.
\<close>

section \<open>Cookbook entries\<close>

record profile =
  p_id :: string
  p_description :: "string option"
  p_enabled :: bool
  model_path :: "string option"
  hf_repo :: "string option"
  hf_file :: "string option"
  p_idle_timeout_seconds :: u64
  max_instances :: "nat option"
  llama_server_args :: "string list"
  estimated_vram_mb :: "u64 option"
  estimated_sysmem_mb :: "u64 option"
  p_max_wait_in_queue_ms :: "u64 option"
  p_max_request_duration_ms :: "u64 option"
  startup_timeout_seconds :: "u64 option"
  download_timeout_seconds :: "u64 option"
  max_queue_size :: "nat option"
  p_min_eviction_tenure_secs :: "u64 option"

record model =
  m_name :: string
  m_description :: "string option"
  m_enabled :: bool
  profiles :: "profile list"

record cookbook =
  models :: "model list"

definition blank_profile :: "string \<Rightarrow> profile" where
  "blank_profile i = \<lparr>p_id = i, p_description = None, p_enabled = True, model_path = None,
     hf_repo = None, hf_file = None, p_idle_timeout_seconds = 300, max_instances = None,
     llama_server_args = [], estimated_vram_mb = None, estimated_sysmem_mb = None,
     p_max_wait_in_queue_ms = None, p_max_request_duration_ms = None,
     startup_timeout_seconds = None, download_timeout_seconds = None, max_queue_size = None,
     p_min_eviction_tenure_secs = None\<rparr>"

text \<open>\<^verbatim>\<open>shlex::split\<close> is a library function and a parameter.\<close>

definition deserialize_llama_server_args ::
  "(string \<Rightarrow> string list option) \<Rightarrow> string \<Rightarrow> (string list, string) result" where
  "deserialize_llama_server_args shlex s =
     (if trim s = [] then Ok []
      else case shlex s of Some args \<Rightarrow> Ok args | None \<Rightarrow> Err s)"

section \<open>Launch arguments\<close>

text \<open>An argument spells one of \<open>flags\<close>, alone or as \<open>flag=value\<close>.\<close>

definition spells :: "string list \<Rightarrow> string \<Rightarrow> bool" where
  "spells flags arg = list_ex (\<lambda>f. arg = f \<or> starts_with arg (f @ ''='')) flags"

definition model_flags :: "string list" where "model_flags = [''-m'', ''--model'']"
definition hf_flags :: "string list" where "hf_flags = [''-hf'', ''-hfr'', ''--hf-repo'']"
definition ctx_flags :: "string list" where "ctx_flags = [''-c'', ''--ctx-size'']"
definition fit_flags :: "string list" where "fit_flags = [''-fit'', ''--fit'']"

lemmas flag_defs = model_flags_def hf_flags_def ctx_flags_def fit_flags_def

definition expand_arg :: "string \<Rightarrow> string list" where
  "expand_arg arg =
     (if (starts_with arg ''--'' \<or> starts_with arg ''-'') \<and> CHR ''='' \<in> set arg
      then (case split_once CHR ''='' arg of Some (flag, val) \<Rightarrow> [flag, val] | None \<Rightarrow> [arg])
      else [arg])"

record pre_args =
  pa_args :: "string list"
  model_arg_present :: bool
  hf_repo_arg_present :: bool
  ctx_size_present :: bool
  fit_present :: bool

text \<open>One round of the loop over \<^verbatim>\<open>profile.llama_server_args\<close>.\<close>

definition scan_arg :: "string \<Rightarrow> pre_args \<Rightarrow> pre_args" where
  "scan_arg arg st =
     \<lparr>pa_args = pa_args st @ expand_arg arg,
      model_arg_present = (model_arg_present st \<or> spells model_flags arg),
      hf_repo_arg_present = (hf_repo_arg_present st \<or> spells hf_flags arg),
      ctx_size_present = (ctx_size_present st \<or> spells ctx_flags arg),
      fit_present = (fit_present st \<or> spells fit_flags arg)\<rparr>"

definition no_pre_args :: pre_args where
  "no_pre_args = \<lparr>pa_args = [], model_arg_present = False, hf_repo_arg_present = False,
     ctx_size_present = False, fit_present = False\<rparr>"

definition source_args :: "profile \<Rightarrow> string list" where
  "source_args p = (case hf_repo p of
     Some repo \<Rightarrow> [''-hfr'', repo] @ (case hf_file p of Some f \<Rightarrow> [''-hff'', f] | None \<Rightarrow> [])
   | None \<Rightarrow> (case model_path p of Some m \<Rightarrow> [''-m'', m] | None \<Rightarrow> []))"

definition build_pre_args :: "profile \<Rightarrow> string list \<times> bool \<times> bool" where
  "build_pre_args p =
     (let st = fold scan_arg (llama_server_args p) no_pre_args;
          a1 = pa_args st @
            (if \<not> model_arg_present st \<and> \<not> hf_repo_arg_present st then source_args p else []);
          a2 = a1 @ (if \<not> ctx_size_present st then [''-c'', ''0''] else []);
          a3 = a2 @ (if \<not> fit_present st then [''--fit'', ''off''] else [])
      in (a3, model_arg_present st, hf_repo_arg_present st))"

section \<open>The argument hash\<close>

text \<open>
  The grammar of \<^verbatim>\<open>f64::from_str\<close>: an optional sign, then \<^verbatim>\<open>inf\<close>, \<^verbatim>\<open>infinity\<close> or \<^verbatim>\<open>nan\<close> in any case,
  or a decimal number with an optional exponent.
\<close>

definition strip_sign :: "string \<Rightarrow> string" where
  "strip_sign s = (case s of c # t \<Rightarrow> if c = CHR ''-'' \<or> c = CHR ''+'' then t else s | [] \<Rightarrow> [])"

definition is_exponent :: "string \<Rightarrow> bool" where
  "is_exponent s = (case s of [] \<Rightarrow> True
     | c # t \<Rightarrow> (c = CHR ''e'' \<or> c = CHR ''E'') \<and> strip_sign t \<noteq> [] \<and> list_all is_digit (strip_sign t))"

definition is_decimal :: "string \<Rightarrow> bool" where
  "is_decimal s = (let a = takeWhile is_digit s; r = dropWhile is_digit s in
     case r of
       [] \<Rightarrow> a \<noteq> []
     | c # t \<Rightarrow>
         if c = CHR ''.'' then
           (a \<noteq> [] \<or> takeWhile is_digit t \<noteq> []) \<and> is_exponent (dropWhile is_digit t)
         else a \<noteq> [] \<and> is_exponent r)"

definition parses_f64 :: "string \<Rightarrow> bool" where
  "parses_f64 s = (let u = strip_sign s in
     to_lowercase u \<in> {''inf'', ''infinity'', ''nan''} \<or> is_decimal u)"

definition push_last :: "'a list list \<Rightarrow> 'a \<Rightarrow> 'a list list" where
  "push_last gs x = (if gs = [] then [] else butlast gs @ [last gs @ [x]])"

text \<open>The loop of \<^verbatim>\<open>compute_args_hash\<close> that groups each option with its values.\<close>

fun arg_groups :: "bool \<Rightarrow> bool \<Rightarrow> string list list \<Rightarrow> string list \<Rightarrow> string list list" where
  "arg_groups skip_next has_option groups [] = groups"
| "arg_groups skip_next has_option groups (arg # rest) =
     (if skip_next then arg_groups False has_option groups rest
      else if arg = ''--host'' \<or> arg = ''--port'' then arg_groups True has_option groups rest
      else if starts_with arg ''--host='' \<or> starts_with arg ''--port=''
      then arg_groups False has_option groups rest
      else if starts_with arg ''-'' \<and> \<not> parses_f64 arg
      then arg_groups False True (groups @ [[arg]]) rest
      else if has_option then arg_groups False has_option (push_last groups arg) rest
      else arg_groups False has_option (groups @ [[arg]]) rest)"

definition option_groups :: "string list \<Rightarrow> string list list" where
  "option_groups args = arg_groups False False [] args"

text \<open>\<^verbatim>\<open>to_be_bytes\<close> of a number in \<open>k\<close> bytes.\<close>

fun be_bytes :: "nat \<Rightarrow> nat \<Rightarrow> string" where
  "be_bytes 0 n = []"
| "be_bytes (Suc k) n = be_bytes k (n div 256) @ [char_of (n mod 256)]"

definition hash_token :: "string \<Rightarrow> string" where
  "hash_token arg = be_bytes 8 (length arg) @ arg"

definition hash_group :: "string list \<Rightarrow> string" where
  "hash_group g = be_bytes 8 (length g) @ concat (map hash_token g)"

definition hash_input :: "string list \<Rightarrow> string" where
  "hash_input args = concat (map hash_group (sort (option_groups args)))"

definition from_be_bytes :: "string \<Rightarrow> nat" where
  "from_be_bytes bs = foldl (\<lambda>n b. n * 256 + of_char b) 0 bs"

definition hex_digit :: "nat \<Rightarrow> char" where
  "hex_digit d = (if d < 10 then char_of (48 + d) else char_of (87 + d))"

text \<open>\<^verbatim>\<open>{:016x}\<close>: \<open>k\<close> lower-case digits, zero padded.\<close>

fun hex_fixed :: "nat \<Rightarrow> nat \<Rightarrow> string" where
  "hex_fixed 0 n = []"
| "hex_fixed (Suc k) n = hex_fixed k (n div 16) @ [hex_digit (n mod 16)]"

definition compute_args_hash :: "(string \<Rightarrow> string) \<Rightarrow> string list \<Rightarrow> string" where
  "compute_args_hash sha256 args = hex_fixed 16 (from_be_bytes (take 8 (sha256 (hash_input args))))"

definition args_hash_for_profile :: "(string \<Rightarrow> string) \<Rightarrow> profile \<Rightarrow> string" where
  "args_hash_for_profile sha256 p = compute_args_hash sha256 (fst (build_pre_args p))"

definition get_args_hash_for_key ::
  "(string \<Rightarrow> string) \<Rightarrow> cookbook \<Rightarrow> string \<Rightarrow> string option" where
  "get_args_hash_for_key sha256 cb key =
     (let (model_name, profile_id) =
        (case split_once CHR '':'' key of Some mp \<Rightarrow> mp | None \<Rightarrow> (key, ''default'')) in
      case find (\<lambda>m. m_enabled m \<and> m_name m = model_name) (models cb) of
        None \<Rightarrow> None
      | Some m \<Rightarrow>
          (case find (\<lambda>p. p_enabled p \<and> p_id p = profile_id) (profiles m) of
             None \<Rightarrow> None
           | Some p \<Rightarrow> Some (args_hash_for_profile sha256 p)))"

section \<open>What the launch arguments are\<close>

lemma fold_scan_arg:
  "fold scan_arg args st =
     \<lparr>pa_args = pa_args st @ concat (map expand_arg args),
      model_arg_present = (model_arg_present st \<or> list_ex (spells model_flags) args),
      hf_repo_arg_present = (hf_repo_arg_present st \<or> list_ex (spells hf_flags) args),
      ctx_size_present = (ctx_size_present st \<or> list_ex (spells ctx_flags) args),
      fit_present = (fit_present st \<or> list_ex (spells fit_flags) args)\<rparr>"
  by (induction args arbitrary: st) (auto simp: scan_arg_def)

lemma build_pre_args_eq:
  "build_pre_args p =
     (let args = llama_server_args p;
          m = list_ex (spells model_flags) args; h = list_ex (spells hf_flags) args in
      (concat (map expand_arg args)
         @ (if \<not> m \<and> \<not> h then source_args p else [])
         @ (if \<not> list_ex (spells ctx_flags) args then [''-c'', ''0''] else [])
         @ (if \<not> list_ex (spells fit_flags) args then [''--fit'', ''off''] else []), m, h))"
  by (simp add: build_pre_args_def fold_scan_arg no_pre_args_def Let_def)

lemma spells_assign:
  assumes "CHR ''='' \<notin> set flag" "\<forall>f \<in> set flags. CHR ''='' \<notin> set f"
  shows "spells flags (flag @ CHR ''='' # val) \<longleftrightarrow> spells flags flag"
proof -
  have eq: "starts_with (flag @ CHR ''='' # val) (f @ ''='') \<longleftrightarrow> flag = f"
    and no: "flag @ CHR ''='' # val \<noteq> f" "\<not> starts_with flag (f @ ''='')" if "f \<in> set flags" for f
  proof -
    have f: "CHR ''='' \<notin> set f" using assms(2) that by blast
    show "starts_with (flag @ CHR ''='' # val) (f @ ''='') \<longleftrightarrow> flag = f"
    proof
      assume "starts_with (flag @ CHR ''='' # val) (f @ ''='')"
      then obtain t where "flag @ CHR ''='' # val = f @ CHR ''='' # t"
        by (auto simp: starts_with_iff)
      then have "split_once CHR ''='' (flag @ CHR ''='' # val) = Some (f, t)"
        using f by (simp add: split_once_append)
      then show "flag = f" using assms(1) by (simp add: split_once_append)
    next
      assume "flag = f"
      then show "starts_with (flag @ CHR ''='' # val) (f @ ''='')" by (simp add: starts_with_iff)
    qed
    show "flag @ CHR ''='' # val \<noteq> f" "\<not> starts_with flag (f @ ''='')"
      using f assms(1) by (auto simp: starts_with_iff)
  qed
  show ?thesis using eq no by (auto simp: spells_def list_ex_iff)
qed

lemma spells_dash:
  assumes "\<forall>f \<in> set flags. starts_with f ''-''" "\<not> starts_with arg ''-''"
  shows "\<not> spells flags arg"
proof
  assume "spells flags arg"
  then obtain f where f: "f \<in> set flags" "arg = f \<or> starts_with arg (f @ ''='')"
    by (auto simp: spells_def list_ex_iff)
  with assms(1) obtain t where "f = ''-'' @ t" by (auto simp: starts_with_iff)
  with f(2) have "\<exists>u. arg = ''-'' @ u" by (auto simp: starts_with_iff)
  with assms(2) show False by (simp add: starts_with_iff)
qed

lemma flags_plain:
  "\<forall>f \<in> set model_flags \<union> set hf_flags \<union> set ctx_flags \<union> set fit_flags.
     CHR ''='' \<notin> set f \<and> starts_with f ''-''"
  by (simp add: flag_defs starts_with_def)

lemma expand_assign:
  "starts_with flag ''-'' \<Longrightarrow> CHR ''='' \<notin> set flag \<Longrightarrow>
   expand_arg (flag @ CHR ''='' # val) = [flag, val]"
  by (cases flag) (auto simp: expand_arg_def split_once_append starts_with_def)

lemma expand_plain: "CHR ''='' \<notin> set arg \<or> \<not> starts_with arg ''-'' \<Longrightarrow> expand_arg arg = [arg]"
  by (cases arg) (auto simp: expand_arg_def starts_with_def)

text \<open>Writing an option as one argument \<open>flag=value\<close> or as two arguments gives the same launch
  arguments and the same model-source flags, so both spellings share one argument hash and one
  learned memory estimate.\<close>

theorem build_pre_args_spelling:
  assumes "starts_with flag ''-''" "CHR ''='' \<notin> set flag" "\<not> starts_with val ''-''"
  shows "build_pre_args (p\<lparr>llama_server_args := xs @ [flag @ CHR ''='' # val] @ ys\<rparr>)
       = build_pre_args (p\<lparr>llama_server_args := xs @ [flag, val] @ ys\<rparr>)"
proof -
  have "spells fs (flag @ CHR ''='' # val) = (spells fs flag \<or> spells fs val)"
    if "fs \<in> {model_flags, hf_flags, ctx_flags, fit_flags}" for fs
    using that flags_plain assms spells_assign [of flag fs val] spells_dash [of fs val] by auto
  moreover have "source_args (p\<lparr>llama_server_args := as\<rparr>) = source_args p" for as
    unfolding source_args_def by (simp cong: option.case_cong)
  ultimately show ?thesis
    using assms by (simp add: build_pre_args_eq expand_assign expand_plain Let_def)
qed

theorem build_pre_args_spelling_witness:
  "build_pre_args ((blank_profile ''default'')\<lparr>llama_server_args := [''--ctx-size=4096'']\<rparr>)
   = build_pre_args ((blank_profile ''default'')\<lparr>llama_server_args := [''--ctx-size'', ''4096'']\<rparr>)"
  using build_pre_args_spelling [where flag = "''--ctx-size''" and val = "''4096''"
      and p = "blank_profile ''default''" and xs = "[]" and ys = "[]"]
  by (simp add: starts_with_def)

section \<open>The hash identifies the option groups\<close>

lemma length_be_bytes [simp]: "length (be_bytes k n) = k"
  by (induction k arbitrary: n) auto

lemma be_bytes_inject:
  "m < 256 ^ k \<Longrightarrow> n < 256 ^ k \<Longrightarrow> be_bytes k m = be_bytes k n \<longleftrightarrow> m = n"
proof (induction k arbitrary: m n)
  case (Suc k)
  show ?case
  proof
    assume eq: "be_bytes (Suc k) m = be_bytes (Suc k) n"
    have "m div 256 < 256 ^ k" "n div 256 < 256 ^ k"
      using Suc.prems by (auto simp: less_mult_imp_div_less mult.commute)
    then have "m div 256 = n div 256" using Suc.IH eq by simp
    moreover have "(of_char (char_of (m mod 256) :: char) :: nat) = of_char (char_of (n mod 256) :: char)"
      using eq by simp
    then have "m mod 256 = n mod 256" by (simp add: of_char_of)
    ultimately show "m = n" by (metis div_mult_mod_eq)
  qed simp
qed simp

lemma length_prefix_inject:
  assumes "be_bytes 8 m @ x = be_bytes 8 n @ y" "m < 2 ^ 64" "n < 2 ^ 64"
  shows "m = n \<and> x = y"
proof -
  have "be_bytes 8 m = be_bytes 8 n" "x = y" using assms(1) by simp_all
  then show ?thesis using assms(2,3) be_bytes_inject [of m 8 n] by simp
qed

lemma hash_token_prefix:
  assumes "hash_token a @ r = hash_token b @ s" "length a < 2 ^ 64" "length b < 2 ^ 64"
  shows "a = b \<and> r = s"
proof -
  have "be_bytes 8 (length a) @ (a @ r) = be_bytes 8 (length b) @ (b @ s)"
    using assms(1) by (simp only: hash_token_def append_assoc)
  from length_prefix_inject [OF this assms(2,3)] have "length a = length b" "a @ r = b @ s"
    by blast+
  then show ?thesis by simp
qed

lemma hash_tokens_prefix:
  assumes "length g = length h"
    "concat (map hash_token g) @ r = concat (map hash_token h) @ s"
    "\<forall>a \<in> set g \<union> set h. length a < 2 ^ 64"
  shows "g = h \<and> r = s"
  using assms
proof (induction g h arbitrary: r s rule: list_induct2)
  case (Cons a g b h)
  then show ?case
    using hash_token_prefix [of a "concat (map hash_token g) @ r" b "concat (map hash_token h) @ s"]
    by auto
qed simp

definition sane_groups :: "string list list \<Rightarrow> bool" where
  "sane_groups gs = (\<forall>g \<in> set gs. length g < 2 ^ 64 \<and> (\<forall>a \<in> set g. length a < 2 ^ 64))"

lemma hash_group_prefix:
  assumes "hash_group g @ r = hash_group h @ s" "sane_groups [g, h]"
  shows "g = h \<and> r = s"
proof -
  have sane: "length g < 2 ^ 64" "length h < 2 ^ 64" "\<forall>a \<in> set g \<union> set h. length a < 2 ^ 64"
    using assms(2) by (auto simp: sane_groups_def)
  have "be_bytes 8 (length g) @ (concat (map hash_token g) @ r)
      = be_bytes 8 (length h) @ (concat (map hash_token h) @ s)"
    using assms(1) by (simp only: hash_group_def append_assoc)
  from length_prefix_inject [OF this sane(1,2)] show ?thesis
    using hash_tokens_prefix [OF _ _ sane(3)] by blast
qed

lemma hash_group_nonempty: "hash_group g \<noteq> []"
proof -
  have "length (hash_group g) \<ge> 8" by (simp add: hash_group_def)
  then show ?thesis by auto
qed

lemma hash_groups_inject:
  "concat (map hash_group gs) = concat (map hash_group hs) \<Longrightarrow> sane_groups gs \<Longrightarrow> sane_groups hs
   \<Longrightarrow> gs = hs"
proof (induction gs arbitrary: hs)
  case Nil
  then show ?case using hash_group_nonempty by (cases hs) auto
next
  case (Cons g gs)
  show ?case
  proof (cases hs)
    case Nil
    then show ?thesis using Cons.prems(1) hash_group_nonempty by auto
  next
    case (Cons h hs')
    then show ?thesis
      using Cons.prems Cons.IH [of hs'] hash_group_prefix [of g "concat (map hash_group gs)" h]
      by (auto simp: sane_groups_def)
  qed
qed

lemma from_be_bytes_snoc: "from_be_bytes (bs @ [b]) = from_be_bytes bs * 256 + of_char b"
  by (simp add: from_be_bytes_def)

lemma of_char_less: "(of_char (c :: char) :: nat) < 256"
  using nat_of_char_less_256 [of c] by simp

lemma from_be_bytes_less: "from_be_bytes bs < 256 ^ length bs"
proof (induction bs rule: rev_induct)
  case (snoc b bs)
  have digit: "n * 256 + d < m * 256" if "n < m" "d < 256" for n m d :: nat
    using that by linarith
  from digit [OF snoc of_char_less]
  have "from_be_bytes bs * 256 + of_char b < 256 ^ length bs * 256" .
  then show ?case by (simp add: from_be_bytes_snoc mult.commute)
qed (simp add: from_be_bytes_def)

lemma from_be_bytes_inject:
  "length as = length bs \<Longrightarrow> from_be_bytes as = from_be_bytes bs \<Longrightarrow> as = bs"
proof (induction as arbitrary: bs rule: rev_induct)
  case (snoc a as)
  from snoc.prems(1) obtain b bs' where bs: "bs = bs' @ [b]" by (cases bs rule: rev_cases) auto
  have eq: "from_be_bytes as * 256 + of_char a = from_be_bytes bs' * 256 + (of_char b :: nat)"
    using snoc.prems(2) by (simp add: bs from_be_bytes_snoc)
  have "(from_be_bytes as * 256 + of_char a) div 256 = from_be_bytes as"
    "(from_be_bytes bs' * 256 + of_char b) div 256 = from_be_bytes bs'"
    using of_char_less [of a] of_char_less [of b] by simp_all
  with eq have "from_be_bytes as = from_be_bytes bs'" by simp
  moreover from this eq have "(of_char a :: nat) = of_char b" by simp
  then have "a = b" by (simp only: of_char_eq_iff)
  ultimately show ?case using snoc.IH [of bs'] snoc.prems(1) bs by simp
qed simp

lemma hex_digit_inject:
  assumes "hex_digit d = hex_digit e" "d < 16" "e < 16"
  shows "d = e"
proof -
  have "(of_char (hex_digit d) :: nat) = of_char (hex_digit e)" using assms(1) by simp
  then show ?thesis using assms(2,3) by (auto simp: hex_digit_def of_char_of split: if_splits)
qed

lemma hex_fixed_inject:
  "m < 16 ^ k \<Longrightarrow> n < 16 ^ k \<Longrightarrow> hex_fixed k m = hex_fixed k n \<Longrightarrow> m = n"
proof (induction k arbitrary: m n)
  case (Suc k)
  have "m div 16 < 16 ^ k" "n div 16 < 16 ^ k"
    using Suc.prems(1,2) by (auto simp: less_mult_imp_div_less mult.commute)
  then have "m div 16 = n div 16" using Suc.IH Suc.prems(3) by simp
  moreover have "m mod 16 = n mod 16" using Suc.prems(3) hex_digit_inject by simp
  ultimately show ?case by (metis div_mult_mod_eq)
qed simp

lemma sort_eq_iff: "sort xs = sort ys \<longleftrightarrow> mset xs = mset ys" for xs ys :: "'a::linorder list"
  by (metis mset_sort sorted_list_of_multiset_mset)

lemma sane_sort [simp]: "sane_groups (sort gs) = sane_groups gs"
  by (simp add: sane_groups_def)

text \<open>The argument hash identifies a launch configuration: two argument lists have the same hash
  exactly when they have the same options with the same values, in any order of the options, provided
  the digest does not collide on the two inputs. The length prefixes make the digest's input
  unambiguous.\<close>

theorem args_hash_iff_same_options:
  assumes digest: "\<And>x. length (sha256 x) = 32"
    and collision_free: "take 8 (sha256 (hash_input a)) = take 8 (sha256 (hash_input b)) \<Longrightarrow>
      hash_input a = hash_input b"
    and sane: "sane_groups (option_groups a)" "sane_groups (option_groups b)"
  shows "compute_args_hash sha256 a = compute_args_hash sha256 b
    \<longleftrightarrow> mset (option_groups a) = mset (option_groups b)"
proof
  assume eq: "compute_args_hash sha256 a = compute_args_hash sha256 b"
  let ?h = "\<lambda>x. take 8 (sha256 (hash_input x))"
  have len: "length (?h x) = 8" for x by (simp add: digest)
  have bound: "from_be_bytes (?h x) < 16 ^ 16" for x
    using from_be_bytes_less [of "?h x"] by (simp add: digest)
  have "from_be_bytes (?h a) = from_be_bytes (?h b)"
    using eq hex_fixed_inject [OF bound bound] by (simp add: compute_args_hash_def)
  then have "?h a = ?h b" by (rule from_be_bytes_inject [rotated]) (simp add: digest)
  then have "hash_input a = hash_input b" by (rule collision_free)
  then have "sort (option_groups a) = sort (option_groups b)"
    unfolding hash_input_def by (rule hash_groups_inject) (simp_all add: sane)
  then show "mset (option_groups a) = mset (option_groups b)" by (simp only: sort_eq_iff)
next
  assume "mset (option_groups a) = mset (option_groups b)"
  then have "sort (option_groups a) = sort (option_groups b)" by (simp only: sort_eq_iff)
  then show "compute_args_hash sha256 a = compute_args_hash sha256 b"
    by (simp add: compute_args_hash_def hash_input_def)
qed

theorem args_hash_iff_same_options_witness:
  "compute_args_hash (\<lambda>x. take 32 (x @ replicate 32 CHR 0x00))
     [''-c'', ''0'', ''--port'', ''80'', ''-ngl'', ''-1'']
   = compute_args_hash (\<lambda>x. take 32 (x @ replicate 32 CHR 0x00)) [''-ngl'', ''-1'', ''-c'', ''0'']"
proof -
  have groups: "option_groups [''-c'', ''0'', ''--port'', ''80'', ''-ngl'', ''-1''] = [[''-c'', ''0''], [''-ngl'', ''-1'']]"
    "option_groups [''-ngl'', ''-1'', ''-c'', ''0''] = [[''-ngl'', ''-1''], [''-c'', ''0'']]"
    by (simp_all add: option_groups_def starts_with_def parses_f64_def strip_sign_def Let_def
        to_lowercase_def ascii_lower_def is_decimal_def is_digit_def is_exponent_def push_last_def)
  have "hash_input [''-c'', ''0'', ''--port'', ''80'', ''-ngl'', ''-1''] = hash_input [''-ngl'', ''-1'', ''-c'', ''0'']"
    unfolding hash_input_def groups
    by (subst sort_eq_iff [THEN iffD2, of _ "[[''-ngl'', ''-1''], [''-c'', ''0'']]"]) simp_all
  then show ?thesis
    by (intro args_hash_iff_same_options [THEN iffD2]) (simp_all add: groups sane_groups_def)
qed

end
