(* ===== verification/Config.thy ===== *)
theory Config
  imports Launch_Args Port_Pool Circuit_Breaker
begin

text \<open>
  Configuration of \<^verbatim>\<open>src/config.rs\<close>: the node configuration with its start-up validation, the
  effective limits of a profile, and the validation of profiles and of the cookbook. Counters of
  type \<^verbatim>\<open>usize\<close> are natural numbers. Warnings that are only logged are left out, except for the list
  of overridden fields one of them is computed from.
\<close>

section \<open>Node configuration\<close>

record model_defaults =
  max_concurrent_requests_per_instance :: nat
  max_queue_size_per_model :: nat
  max_instances_per_model :: nat
  md_max_wait_in_queue_ms :: u64
  md_max_request_duration_ms :: u64
  md_min_eviction_tenure_secs :: u64

record wedge_detector_config =
  wd_enabled :: bool
  window_ms :: u64
  sample_interval_ms :: u64
  cpu_only :: bool

record cluster_noise_config =
  noise_enabled :: bool
  tofu :: bool
  config_dir :: "string option"
  private_key_path :: "string option"
  previous_key_path :: "string option"
  known_peers_path :: "string option"
  noise_allowed_keys :: "string list"
  session_ttl_seconds :: u64

record discovery_config =
  mdns :: bool
  service_name :: string

record cluster_config =
  cluster_enabled :: bool
  cluster_peers :: "string list"
  gossip_interval_seconds :: u64
  max_concurrent_gossip :: nat
  discovery :: discovery_config
  noise :: cluster_noise_config
  circuit_breaker :: circuit_config
  version_mismatch_action :: string

record http_config =
  request_body_limit_bytes :: nat
  http_idle_timeout_seconds :: u64
  body_read_timeout_ms :: u64
  protocol_detect_timeout_ms :: u64

record auth_config =
  auth_enabled :: bool
  required_header :: string
  allowed_keys :: "string list"

record server_tls_config =
  server_tls_enabled :: bool
  cert_path :: string
  key_path :: string

record cluster_tls_config =
  cluster_tls_enabled :: bool
  ca_cert_path :: string
  client_cert_path :: string
  client_key_path :: string

record llama_cpp_config =
  repo_url :: string
  repo_path :: string
  build_path :: string
  binary_path :: string
  branch :: string
  build_args :: "string list"
  build_command_args :: "string list"
  auto_update_interval_seconds :: u64
  build_enabled :: bool
  keep_builds :: nat

record logging_config =
  logging_enabled :: bool
  log_directory :: string
  log_filename :: string
  max_keep_files :: u64
  compression :: bool

record node_config =
  node_id :: string
  listen_addr :: string
  public_url :: "string option"
  max_vram_mb :: u64
  max_sysmem_mb :: u64
  max_instances_per_node :: nat
  metrics_path :: string
  default_model :: string
  model_defaults :: model_defaults
  llama_cpp_ports :: "llama_cpp_ports option"
  llama_cpp :: llama_cpp_config
  cluster :: cluster_config
  http :: http_config
  auth :: "auth_config option"
  server_tls :: "server_tls_config option"
  cluster_tls :: "cluster_tls_config option"
  shutdown_grace_period_seconds :: u64
  max_hops :: nat
  logging :: "logging_config option"
  max_total_queue_entries :: nat
  upstream_read_timeout_ms :: u64
  wedge_detector :: wedge_detector_config

record secrets_config =
  secret_auth :: "auth_config option"
  secret_server_tls :: "server_tls_config option"
  secret_cluster_tls :: "cluster_tls_config option"

definition merge_secrets :: "secrets_config \<Rightarrow> node_config \<Rightarrow> node_config" where
  "merge_secrets secrets cfg =
     (let c1 = (case secret_auth secrets of Some a \<Rightarrow> cfg\<lparr>auth := Some a\<rparr> | None \<Rightarrow> cfg);
          c2 = (case secret_server_tls secrets of Some t \<Rightarrow> c1\<lparr>server_tls := Some t\<rparr> | None \<Rightarrow> c1)
      in case secret_cluster_tls secrets of Some t \<Rightarrow> c2\<lparr>cluster_tls := Some t\<rparr> | None \<Rightarrow> c2)"

section \<open>Validation of the node configuration\<close>

datatype config_error =
    ServerTlsDisabled
  | ServerTlsMissing
  | InvertedRange u16 u16
  | NoUsablePorts
  | ZeroGossipInterval
  | ZeroConcurrentGossip
  | ZeroFailureThreshold
  | ZeroSuccessThreshold
  | ZeroBackoffBase
  | ZeroBackoffMax
  | BackoffBaseAboveMax u64 u64
  | BadVersionAction string
  | ZeroInstancesPerNode
  | ZeroBodyLimit
  | ZeroIdleTimeout
  | ZeroBodyReadTimeout
  | ZeroDetectTimeout
  | ZeroWedgeWindow
  | ZeroWedgeInterval
  | NoAllowedKeys
  | EmptyAuthHeader

text \<open>A sequence of checks with early return: the first check that fails decides.\<close>

type_synonym 'e check = "'e option"

abbreviation reject :: "bool \<Rightarrow> 'e \<Rightarrow> 'e check" where
  "reject bad e \<equiv> (if bad then Some e else None)"

fun run_checks :: "'e check list \<Rightarrow> (unit, 'e) result" where
  "run_checks [] = Ok ()"
| "run_checks (None # cs) = run_checks cs"
| "run_checks (Some e # cs) = Err e"

definition tls_checks :: "node_config \<Rightarrow> config_error check list" where
  "tls_checks cfg = (case cluster_tls cfg of
     Some t \<Rightarrow>
       (if cluster_tls_enabled t then
          (case server_tls cfg of
             Some st \<Rightarrow> [reject (\<not> server_tls_enabled st) ServerTlsDisabled]
           | None \<Rightarrow> [Some ServerTlsMissing])
        else [])
   | None \<Rightarrow> [])"

definition range_check :: "port_range \<Rightarrow> config_error check" where
  "range_check r = reject (range_end r < range_start r) (InvertedRange (range_start r) (range_end r))"

definition port_checks :: "node_config \<Rightarrow> config_error check list" where
  "port_checks cfg = (case llama_cpp_ports cfg of
     Some ports \<Rightarrow>
       (case port_ranges ports of Some rs \<Rightarrow> map range_check rs | None \<Rightarrow> [])
       @ [reject ((case explicit_ports ports of Some ps \<Rightarrow> length ps | None \<Rightarrow> 0) = 0
                  \<and> (case port_ranges ports of Some rs \<Rightarrow> length rs | None \<Rightarrow> 0) = 0) NoUsablePorts]
   | None \<Rightarrow> [])"

definition breaker_checks :: "circuit_config \<Rightarrow> config_error check list" where
  "breaker_checks cb = (if cb_enabled cb then
     [reject (failure_threshold cb = 0) ZeroFailureThreshold,
      reject (success_threshold cb = 0) ZeroSuccessThreshold,
      reject (open_duration_base_ms cb = 0) ZeroBackoffBase,
      reject (open_duration_max_ms cb = 0) ZeroBackoffMax,
      reject (open_duration_max_ms cb < open_duration_base_ms cb)
        (BackoffBaseAboveMax (open_duration_base_ms cb) (open_duration_max_ms cb))]
     else [])"

definition cluster_checks :: "node_config \<Rightarrow> config_error check list" where
  "cluster_checks cfg = (let cl = cluster cfg in if cluster_enabled cl then
     [reject (gossip_interval_seconds cl = 0) ZeroGossipInterval,
      reject (max_concurrent_gossip cl = 0) ZeroConcurrentGossip]
     @ breaker_checks (circuit_breaker cl)
     @ [reject (version_mismatch_action cl \<notin> {''warn'', ''reject_major'', ''reject_any''})
          (BadVersionAction (version_mismatch_action cl))]
     else [])"

definition limit_checks :: "node_config \<Rightarrow> config_error check list" where
  "limit_checks cfg =
     [reject (max_instances_per_node cfg = 0) ZeroInstancesPerNode,
      reject (request_body_limit_bytes (http cfg) = 0) ZeroBodyLimit,
      reject (http_idle_timeout_seconds (http cfg) = 0) ZeroIdleTimeout,
      reject (body_read_timeout_ms (http cfg) = 0) ZeroBodyReadTimeout,
      reject (protocol_detect_timeout_ms (http cfg) = 0) ZeroDetectTimeout]"

definition wedge_checks :: "node_config \<Rightarrow> config_error check list" where
  "wedge_checks cfg = (let wd = wedge_detector cfg in if wd_enabled wd then
     [reject (window_ms wd = 0) ZeroWedgeWindow,
      reject (sample_interval_ms wd = 0) ZeroWedgeInterval]
     else [])"

definition auth_checks :: "node_config \<Rightarrow> config_error check list" where
  "auth_checks cfg = (case auth cfg of
     Some a \<Rightarrow>
       (if auth_enabled a then
          [reject (allowed_keys a = []) NoAllowedKeys,
           reject (trim (required_header a) = []) EmptyAuthHeader]
        else [])
   | None \<Rightarrow> [])"

definition validate_node :: "node_config \<Rightarrow> (unit, config_error) result" where
  "validate_node cfg = run_checks
     (tls_checks cfg @ port_checks cfg @ cluster_checks cfg @ limit_checks cfg
      @ wedge_checks cfg @ auth_checks cfg)"

section \<open>Profiles\<close>

definition effective_max_instances :: "profile \<Rightarrow> model_defaults \<Rightarrow> nat" where
  "effective_max_instances p d = (case max_instances p of
     Some v \<Rightarrow> v | None \<Rightarrow> max (max_instances_per_model d) 1)"

definition effective_max_queue_size :: "profile \<Rightarrow> model_defaults \<Rightarrow> nat" where
  "effective_max_queue_size p d = (case max_queue_size p of
     Some v \<Rightarrow> v | None \<Rightarrow> max_queue_size_per_model d)"

definition effective_min_eviction_tenure_secs :: "profile \<Rightarrow> model_defaults \<Rightarrow> u64" where
  "effective_min_eviction_tenure_secs p d = (case p_min_eviction_tenure_secs p of
     Some v \<Rightarrow> v | None \<Rightarrow> md_min_eviction_tenure_secs d)"

definition has_flag :: "profile \<Rightarrow> string list \<Rightarrow> bool" where
  "has_flag p needles = list_ex (\<lambda>arg. let normalized = to_lowercase (trim arg) in
     list_ex (\<lambda>needle. normalized = needle \<or> starts_with normalized (needle @ ''='')) needles)
     (llama_server_args p)"

definition effective_startup_timeout_seconds :: "profile \<Rightarrow> u64" where
  "effective_startup_timeout_seconds p =
     (if hf_repo p \<noteq> None \<or> has_flag p [''-hf'', ''-hfr'', ''--hf-repo'']
      then (case download_timeout_seconds p of Some v \<Rightarrow> v | None \<Rightarrow> 3600)
      else (case startup_timeout_seconds p of Some v \<Rightarrow> v | None \<Rightarrow> 60))"

definition supports_embeddings :: "profile \<Rightarrow> bool" where
  "supports_embeddings p = has_flag p [''--embedding'', ''--embeddings'']"

definition supports_rerank :: "profile \<Rightarrow> bool" where
  "supports_rerank p = has_flag p [''--rerank'', ''--reranking'']"

definition supports_text_mode :: "profile \<Rightarrow> bool" where
  "supports_text_mode p = (\<not> supports_embeddings p \<and> \<not> supports_rerank p)"

definition args_are_model_source :: "profile \<Rightarrow> bool" where
  "args_are_model_source p =
     (let (_, model_in_args, hf_repo_in_args) = build_pre_args p in model_in_args \<or> hf_repo_in_args)"

definition source_fields_overridden_by_args :: "profile \<Rightarrow> string list" where
  "source_fields_overridden_by_args p =
     (if \<not> args_are_model_source p then []
      else map fst (filter snd
        [(''model_path'', model_path p \<noteq> None), (''hf_repo'', hf_repo p \<noteq> None),
         (''hf_file'', hf_file p \<noteq> None)]))"

datatype cookbook_error =
    NoModelSource string string
  | TwoModelSources string string
  | ColonInModel string
  | ColonInProfile string string
  | DuplicateKey string string string

definition validate_profile :: "string \<Rightarrow> profile \<Rightarrow> (unit, cookbook_error) result" where
  "validate_profile model_name p =
     (let has_model_path = model_path p \<noteq> None;
          has_hf_repo = hf_repo p \<noteq> None;
          has_model_in_args = has_flag p [''-m'', ''--model''];
          has_hf_in_args = has_flag p [''-hf'', ''-hfr'', ''--hf-repo'']
      in if \<not> has_model_path \<and> \<not> has_hf_repo \<and> \<not> has_model_in_args \<and> \<not> has_hf_in_args
         then Err (NoModelSource model_name (p_id p))
         else if has_model_path \<and> has_hf_repo then Err (TwoModelSources model_name (p_id p))
         else Ok ())"

section \<open>The cookbook\<close>

definition index_key :: "string \<Rightarrow> string \<Rightarrow> string" where
  "index_key model_name profile_id = to_lowercase model_name @ '':'' @ to_lowercase profile_id"

text \<open>One round of the two nested loops; \<open>seen\<close> maps the keys met so far to their display names.\<close>

definition check_pair ::
  "model \<Rightarrow> profile \<Rightarrow> (string, string) hashmap \<Rightarrow> ((string, string) hashmap, cookbook_error) result" where
  "check_pair m p seen = (case validate_profile (m_name m) p of
     Inl e \<Rightarrow> Err e
   | Inr _ \<Rightarrow>
       (if m_enabled m \<and> p_enabled p then
          if CHR '':'' \<in> set (m_name m) then Err (ColonInModel (m_name m))
          else if CHR '':'' \<in> set (p_id p) then Err (ColonInProfile (p_id p) (m_name m))
          else let key = index_key (m_name m) (p_id p);
                   display = m_name m @ '':'' @ p_id p
               in (case hm_get seen key of
                     Some first \<Rightarrow> Err (DuplicateKey first display key)
                   | None \<Rightarrow> Ok (hm_insert key display seen))
        else Ok seen))"

fun check_pairs ::
  "(model \<times> profile) list \<Rightarrow> (string, string) hashmap \<Rightarrow> (unit, cookbook_error) result" where
  "check_pairs [] seen = Ok ()"
| "check_pairs (mp # rest) seen = (case check_pair (fst mp) (snd mp) seen of
     Inl e \<Rightarrow> Err e | Inr seen' \<Rightarrow> check_pairs rest seen')"

definition cookbook_pairs :: "cookbook \<Rightarrow> (model \<times> profile) list" where
  "cookbook_pairs cb = concat (map (\<lambda>m. map (Pair m) (profiles m)) (models cb))"

definition validate_cookbook :: "cookbook \<Rightarrow> (unit, cookbook_error) result" where
  "validate_cookbook cb = check_pairs (cookbook_pairs cb) []"

section \<open>What validation accepts\<close>

lemma run_checks_ok: "run_checks cs = Ok () \<longleftrightarrow> (\<forall>c \<in> set cs. c = None)"
proof (induction cs)
  case (Cons c cs)
  then show ?case by (cases c) auto
qed simp

definition pair_enabled :: "model \<times> profile \<Rightarrow> bool" where
  "pair_enabled mp = (m_enabled (fst mp) \<and> p_enabled (snd mp))"

definition pair_key :: "model \<times> profile \<Rightarrow> string" where
  "pair_key mp = index_key (m_name (fst mp)) (p_id (snd mp))"

definition pair_plain :: "model \<times> profile \<Rightarrow> bool" where
  "pair_plain mp = (CHR '':'' \<notin> set (m_name (fst mp)) \<and> CHR '':'' \<notin> set (p_id (snd mp)))"

lemma check_pairs_ok:
  "check_pairs ps seen = Ok () \<longleftrightarrow>
     (\<forall>mp \<in> set ps. validate_profile (m_name (fst mp)) (snd mp) = Ok ())
     \<and> (\<forall>mp \<in> set ps. pair_enabled mp \<longrightarrow> pair_plain mp \<and> hm_get seen (pair_key mp) = None)
     \<and> distinct (map pair_key (filter pair_enabled ps))"
proof (induction ps arbitrary: seen)
  case (Cons mp ps)
  show ?case
  proof (cases "validate_profile (m_name (fst mp)) (snd mp)")
    case (Inl e)
    then show ?thesis by (simp add: check_pair_def)
  next
    case (Inr u)
    consider (fresh) "pair_enabled mp" "pair_plain mp" "hm_get seen (pair_key mp) = None"
      | (bad) "pair_enabled mp" "\<not> (pair_plain mp \<and> hm_get seen (pair_key mp) = None)"
      | (skipped) "\<not> pair_enabled mp"
      by auto
    then show ?thesis
    proof cases
      case fresh
      then have step: "check_pairs (mp # ps) seen =
          check_pairs ps (hm_insert (pair_key mp) (m_name (fst mp) @ '':'' @ p_id (snd mp)) seen)"
        by (simp add: check_pair_def Inr Let_def pair_enabled_def pair_key_def pair_plain_def)
      show ?thesis
        unfolding step Cons.IH hm_get_insert using fresh Inr by (auto simp: image_iff) metis
    next
      case bad
      then have "check_pairs (mp # ps) seen \<noteq> Ok ()"
        by (auto simp: check_pair_def Inr Let_def pair_enabled_def pair_key_def pair_plain_def)
      then show ?thesis using bad by auto
    next
      case skipped
      then have step: "check_pairs (mp # ps) seen = check_pairs ps seen"
        by (auto simp: check_pair_def Inr pair_enabled_def)
      show ?thesis unfolding step Cons.IH using skipped Inr by auto
    qed
  qed
qed simp

definition enabled_pairs :: "cookbook \<Rightarrow> (model \<times> profile) list" where
  "enabled_pairs cb = filter pair_enabled (cookbook_pairs cb)"

text \<open>Cookbook validation accepts exactly the cookbooks in which every profile names one model
  source, no enabled model or profile name contains the separator, and no two enabled
  model:profile pairs agree up to case.\<close>

theorem validate_cookbook_ok_iff:
  "validate_cookbook cb = Ok () \<longleftrightarrow>
     list_all (\<lambda>mp. validate_profile (m_name (fst mp)) (snd mp) = Ok ()) (cookbook_pairs cb)
     \<and> list_all pair_plain (enabled_pairs cb)
     \<and> distinct (map pair_key (enabled_pairs cb))"
  by (auto simp: validate_cookbook_def check_pairs_ok enabled_pairs_def list_all_iff)

lemma validated_pairs:
  assumes "validate_cookbook cb = Ok ()"
  shows "mp \<in> set (enabled_pairs cb) \<Longrightarrow> pair_plain mp"
    and "distinct (map pair_key (enabled_pairs cb))"
  using assms by (auto simp: validate_cookbook_def check_pairs_ok enabled_pairs_def)

text \<open>A small valid configuration for concrete checks.\<close>

definition demo_config :: node_config where
  "demo_config =
     \<lparr>node_id = ''n1'', listen_addr = ''0.0.0.0:8080'', public_url = None, max_vram_mb = 1000,
      max_sysmem_mb = 1000, max_instances_per_node = 2, metrics_path = ''m.json'',
      default_model = ''gpt'',
      model_defaults = \<lparr>max_concurrent_requests_per_instance = 1, max_queue_size_per_model = 2,
        max_instances_per_model = 2, md_max_wait_in_queue_ms = 60000, md_max_request_duration_ms = 0,
        md_min_eviction_tenure_secs = 15\<rparr>,
      llama_cpp_ports = Some \<lparr>explicit_ports = None,
        port_ranges = Some [\<lparr>range_start = 9000, range_end = 9001\<rparr>]\<rparr>,
      llama_cpp = \<lparr>repo_url = [], repo_path = [], build_path = [], binary_path = [],
        branch = [], build_args = [], build_command_args = [], auto_update_interval_seconds = 0,
        build_enabled = False, keep_builds = 3\<rparr>,
      cluster = \<lparr>cluster_enabled = True, cluster_peers = [], gossip_interval_seconds = 5,
        max_concurrent_gossip = 16, discovery = \<lparr>mdns = True, service_name = ''s''\<rparr>,
        noise = \<lparr>noise_enabled = True, tofu = True, config_dir = None, private_key_path = None,
          previous_key_path = None, known_peers_path = None, noise_allowed_keys = [],
          session_ttl_seconds = 3600\<rparr>,
        circuit_breaker = default_circuit_config, version_mismatch_action = ''warn''\<rparr>,
      http = \<lparr>request_body_limit_bytes = 1048576, http_idle_timeout_seconds = 60,
        body_read_timeout_ms = 30000, protocol_detect_timeout_ms = 10000\<rparr>,
      auth = Some \<lparr>auth_enabled = True, required_header = ''x-api-key'', allowed_keys = [''k'']\<rparr>,
      server_tls = None, cluster_tls = None, shutdown_grace_period_seconds = 30, max_hops = 10,
      logging = None, max_total_queue_entries = 0, upstream_read_timeout_ms = 0,
      wedge_detector = \<lparr>wd_enabled = False, window_ms = 600000, sample_interval_ms = 5000,
        cpu_only = False\<rparr>\<rparr>"

lemma demo_config_valid: "validate_node demo_config = Ok ()"
  by (simp add: validate_node_def demo_config_def tls_checks_def port_checks_def cluster_checks_def
      limit_checks_def wedge_checks_def auth_checks_def range_check_def breaker_checks_def
      default_circuit_config_def Let_def trim_def is_white_def)

end
