(* ===== verification/Model_Index.thy ===== *)
theory Model_Index
  imports Config
begin

text \<open>
  The model index of \<^verbatim>\<open>src/node_state/model_index.rs\<close>: the lower-cased \<^verbatim>\<open>model:profile\<close> keys of the
  enabled cookbook entries, and the resolution of a requested model name through it. The contract
  the rest of the node relies on is the locale \<open>name_resolver\<close>.
\<close>

section \<open>The index\<close>

type_synonym model_index = "(string, string \<times> profile) hashmap"

definition insert_pair :: "model \<times> profile \<Rightarrow> model_index \<Rightarrow> model_index" where
  "insert_pair mp index = hm_insert (index_key (m_name (fst mp)) (p_id (snd mp)))
     (m_name (fst mp), snd mp) index"

definition index_model :: "model \<Rightarrow> model_index \<Rightarrow> model_index" where
  "index_model m index = (if \<not> m_enabled m then index
     else fold (\<lambda>p idx. if \<not> p_enabled p then idx else insert_pair (m, p) idx) (profiles m) index)"

definition build_model_index :: "cookbook \<Rightarrow> model_index" where
  "build_model_index cb = fold index_model (models cb) []"

text \<open>\<^verbatim>\<open>ModelIndex::rebuild\<close> replaces the index; \<^verbatim>\<open>parts[0]\<close> exists because \<^verbatim>\<open>split\<close> yields a part.\<close>

definition rebuild :: "cookbook \<Rightarrow> model_index \<Rightarrow> model_index" where
  "rebuild cb index = build_model_index cb"

definition request_key :: "string \<Rightarrow> string" where
  "request_key model_name =
     (let parts = split_on CHR '':'' model_name;
          name = to_lowercase (parts ! 0);
          profile_id = (if length parts > 1 then parts ! 1 else ''default'')
      in name @ '':'' @ to_lowercase profile_id)"

definition resolve :: "model_index \<Rightarrow> string \<Rightarrow> (string \<times> profile) option" where
  "resolve index model_name = hm_get index (request_key model_name)"

section \<open>The index holds the enabled pairs\<close>

lemma fold_insert_pairs:
  "fold (\<lambda>p idx. if \<not> p_enabled p then idx else insert_pair (m, p) idx) ps index =
   fold insert_pair (map (Pair m) (filter p_enabled ps)) index"
  by (induction ps arbitrary: index) auto

lemma index_model_pairs:
  "index_model m index = fold insert_pair (filter pair_enabled (map (Pair m) (profiles m))) index"
proof -
  have "filter pair_enabled (map (Pair m) ps) = (if m_enabled m then map (Pair m) (filter p_enabled ps) else [])"
    for ps
    by (induction ps) (auto simp: pair_enabled_def)
  then show ?thesis by (simp add: index_model_def fold_insert_pairs)
qed

lemma build_model_index_pairs: "build_model_index cb = fold insert_pair (enabled_pairs cb) []"
proof -
  have "fold index_model ms index =
      fold insert_pair (filter pair_enabled (concat (map (\<lambda>m. map (Pair m) (profiles m)) ms))) index"
    for ms index
    by (induction ms arbitrary: index) (simp_all add: index_model_pairs)
  then show ?thesis by (simp add: build_model_index_def enabled_pairs_def cookbook_pairs_def)
qed

lemma fold_insert_ok: "hm_ok index \<Longrightarrow> hm_ok (fold insert_pair ps index)"
  by (induction ps arbitrary: index) (simp_all add: insert_pair_def hm_simps)

text \<open>Later entries shadow earlier ones; without duplicates every entry is found.\<close>

lemma fold_insert_absent:
  "k \<notin> set (map pair_key ps) \<Longrightarrow> hm_get (fold insert_pair ps index) k = hm_get index k"
  by (induction ps arbitrary: index) (auto simp: insert_pair_def hm_simps pair_key_def)

lemma insert_pair_get: "hm_get (insert_pair q index) (pair_key q) = Some (m_name (fst q), snd q)"
  by (simp add: insert_pair_def pair_key_def hm_simps)

lemma fold_insert_get:
  assumes "distinct (map pair_key ps)" "mp \<in> set ps"
  shows "hm_get (fold insert_pair ps index) (pair_key mp) = Some (m_name (fst mp), snd mp)"
  using assms
proof (induction ps arbitrary: index)
  case (Cons q ps)
  show ?case
  proof (cases "mp = q")
    case True
    with Cons.prems(1) have "hm_get (fold insert_pair ps (insert_pair q index)) (pair_key mp)
        = hm_get (insert_pair q index) (pair_key mp)"
      by (intro fold_insert_absent) simp
    then show ?thesis using True by (simp add: insert_pair_get)
  next
    case False
    with Cons show ?thesis by simp
  qed
qed simp

lemma fold_insert_sound:
  assumes "hm_get (fold insert_pair ps index) k = Some v"
  shows "hm_get index k = Some v \<or>
    (\<exists>mp \<in> set ps. k = pair_key mp \<and> v = (m_name (fst mp), snd mp))"
  using assms
proof (induction ps arbitrary: index)
  case (Cons q ps)
  then have "hm_get (insert_pair q index) k = Some v \<or>
      (\<exists>mp \<in> set ps. k = pair_key mp \<and> v = (m_name (fst mp), snd mp))"
    by simp
  then show ?case by (auto simp: insert_pair_def hm_simps pair_key_def split: if_splits)
qed simp

lemma request_key_pair:
  "CHR '':'' \<notin> set m \<Longrightarrow> CHR '':'' \<notin> set p \<Longrightarrow> request_key (m @ '':'' @ p) = index_key m p"
  by (simp add: request_key_def split_on_append split_on_none index_key_def)

lemma request_key_name:
  "CHR '':'' \<notin> set m \<Longrightarrow> request_key m = index_key m ''default''"
  by (simp add: request_key_def split_on_none index_key_def)

lemma split_on_lower:
  "split_on CHR '':'' (to_lowercase s) = map to_lowercase (split_on CHR '':'' s)"
proof (induction s)
  case (Cons c s)
  have "ascii_lower c = CHR '':'' \<longleftrightarrow> c = CHR '':''" by (rule ascii_lower_colon)
  then show ?case using Cons by (auto simp: to_lowercase_def split: list.splits)
qed simp

lemma request_key_lower: "request_key (to_lowercase s) = request_key s"
proof -
  have "split_on CHR '':'' s \<noteq> []" by simp
  then show ?thesis by (auto simp: request_key_def split_on_lower Let_def)
qed

section \<open>Resolution\<close>

text \<open>
  What the router and the node state rely on: names resolve case-insensitively, and the canonical
  \<^verbatim>\<open>model:profile\<close> name of what a request resolved to resolves to the same entry again, so a request
  can be forwarded under its canonical name without changing its target.
\<close>

definition canonical :: "string \<times> profile \<Rightarrow> string" where
  "canonical e = fst e @ '':'' @ p_id (snd e)"

locale name_resolver =
  fixes look :: "string \<Rightarrow> (string \<times> profile) option"
  assumes look_lower: "look (to_lowercase s) = look s"
    and look_canonical: "look s = Some e \<Longrightarrow> look (canonical e) = Some e"
begin

lemma look_cong: "eq_ignore_ascii_case s t \<Longrightarrow> look s = look t"
  by (metis eq_ignore_ascii_case_def look_lower)

lemma look_any_case: "look s = Some e \<Longrightarrow> eq_ignore_ascii_case t (canonical e) \<Longrightarrow> look t = Some e"
  using look_canonical look_cong by metis

lemma canonical_unique:
  "look s = Some e \<Longrightarrow> look t = Some e' \<Longrightarrow> eq_ignore_ascii_case (canonical e) (canonical e') \<Longrightarrow> e = e'"
  using look_canonical look_cong by (metis option.inject)

end

lemma validated_request_key:
  "validate_cookbook cb = Ok () \<Longrightarrow> mp \<in> set (enabled_pairs cb) \<Longrightarrow>
   request_key (canonical (m_name (fst mp), snd mp)) = pair_key mp"
  using validated_pairs(1) [of cb mp]
  by (simp add: canonical_def pair_key_def pair_plain_def request_key_pair [simplified])

text \<open>The model's index satisfies the contract once the cookbook is validated.\<close>

definition validated_index :: "cookbook \<Rightarrow> model_index" where
  "validated_index cb = (if is_ok (validate_cookbook cb) then build_model_index cb else [])"

interpretation cookbook_names: name_resolver "resolve (validated_index cb)" for cb
proof
  show "resolve (validated_index cb) (to_lowercase s) = resolve (validated_index cb) s" for s
    by (simp add: resolve_def request_key_lower)
  show "resolve (validated_index cb) (canonical e) = Some e"
    if "resolve (validated_index cb) s = Some e" for s e
  proof (cases "validate_cookbook cb")
    case (Inl err)
    with that show ?thesis by (simp add: validated_index_def resolve_def)
  next
    case (Inr u)
    then have ok: "validate_cookbook cb = Ok ()" by simp
    from that Inr obtain mp where mp: "mp \<in> set (enabled_pairs cb)" "e = (m_name (fst mp), snd mp)"
      using fold_insert_sound [of "enabled_pairs cb" "[]" "request_key s" e]
      by (auto simp: validated_index_def resolve_def build_model_index_pairs)
    show ?thesis
      using validated_request_key [OF ok mp(1)] fold_insert_get [OF validated_pairs(2) [OF ok] mp(1)] mp(2) Inr
      by (simp add: resolve_def validated_index_def build_model_index_pairs)
  qed
qed

text \<open>C17. In a validated cookbook every enabled model:profile is addressable and nothing else is:
  its name in any case resolves to exactly that entry, a bare model name resolves to its default
  profile, and whatever a name resolves to is an enabled entry of the cookbook.\<close>

theorem validated_names_resolve:
  assumes "validate_cookbook cb = Ok ()"
  shows "(\<forall>(m, p) \<in> set (enabled_pairs cb). \<forall>s. eq_ignore_ascii_case s (m_name m @ '':'' @ p_id p) \<longrightarrow>
        resolve (build_model_index cb) s = Some (m_name m, p))
    \<and> (\<forall>(m, p) \<in> set (enabled_pairs cb). to_lowercase (p_id p) = ''default'' \<longrightarrow>
        resolve (build_model_index cb) (m_name m) = Some (m_name m, p))
    \<and> (\<forall>s n p. resolve (build_model_index cb) s = Some (n, p) \<longrightarrow>
        (\<exists>m. (m, p) \<in> set (enabled_pairs cb) \<and> m_name m = n))"
proof -
  have idx: "build_model_index cb = validated_index cb" using assms by (simp add: validated_index_def)
  have found: "resolve (validated_index cb) (canonical (m_name (fst mp), snd mp)) = Some (m_name (fst mp), snd mp)"
    if "mp \<in> set (enabled_pairs cb)" for mp
    using validated_request_key [OF assms that] fold_insert_get [OF validated_pairs(2) [OF assms] that]
    by (simp add: resolve_def build_model_index_pairs flip: idx)
  have any: "resolve (build_model_index cb) s = Some (m_name m, p)"
    if "(m, p) \<in> set (enabled_pairs cb)" "eq_ignore_ascii_case s (m_name m @ '':'' @ p_id p)" for m p s
    using cookbook_names.look_any_case [OF found [OF that(1)], of s] that(2) idx
    by (simp add: canonical_def)
  moreover have "resolve (build_model_index cb) (m_name m) = Some (m_name m, p)"
    if mp: "(m, p) \<in> set (enabled_pairs cb)" "to_lowercase (p_id p) = ''default''" for m p
  proof -
    have plain: "CHR '':'' \<notin> set (m_name m)" "CHR '':'' \<notin> set (p_id p)"
      using validated_pairs(1) [OF assms mp(1)] by (simp_all add: pair_plain_def)
    have "to_lowercase ''default'' = ''default''" by (simp add: to_lowercase_def ascii_lower_def)
    then have "request_key (m_name m) = request_key (m_name m @ '':'' @ p_id p)"
      using mp(2) unfolding request_key_name [OF plain(1)] request_key_pair [OF plain] index_key_def
      by argo
    then show ?thesis using any [OF mp(1), of "m_name m @ '':'' @ p_id p"] by (simp add: resolve_def)
  qed
  moreover have "\<exists>m. (m, p) \<in> set (enabled_pairs cb) \<and> m_name m = n"
    if "resolve (build_model_index cb) s = Some (n, p)" for s n p
    using that fold_insert_sound [of "enabled_pairs cb" "[]"]
    by (fastforce simp: resolve_def build_model_index_pairs)
  ultimately show ?thesis by blast
qed

definition demo_cookbook :: cookbook where
  "demo_cookbook = \<lparr>models =
     [\<lparr>m_name = ''Gpt'', m_description = None, m_enabled = True,
       profiles = [(blank_profile ''default'')\<lparr>model_path := Some ''/m/a''\<rparr>,
                   (blank_profile ''Fast'')\<lparr>model_path := Some ''/m/b''\<rparr>]\<rparr>]\<rparr>"

lemma demo_cookbook_valid: "validate_cookbook demo_cookbook = Ok ()"
  by (simp add: validate_cookbook_def demo_cookbook_def cookbook_pairs_def check_pair_def
      validate_profile_def blank_profile_def has_flag_def Let_def index_key_def
      to_lowercase_def ascii_lower_def)

theorem validated_names_resolve_witness:
  "resolve (build_model_index demo_cookbook) ''gpt:FAST''
   = Some (''Gpt'', (blank_profile ''Fast'')\<lparr>model_path := Some ''/m/b''\<rparr>)"
proof -
  have pair: "(\<lparr>m_name = ''Gpt'', m_description = None, m_enabled = True,
       profiles = [(blank_profile ''default'')\<lparr>model_path := Some ''/m/a''\<rparr>,
                   (blank_profile ''Fast'')\<lparr>model_path := Some ''/m/b''\<rparr>]\<rparr>,
      (blank_profile ''Fast'')\<lparr>model_path := Some ''/m/b''\<rparr>) \<in> set (enabled_pairs demo_cookbook)"
    by (simp add: enabled_pairs_def cookbook_pairs_def demo_cookbook_def pair_enabled_def blank_profile_def)
  have "eq_ignore_ascii_case ''gpt:FAST'' (''Gpt'' @ '':'' @ ''Fast'')"
    by (simp add: eq_ignore_ascii_case_def to_lowercase_def ascii_lower_def char_of_def bit_0)
  then show ?thesis
    using conjunct1 [OF validated_names_resolve [OF demo_cookbook_valid]] pair by (fastforce simp: blank_profile_def)
qed

text \<open>
  Profile validation reads flags trimmed and case-insensitively while the launch arguments match
  them exactly, so an unusual spelling passes validation and yields no model source at all.
\<close>

lemma validated_profile_without_source:
  "let p = (blank_profile ''default'')\<lparr>llama_server_args := [''--MODEL=x.gguf'']\<rparr> in
   validate_profile ''gpt'' p = Ok () \<and> \<not> args_are_model_source p
   \<and> fst (build_pre_args p) = [''--MODEL'', ''x.gguf'', ''-c'', ''0'', ''--fit'', ''off'']"
  by (simp add: validate_profile_def blank_profile_def has_flag_def trim_def is_white_def
      to_lowercase_def ascii_lower_def starts_with_def args_are_model_source_def build_pre_args_eq
      flag_defs spells_def expand_arg_def source_args_def Let_def char_of_def bit_0)

end
