(* ===== verification/Credentials.thy ===== *)
theory Credentials
  imports Config
begin

text \<open>
  Credentials: the API key check of \<^verbatim>\<open>src/security.rs\<close> with the header lookup of
  \<^verbatim>\<open>src/config.rs\<close>, and from \<^verbatim>\<open>src/instance.rs\<close> the backend API key of a llama-server, the parser
  of its multi-value arguments, and the redaction of secrets in logged arguments. The header map
  and the validity of a header value belong to a library and are parameters; file contents and
  environment variables are parameters because they are input.
\<close>

section \<open>Constant-time comparison\<close>

unbundle bit_operations_syntax

definition byte :: "char \<Rightarrow> u8" where
  "byte c = of_nat (of_char c)"

definition constant_time_eq :: "string \<Rightarrow> string \<Rightarrow> bool" where
  "constant_time_eq a b =
     (if length a \<noteq> length b then False
      else fold (\<lambda>(x, y) diff. diff OR (byte x XOR byte y)) (zip a b) 0 = 0)"

definition allowed_key_matches :: "string list \<Rightarrow> string \<Rightarrow> bool" where
  "allowed_key_matches keys candidate =
     fold (\<lambda>key authorized. authorized \<or> constant_time_eq key candidate) keys False"

text \<open>
  \<^verbatim>\<open>AuthConfig::get_header_value\<close>: \<open>hget\<close> and \<open>hiter\<close> are the header map's lookup and iteration,
  \<open>to_str\<close> reads a header value as text.
\<close>

definition get_header_value ::
  "('h \<Rightarrow> string \<Rightarrow> 'v option) \<Rightarrow> ('h \<Rightarrow> (string \<times> 'v) list) \<Rightarrow> ('v \<Rightarrow> string option) \<Rightarrow>
   auth_config \<Rightarrow> 'h \<Rightarrow> string option" where
  "get_header_value hget hiter to_str cfg headers =
     (case Option.bind (hget headers (required_header cfg)) to_str of
        Some v \<Rightarrow> Some v
      | None \<Rightarrow>
          (case find (\<lambda>(name, value). to_lowercase name = to_lowercase (required_header cfg)) (hiter headers) of
             Some (name, value) \<Rightarrow> to_str value
           | None \<Rightarrow> None))"

datatype auth_error = Unauthorized

definition check_api_key_auth ::
  "('h \<Rightarrow> string \<Rightarrow> 'v option) \<Rightarrow> ('h \<Rightarrow> (string \<times> 'v) list) \<Rightarrow> ('v \<Rightarrow> string option) \<Rightarrow>
   auth_config option \<Rightarrow> 'h \<Rightarrow> (unit, auth_error) result" where
  "check_api_key_auth hget hiter to_str auth_config headers =
     (case auth_config of
        Some cfg \<Rightarrow>
          (if auth_enabled cfg then
             (let authorized = (case get_header_value hget hiter to_str cfg headers of
                 Some key \<Rightarrow> allowed_key_matches (allowed_keys cfg) key
               | None \<Rightarrow> False)
              in if \<not> authorized then Err Unauthorized else Ok ())
           else Ok ())
      | None \<Rightarrow> Ok ())"

lemma byte_inject: "byte c = byte d \<longleftrightarrow> c = d"
proof
  assume "byte c = byte d"
  then have "unat (byte c) = unat (byte d)" by simp
  then have "(of_char c :: nat) = of_char d"
    using nat_of_char_less_256 [of c] nat_of_char_less_256 [of d]
    by (simp add: byte_def unsigned_of_nat take_bit_eq_mod)
  then show "c = d" by (simp only: of_char_eq_iff)
qed simp

lemma diff_zero:
  "fold (\<lambda>(x, y) diff. diff OR (byte x XOR byte y)) ps d = 0 \<longleftrightarrow> d = 0 \<and> (\<forall>(x, y) \<in> set ps. x = y)"
proof (induction ps arbitrary: d)
  case (Cons p ps)
  have xor: "byte x XOR byte y = 0 \<longleftrightarrow> x = y" for x y
  proof
    assume "byte x XOR byte y = 0"
    then have "(byte x XOR byte y) XOR byte y = byte y" by simp
    then show "x = y" by (simp add: xor.assoc byte_inject)
  qed simp
  show ?case
    by (cases p) (auto simp: Cons.IH xor or_eq_0_iff)
qed simp

lemma constant_time_eq_iff: "constant_time_eq a b \<longleftrightarrow> a = b"
proof (cases "length a = length b")
  case True
  have "(\<forall>(x, y) \<in> set (zip a b). x = y) \<longleftrightarrow> a = b"
    using True by (induction a b rule: list_induct2) auto
  then show ?thesis using True by (simp add: constant_time_eq_def diff_zero)
qed (auto simp: constant_time_eq_def)

lemma allowed_key_matches_iff: "allowed_key_matches keys candidate \<longleftrightarrow> candidate \<in> set keys"
proof -
  have "fold (\<lambda>key authorized. authorized \<or> constant_time_eq key candidate) ks b
      \<longleftrightarrow> b \<or> candidate \<in> set ks" for ks b
    by (induction ks arbitrary: b) (auto simp: constant_time_eq_iff)
  then show ?thesis by (simp add: allowed_key_matches_def)
qed

text \<open>The API key check decides by equality with a configured key although it compares every byte
  of every key without stopping early: it fails exactly when authentication is enabled and the
  configured header carries no value or a value that is none of the allowed keys.\<close>

theorem check_api_key_auth_iff:
  "check_api_key_auth hget hiter to_str config headers = Err Unauthorized \<longleftrightarrow>
     (\<exists>cfg. config = Some cfg \<and> auth_enabled cfg
        \<and> (case get_header_value hget hiter to_str cfg headers of
             None \<Rightarrow> True | Some key \<Rightarrow> key \<notin> set (allowed_keys cfg)))"
  by (auto simp: check_api_key_auth_def allowed_key_matches_iff Let_def split: option.splits)

section \<open>Multi-value arguments\<close>

text \<open>The loop of \<^verbatim>\<open>parse_csv_row\<close>: the fields so far, the field being read, and the quote state.\<close>

abbreviation quote :: char where "quote \<equiv> CHR 0x22"

fun parse_csv :: "string list \<Rightarrow> string \<Rightarrow> bool \<Rightarrow> string \<Rightarrow> string list" where
  "parse_csv row field in_quotes [] = row @ [field]"
| "parse_csv row field in_quotes (ch # cs) =
     (if ch = quote then
        if \<not> in_quotes then
          if field = [] then parse_csv row field True cs
          else parse_csv row (field @ [quote]) in_quotes cs
        else (case cs of
            d # ds \<Rightarrow> if d = quote then parse_csv row (field @ [quote]) in_quotes ds
                      else parse_csv row field False cs
          | [] \<Rightarrow> parse_csv row field False cs)
      else if ch = CHR '','' \<and> \<not> in_quotes then parse_csv (row @ [field]) [] in_quotes cs
      else parse_csv row (field @ [ch]) in_quotes cs)"

definition parse_csv_row :: "string \<Rightarrow> string list" where
  "parse_csv_row input = parse_csv [] [] False input"

definition first_listed_key :: "string \<Rightarrow> string option" where
  "first_listed_key keys = find (\<lambda>key. key \<noteq> []) (parse_csv_row keys)"

text \<open>The quoting llama.cpp expects, as a reference printer.\<close>

definition quote_field :: "string \<Rightarrow> string" where
  "quote_field f = quote # concat (map (\<lambda>c. if c = quote then [quote, quote] else [c]) f) @ [quote]"

fun print_row :: "string list \<Rightarrow> string" where
  "print_row [] = []"
| "print_row [f] = quote_field f"
| "print_row (f # fs) = quote_field f @ '','' @ print_row fs"

lemma parse_csv_quoted:
  assumes "rest = [] \<or> hd rest \<noteq> quote"
  shows "parse_csv row acc True
      (concat (map (\<lambda>c. if c = quote then [quote, quote] else [c]) f) @ quote # rest)
    = parse_csv row (acc @ f) False rest"
proof (induction f arbitrary: acc)
  case Nil
  show ?case using assms by (cases rest) auto
next
  case (Cons c f)
  show ?case using Cons.IH [of "acc @ [c]"] by (cases "c = quote") auto
qed

lemma parse_csv_print:
  "fs \<noteq> [] \<Longrightarrow> parse_csv row [] False (print_row fs) = row @ fs"
proof (induction fs arbitrary: row rule: print_row.induct)
  case (2 f)
  show ?case using parse_csv_quoted [of "[]" row "[]" f] by (simp add: quote_field_def)
next
  case (3 f g gs)
  have "parse_csv row [] False (print_row (f # g # gs)) = parse_csv row f False (CHR '','' # print_row (g # gs))"
    using parse_csv_quoted [of "CHR '','' # print_row (g # gs)" row "[]" f]
    by (simp add: quote_field_def)
  then show ?case using 3 by simp
qed simp

text \<open>Reading a row of quoted fields gives back the fields, whatever commas and quotes they
  contain.\<close>

theorem parse_csv_row_roundtrip: "fs \<noteq> [] \<Longrightarrow> parse_csv_row (print_row fs) = fs"
  by (simp add: parse_csv_row_def parse_csv_print)

theorem parse_csv_row_roundtrip_witness:
  "parse_csv_row (print_row [''a,b'', [quote], '''']) = [''a,b'', [quote], '''']"
  using parse_csv_row_roundtrip [of "[''a,b'', [quote], '''']"] by simp

section \<open>The backend API key\<close>

text \<open>Validity of UTF-8 as \<^verbatim>\<open>String::from_utf8\<close> decides it, on the byte values.\<close>

definition cont_byte :: "nat \<Rightarrow> bool" where
  "cont_byte b = (128 \<le> b \<and> b \<le> 191)"

fun valid_utf8 :: "nat list \<Rightarrow> bool" where
  "valid_utf8 [] = True"
| "valid_utf8 (a # as) =
     (if a < 128 then valid_utf8 as
      else if 194 \<le> a \<and> a \<le> 223 then
        (case as of b # bs \<Rightarrow> cont_byte b \<and> valid_utf8 bs | _ \<Rightarrow> False)
      else if 224 \<le> a \<and> a \<le> 239 then
        (case as of b # c # cs \<Rightarrow>
           cont_byte b \<and> (a = 224 \<longrightarrow> 160 \<le> b) \<and> (a = 237 \<longrightarrow> b \<le> 159) \<and> cont_byte c \<and> valid_utf8 cs
         | _ \<Rightarrow> False)
      else if 240 \<le> a \<and> a \<le> 244 then
        (case as of b # c # d # ds \<Rightarrow>
           cont_byte b \<and> (a = 240 \<longrightarrow> 144 \<le> b) \<and> (a = 244 \<longrightarrow> b \<le> 143) \<and> cont_byte c \<and> cont_byte d
             \<and> valid_utf8 ds
         | _ \<Rightarrow> False)
      else False)"

datatype key_error = CannotOpenKeyFile string | KeyNotUtf8 string | KeyNotSendable bool

text \<open>\<open>read_file\<close> is the content of a file, if it can be opened and read.\<close>

definition first_key_in_file ::
  "(string \<Rightarrow> string option) \<Rightarrow> string \<Rightarrow> (string option, key_error) result" where
  "first_key_in_file read_file path = (case read_file path of
     None \<Rightarrow> Err (CannotOpenKeyFile path)
   | Some content \<Rightarrow>
       (case find (\<lambda>line. line \<noteq> [] \<and> hd line \<noteq> CHR ''#'') (split_on CHR 0x0A content) of
          None \<Rightarrow> Ok None
        | Some line \<Rightarrow> if valid_utf8 (map of_char line) then Ok (Some line) else Err (KeyNotUtf8 path)))"

definition dashed :: "string \<Rightarrow> string" where
  "dashed s = map (\<lambda>c. if c = CHR ''_'' then CHR ''-'' else c) s"

abbreviation or_else :: "'a option \<Rightarrow> 'a option \<Rightarrow> 'a option" where
  "or_else a b \<equiv> (case a of Some x \<Rightarrow> Some x | None \<Rightarrow> b)"

text \<open>The loop over the arguments; the key options take the next argument as their value.\<close>

fun key_from_args ::
  "(string \<Rightarrow> string option) \<Rightarrow> string option \<Rightarrow> string list \<Rightarrow> (string option, key_error) result" where
  "key_from_args read_file key [] = Ok key"
| "key_from_args read_file key (arg # rest) =
     (if \<not> starts_with arg ''--'' then key_from_args read_file key rest
      else if dashed arg = ''--api-key'' then
        (case rest of
           keys # rest' \<Rightarrow> key_from_args read_file (or_else (first_listed_key keys) key) rest'
         | [] \<Rightarrow> Ok key)
      else if dashed arg = ''--api-key-file'' then
        (case rest of
           path # rest' \<Rightarrow>
             (case first_key_in_file read_file path of
                Inl e \<Rightarrow> Err e
              | Inr found \<Rightarrow> key_from_args read_file (or_else found key) rest')
         | [] \<Rightarrow> Ok key)
      else key_from_args read_file key rest)"

definition backend_api_key_with_env ::
  "(string \<Rightarrow> string option) \<Rightarrow> (string \<Rightarrow> bool) \<Rightarrow> (string \<Rightarrow> string option) \<Rightarrow> string list \<Rightarrow>
   (string option, key_error) result" where
  "backend_api_key_with_env read_file header_ok env args =
     (case key_from_args read_file None args of
        Inl e \<Rightarrow> Err e
      | Inr key \<Rightarrow>
          (let key1 = or_else key (Option.bind (env ''LLAMA_API_KEY'') first_listed_key) in
           case (if key1 = None
                 then (case env ''LLAMA_ARG_API_KEY_FILE'' of
                         Some path \<Rightarrow> first_key_in_file read_file path | None \<Rightarrow> Ok None)
                 else Ok key1) of
             Inl e \<Rightarrow> Err e
           | Inr None \<Rightarrow> Ok None
           | Inr (Some k) \<Rightarrow>
               if header_ok (''Bearer '' @ k) then Ok (Some k)
               else Err (KeyNotSendable (k \<noteq> [] \<and> last k = CHR 0x0D))))"

lemma key_file_nonempty [simp]: "first_key_in_file read_file path \<noteq> Ok (Some [])"
  by (auto simp: first_key_in_file_def find_Some_iff split: option.splits if_splits)

lemma listed_key_nonempty [simp]: "first_listed_key keys \<noteq> Some []"
  by (auto simp: first_listed_key_def find_Some_iff)

lemma key_from_args_nonempty:
  "key \<noteq> Some [] \<Longrightarrow> key_from_args read_file key args \<noteq> Ok (Some [])"
proof (induction read_file key args rule: key_from_args.induct)
  case (2 read_file key arg rest)
  have merged: "or_else found key \<noteq> Some []" if "found \<noteq> Some []" for found
    using that 2(5) by (cases found) auto
  consider "\<not> starts_with arg ''--''"
    | "starts_with arg ''--''" "dashed arg = ''--api-key''"
    | "starts_with arg ''--''" "dashed arg = ''--api-key-file''"
    | "starts_with arg ''--''" "dashed arg \<noteq> ''--api-key''" "dashed arg \<noteq> ''--api-key-file''"
    by blast
  then show ?case
  proof cases
    case 1
    then show ?thesis using 2 by simp
  next
    case k: 2
    show ?thesis
      using k 2(2) [OF _ k(2)] 2(5) merged [OF listed_key_nonempty] by (cases rest) simp_all
  next
    case k: 3
    then show ?thesis
    proof (cases rest)
      case (Cons path rest')
      show ?thesis
      proof (cases "first_key_in_file read_file path")
        case (Inr found)
        then have "found \<noteq> Some []" using key_file_nonempty [of read_file path] by auto
        then show ?thesis using k Inr Cons 2(3) merged by simp
      qed (simp add: k Cons)
    qed (use 2(5) in simp)
  next
    case 4
    then show ?thesis using 2 by simp
  qed
qed simp

text \<open>The key the proxy authenticates with is never empty and always fits in a header, and a key
  given by the arguments wins over the environment: as soon as the arguments yield a key, the result
  does not depend on the environment.\<close>

theorem backend_api_key_sound:
  "(backend_api_key_with_env read_file header_ok env args = Ok (Some k) \<longrightarrow>
      k \<noteq> [] \<and> header_ok (''Bearer '' @ k))
   \<and> (key_from_args read_file None args = Ok (Some k) \<longrightarrow>
      backend_api_key_with_env read_file header_ok env args =
        (if header_ok (''Bearer '' @ k) then Ok (Some k)
         else Err (KeyNotSendable (last k = CHR 0x0D))))"
proof -
  have nonempty: "key_from_args read_file None args \<noteq> Ok (Some [])"
    by (rule key_from_args_nonempty) simp
  have env: "Option.bind (env v) first_listed_key \<noteq> Some []" for v
    by (cases "env v") simp_all
  show ?thesis
    using nonempty env
    by (auto simp: backend_api_key_with_env_def Let_def split: option.splits sum.splits if_splits)
qed

theorem backend_api_key_sound_witness:
  "backend_api_key_with_env (\<lambda>_. None) (\<lambda>_. True) (\<lambda>_. Some ''env'') [''--api_key'', '',k'']
   = Ok (Some ''k'')"
proof -
  have "key_from_args (\<lambda>_. None) None [''--api_key'', '',k''] = Ok (Some ''k'')"
    by (simp add: starts_with_def dashed_def first_listed_key_def parse_csv_row_def)
  with backend_api_key_sound [of "\<lambda>_. None" "\<lambda>_. True" "\<lambda>_. Some ''env''" "[''--api_key'', '',k'']" "''k''"]
  show ?thesis by simp
qed

section \<open>Redaction\<close>

definition secret_value_options :: "string list" where
  "secret_value_options = [''--api-key'', ''--hf-token'', ''-hft'']"

definition redacted :: string where "redacted = ''<redacted>''"

definition is_secret_option :: "string \<Rightarrow> bool" where
  "is_secret_option name =
     ((if starts_with name ''--'' then dashed name else name) \<in> set secret_value_options)"

fun redact_args :: "bool \<Rightarrow> string list \<Rightarrow> string list" where
  "redact_args redact_next [] = []"
| "redact_args redact_next (arg # rest) =
     (if redact_next then redacted # redact_args False rest
      else if is_secret_option arg then arg # redact_args True rest
      else (case split_once CHR ''='' arg of
          Some (name, val) \<Rightarrow>
            if is_secret_option name then (name @ ''='' @ redacted) # redact_args False rest
            else arg # redact_args False rest
        | None \<Rightarrow> arg # redact_args False rest))"

definition redact_secret_args :: "string list \<Rightarrow> string list" where
  "redact_secret_args args = redact_args False args"

text \<open>
  Two argument lists an observer of the log may not distinguish: they agree except in the values of
  secret options, in either spelling.
\<close>

definition secret_name :: "string \<Rightarrow> string option" where
  "secret_name arg = (case split_once CHR ''='' arg of
     Some (name, _) \<Rightarrow> if is_secret_option name then Some name else None | None \<Rightarrow> None)"

fun agree_up_to_secrets :: "bool \<Rightarrow> string list \<Rightarrow> string list \<Rightarrow> bool" where
  "agree_up_to_secrets is_value [] [] = True"
| "agree_up_to_secrets is_value (a # as) (b # bs) =
     (if is_value then agree_up_to_secrets False as bs
      else (a = b \<or> secret_name a \<noteq> None \<and> secret_name a = secret_name b)
           \<and> agree_up_to_secrets (is_secret_option a) as bs)"
| "agree_up_to_secrets is_value _ _ = False"

lemma secret_option_plain: "is_secret_option name \<Longrightarrow> CHR ''='' \<notin> set name"
proof
  assume s: "is_secret_option name" and e: "CHR ''='' \<in> set name"
  from e have "CHR ''='' \<in> set (dashed name)" by (force simp: dashed_def)
  with s e show False
    by (auto simp: is_secret_option_def secret_value_options_def split: if_splits)
qed

text \<open>What one argument looks like in the log.\<close>

definition shown :: "string \<Rightarrow> string" where
  "shown arg = (case secret_name arg of Some name \<Rightarrow> name @ ''='' @ redacted | None \<Rightarrow> arg)"

lemma redact_args_Cons:
  "redact_args r (a # as) =
     (if r then redacted else shown a) # redact_args (\<not> r \<and> is_secret_option a) as"
proof -
  have "is_secret_option a \<Longrightarrow> split_once CHR ''='' a = None"
    using secret_option_plain by (simp add: split_once_None)
  then show ?thesis by (auto simp: shown_def secret_name_def split: option.splits)
qed

lemma secret_name_shown: "secret_name (shown a) = secret_name a"
  by (auto simp: shown_def secret_name_def split_once_append secret_option_plain split: option.splits)

lemma shown_eq_iff: "shown a = shown b \<longleftrightarrow> a = b \<or> secret_name a \<noteq> None \<and> secret_name a = secret_name b"
proof
  assume eq: "shown a = shown b"
  then have "secret_name a = secret_name b" by (metis secret_name_shown)
  then show "a = b \<or> secret_name a \<noteq> None \<and> secret_name a = secret_name b"
    using eq by (cases "secret_name a") (auto simp: shown_def)
qed (auto simp: shown_def split: option.splits)

lemma secret_option_shown: "is_secret_option (shown a) = is_secret_option a"
proof (cases "secret_name a")
  case (Some n)
  then have "CHR ''='' \<in> set a" "CHR ''='' \<in> set (shown a)"
    by (auto simp: shown_def secret_name_def split_once_Some split: option.splits if_splits)
  then show ?thesis using secret_option_plain by blast
qed (simp add: shown_def)

text \<open>The logged arguments reveal nothing about secret values and everything else: two argument
  lists are logged alike exactly when they agree up to the values of the secret options.\<close>

theorem redaction_hides_exactly_secrets:
  "redact_secret_args as = redact_secret_args bs \<longleftrightarrow> agree_up_to_secrets False as bs"
proof -
  have "redact_args r as = redact_args r bs \<longleftrightarrow> agree_up_to_secrets r as bs" for r
  proof (induction r as bs rule: agree_up_to_secrets.induct)
    case (2 r a as b bs)
    have same: "is_secret_option a = is_secret_option b" if "shown a = shown b"
      using that by (metis secret_option_shown)
    show ?case
    proof (cases "r \<or> shown a \<noteq> shown b")
      case True
      then show ?thesis using 2 by (auto simp: redact_args_Cons shown_eq_iff simp del: redact_args.simps)
    next
      case False
      then show ?thesis
        using 2(2) same shown_eq_iff [of a b] by (simp add: redact_args_Cons del: redact_args.simps)
    qed
  qed (simp_all add: redact_args_Cons del: redact_args.simps(2))
  then show ?thesis by (simp add: redact_secret_args_def)
qed

end
