(* ===== verification/Instances.thy ===== *)
theory Instances
  imports Config Spawn_Reservations
begin

text \<open>
  A llama-server instance (\<^verbatim>\<open>src/instance.rs\<close>): its record, its start-up status, the claim of a
  failed start, the poll of its process, and what these do to the memory token the instance owns.
  The buffered log, the parsed parameters and the wake-up signals carry no scheduling state and are
  left out. The process is its pid; what polling the operating system reports is an argument.
\<close>

datatype instance_status = Starting | Ready | Failed

record llama_instance =
  i_id :: string
  i_model_name :: string
  i_profile_id :: string
  i_host :: string
  i_port :: u16
  i_start_time :: instant
  i_last_activity :: instant
  i_child :: "u32 option"
  in_flight_requests :: nat
  i_status :: instance_status
  i_args_hash :: string
  is_cold_start :: bool
  draining :: bool
  draining_for_competitor :: bool
  evictable_after :: "instant option"
  llama_cpp_version :: "string option"
  i_memory_reservation :: "string option"
  streams_awaiting_downstream :: nat
  startup_failure_claimed :: bool
  i_backend_api_key :: "string option"

type_synonym instances = "(string, llama_instance) hashmap"

definition is_ready :: "llama_instance \<Rightarrow> bool" where
  "is_ready i = (i_status i = Ready)"

definition has_failed :: "llama_instance \<Rightarrow> bool" where
  "has_failed i = (i_status i = Failed)"

definition is_loading :: "llama_instance \<Rightarrow> bool" where
  "is_loading i = (i_status i = Starting)"

definition get_pid :: "llama_instance \<Rightarrow> u32 option" where
  "get_pid i = i_child i"

definition claim_startup_failure :: "llama_instance \<Rightarrow> bool \<times> llama_instance" where
  "claim_startup_failure i = (\<not> startup_failure_claimed i, i\<lparr>startup_failure_claimed := True\<rparr>)"

text \<open>The token operations of an instance act on the token world by identifier.\<close>

definition reservation_ready :: "string option \<Rightarrow> token_world \<Rightarrow> token_world" where
  "reservation_ready rid w = (case Option.bind rid (tw_cells w) of
     Some c \<Rightarrow> w\<lparr>tw_registry := token_mark_ready (tc_token c) (tw_registry w)\<rparr> | None \<Rightarrow> w)"

definition reservation_finish :: "string option \<Rightarrow> token_world \<Rightarrow> token_world" where
  "reservation_finish rid w = (case rid of
     Some r \<Rightarrow> (case tw_cells w r of Some c \<Rightarrow> world_finish r c w | None \<Rightarrow> w) | None \<Rightarrow> w)"

definition mark_ready_instance :: "llama_instance \<Rightarrow> token_world \<Rightarrow> llama_instance \<times> token_world" where
  "mark_ready_instance i w =
     (i\<lparr>i_status := Ready\<rparr>, reservation_ready (i_memory_reservation i) w)"

definition mark_failed :: "llama_instance \<Rightarrow> llama_instance" where
  "mark_failed i = i\<lparr>i_status := Failed\<rparr>"

text \<open>
  \<^verbatim>\<open>is_alive\<close>: the poll reports a running child, an exit with its success flag and signal, or an
  error. The reaper of a child that could not be polled finishes the token later: the second
  component says whether such a reaper was started; the third is the crash counter.
\<close>

datatype wait_result = StillRunning | Exited bool "nat option" | PollError

abbreviation sigterm :: nat where "sigterm \<equiv> 15"

record poll_outcome =
  po_alive :: bool
  po_instance :: llama_instance
  po_world :: token_world
  po_reaper :: bool
  po_crashed :: nat

definition is_alive :: "wait_result \<Rightarrow> llama_instance \<Rightarrow> token_world \<Rightarrow> nat \<Rightarrow> poll_outcome" where
  "is_alive wr i w crashed = (case i_child i of
     None \<Rightarrow> \<lparr>po_alive = False, po_instance = i, po_world = w, po_reaper = False, po_crashed = crashed\<rparr>
   | Some pid \<Rightarrow>
       (case wr of
          Exited ok sig \<Rightarrow>
            \<lparr>po_alive = False, po_instance = i\<lparr>i_child := None\<rparr>,
             po_world = reservation_finish (i_memory_reservation i) w, po_reaper = False,
             po_crashed = (if \<not> ok \<and> sig \<noteq> Some sigterm then crashed + 1 else crashed)\<rparr>
        | StillRunning \<Rightarrow>
            \<lparr>po_alive = True, po_instance = i, po_world = w, po_reaper = False, po_crashed = crashed\<rparr>
        | PollError \<Rightarrow>
            \<lparr>po_alive = False, po_instance = i\<lparr>i_child := None\<rparr>, po_world = w, po_reaper = True,
             po_crashed = crashed\<rparr>))"

section \<open>Facts about instances\<close>

text \<open>Of any number of waiters that wake from a failed start, exactly the first claims it.\<close>

fun claims :: "nat \<Rightarrow> llama_instance \<Rightarrow> bool list" where
  "claims 0 i = []"
| "claims (Suc n) i = fst (claim_startup_failure i) # claims n (snd (claim_startup_failure i))"

lemma claims_after: "startup_failure_claimed i \<Longrightarrow> claims n i = replicate n False"
  by (induction n arbitrary: i) (simp_all add: claim_startup_failure_def)

lemma claims_first: "\<not> startup_failure_claimed i \<Longrightarrow> claims (Suc n) i = True # replicate n False"
  by (simp add: claim_startup_failure_def claims_after)

text \<open>The token operations of a mapped instance are steps of the token world.\<close>

lemma reservation_ready_step:
  "tw_cells w r = Some c \<Longrightarrow> 0 < tc_owners c \<Longrightarrow> token_step w (reservation_ready (Some r) w)"
  using step_mark_ready [of w r c] by (simp add: reservation_ready_def)

lemma reservation_finish_step:
  "tw_cells w r = Some c \<Longrightarrow> 0 < tc_owners c \<Longrightarrow> token_step w (reservation_finish (Some r) w)"
  using step_finish [of w r c] by (simp add: reservation_finish_def)

text \<open>Polling a process is sound for the accounting: an instance is reported alive only while its
  child is running and then nothing changes, and an observed exit detaches the child and removes the
  instance's memory commitment from the registry, while an exit by success or by SIGTERM is not counted
  as a crash.\<close>

theorem is_alive_accounting:
  assumes "world_ok w" "i_memory_reservation i = Some r" "tw_cells w r = Some c"
  shows "(po_alive (is_alive wr i w n) \<longleftrightarrow> i_child i \<noteq> None \<and> wr = StillRunning)
    \<and> (po_alive (is_alive wr i w n) \<longrightarrow> po_instance (is_alive wr i w n) = i \<and> po_world (is_alive wr i w n) = w)
    \<and> (i_child i \<noteq> None \<and> wr = Exited ok sig \<longrightarrow>
        i_child (po_instance (is_alive wr i w n)) = None
        \<and> hm_get (entries (tw_registry (po_world (is_alive wr i w n)))) r = None
        \<and> world_ok (po_world (is_alive wr i w n))
        \<and> po_crashed (is_alive wr i w n) = (if ok \<or> sig = Some sigterm then n else n + 1))"
proof -
  have cell: "cell_ok r c" using assms(1,3) by (rule world_ok_cell)
  have ok: "world_ok (world_finish r c w)"
    using cell by (intro world_ok_finish [OF assms(1,3)]) (auto simp: cell_ok_def)
  have "r \<notin> live_ids (world_finish r c w)"
    by (auto simp: live_ids_def world_finish_def finish_def Let_def)
  then have "r \<notin> set (hm_keys (entries (tw_registry (world_finish r c w))))"
    using ok by (simp add: world_ok_def)
  then have "hm_get (entries (tw_registry (world_finish r c w))) r = None"
    by (auto simp: map_of_eq_None_iff)
  with ok show ?thesis
    using assms(2,3)
    by (auto simp: is_alive_def reservation_finish_def split: option.splits wait_result.splits)
qed

definition blank_instance :: llama_instance where
  "blank_instance = \<lparr>i_id = ''a'', i_model_name = ''gpt'', i_profile_id = ''default'',
     i_host = ''127.0.0.1'', i_port = 9000, i_start_time = 0, i_last_activity = 0,
     i_child = Some 7, in_flight_requests = 0, i_status = Starting, i_args_hash = ''h'',
     is_cold_start = True, draining = False, draining_for_competitor = False,
     evictable_after = None, llama_cpp_version = None, i_memory_reservation = Some ''a'',
     streams_awaiting_downstream = 0, startup_failure_claimed = False, i_backend_api_key = None\<rparr>"

theorem is_alive_accounting_witness:
  "hm_get (entries (tw_registry (po_world (is_alive (Exited False (Some 9)) blank_instance demo_world 0)))) ''a'' = None"
  using is_alive_accounting [OF world_ok_reachable [OF demo_reachable], of blank_instance "''a''"
      "new_cell ''a'' True" "Exited False (Some 9)" 0 False "Some 9"]
  by (simp add: blank_instance_def demo_world_def empty_world_def)

end
