(* ===== verification/Resources.thy ===== *)
theory Resources
  imports Instances
begin

text \<open>
  Memory accounting and admission of \<^verbatim>\<open>src/node_state/mod.rs\<close>: the resource snapshot, the accounting
  over reservations and unregistered instances, the memory estimates, the choice of eviction
  victims and the spawn plan. What the memory sampler and the learned-memory table report is the
  record \<open>observation\<close>.
\<close>

section \<open>Data\<close>

datatype node_error =
    Draining
  | MaxInstancesProfile
  | MaxInstancesNode
  | QueueFull
  | QueueTimeout
  | QueueError
  | ModelNotFound string
  | InsufficientResources
  | YieldToWaiters
  | SpawnFailuresExhausted
  | NodeNoAvailablePorts
  | NodePortInUse u16
  | MissingHostArg string
  | MissingPortArg string
  | InvalidPortArg string string
  | OtherError

record resource_snapshot =
  llamesh_vram_mb :: u64
  llamesh_sysmem_mb :: u64
  external_vram_mb :: u64
  effective_vram_mb :: u64
  effective_sysmem_mb :: u64
  device_vram_used_mb :: u64
  device_vram_total_mb :: u64
  gpu_telemetry_available :: bool
  active_instances :: u64

record resource_accounting =
  resources :: resource_snapshot
  reservations :: reservation_state
  instance_memory :: "(string, u64 \<times> u64) hashmap"

record spawn_plan =
  victims :: "string list"
  plan_revision :: u64

text \<open>The samples: per process, per process as a pair, for the devices, and learned per argument hash.\<close>

record observation =
  sample_vram :: "u32 \<Rightarrow> u64 option"
  sample_sysmem :: "u32 \<Rightarrow> u64 option"
  sample_pair :: "u32 \<Rightarrow> u64 \<times> u64"
  sample_device_vram :: "(u64 \<times> u64) option"
  learned_memory :: "string \<Rightarrow> (u64 \<times> u64) option"

section \<open>Accounting\<close>

definition from_samples :: "u64 \<Rightarrow> u64 \<Rightarrow> (u64 \<times> u64) option \<Rightarrow> u64 \<Rightarrow> resource_snapshot" where
  "from_samples vram sysmem device active =
     (let (used, total, available) =
        (case device of Some (u, t) \<Rightarrow> (u, t, True) | None \<Rightarrow> (0, 0, False));
          external = sat_sub used vram
      in \<lparr>llamesh_vram_mb = vram, llamesh_sysmem_mb = sysmem, external_vram_mb = external,
          effective_vram_mb = vram + external, effective_sysmem_mb = sysmem,
          device_vram_used_mb = used, device_vram_total_mb = total,
          gpu_telemetry_available = available, active_instances = active\<rparr>)"

definition get_memory_for_instance :: "observation \<Rightarrow> llama_instance \<Rightarrow> u64 \<times> u64" where
  "get_memory_for_instance obs i =
     (let learned = (case learned_memory obs (i_args_hash i) of Some m \<Rightarrow> m | None \<Rightarrow> (0, 0)) in
      case get_pid i of
        Some pid \<Rightarrow> (let live = sample_pair obs pid in
          if 0 < fst live \<or> 0 < snd live then live else learned)
      | None \<Rightarrow> learned)"

definition get_memory_estimate :: "observation \<Rightarrow> string \<Rightarrow> profile \<Rightarrow> u64 \<times> u64" where
  "get_memory_estimate obs args_hash p =
     (let (vram, sysmem) = (case learned_memory obs args_hash of Some m \<Rightarrow> m | None \<Rightarrow> (0, 0)) in
      (if 0 < vram then vram else (case estimated_vram_mb p of Some e \<Rightarrow> e | None \<Rightarrow> 0),
       if 0 < sysmem then sysmem else (case estimated_sysmem_mb p of Some e \<Rightarrow> e | None \<Rightarrow> 0)))"

text \<open>What one registry entry has observed and what it still has promised, in one dimension.\<close>

definition observed_of :: "u64 option \<Rightarrow> u64" where
  "observed_of live = (case live of Some v \<Rightarrow> v | None \<Rightarrow> 0)"

definition committed_of :: "bool \<Rightarrow> u64 \<Rightarrow> u64 option \<Rightarrow> u64" where
  "committed_of ready estimate live =
     (if \<not> ready \<or> live = None then sat_sub estimate (observed_of live) else 0)"

definition live_of :: "(u32 \<Rightarrow> u64 option) \<Rightarrow> memory_commitment \<Rightarrow> u64 option" where
  "live_of smp e = (case mc_pid e of Some pid \<Rightarrow> smp pid | None \<Rightarrow> None)"

record running_totals =
  t_vram :: u64
  t_sysmem :: u64
  t_promised_vram :: u64
  t_promised_sysmem :: u64
  t_memory :: "(string, u64 \<times> u64) hashmap"

definition account_entry ::
  "observation \<Rightarrow> string \<times> memory_commitment \<Rightarrow> running_totals \<Rightarrow> running_totals" where
  "account_entry obs entry t =
     (let (rid, e) = entry;
          live_vram = live_of (sample_vram obs) e;
          live_sysmem = live_of (sample_sysmem obs) e;
          committed_vram = committed_of (mc_ready e) (fst (mc_estimate e)) live_vram;
          committed_sysmem = committed_of (mc_ready e) (snd (mc_estimate e)) live_sysmem
      in \<lparr>t_vram = sat_add (t_vram t) (observed_of live_vram),
          t_sysmem = sat_add (t_sysmem t) (observed_of live_sysmem),
          t_promised_vram = sat_add (t_promised_vram t) committed_vram,
          t_promised_sysmem = sat_add (t_promised_sysmem t) committed_sysmem,
          t_memory = hm_insert rid
            (sat_add (observed_of live_vram) committed_vram,
             sat_add (observed_of live_sysmem) committed_sysmem) (t_memory t)\<rparr>)"

text \<open>Instances constructed outside the scheduler have no registry lease.\<close>

definition account_instance ::
  "observation \<Rightarrow> string \<times> llama_instance \<Rightarrow> running_totals \<Rightarrow> running_totals" where
  "account_instance obs entry t =
     (let (rid, i) = entry in
      if i_memory_reservation i = None then
        (let (v, s) = get_memory_for_instance obs i in
         t\<lparr>t_vram := sat_add (t_vram t) v, t_sysmem := sat_add (t_sysmem t) s,
           t_memory := hm_insert rid (v, s) (t_memory t)\<rparr>)
      else t)"

definition zero_totals :: running_totals where
  "zero_totals = \<lparr>t_vram = 0, t_sysmem = 0, t_promised_vram = 0, t_promised_sysmem = 0, t_memory = []\<rparr>"

definition resource_totals ::
  "observation \<Rightarrow> reservation_state \<Rightarrow> instances \<Rightarrow> running_totals" where
  "resource_totals obs reg insts =
     fold (account_instance obs) insts (fold (account_entry obs) (entries reg) zero_totals)"

definition resource_accounting_for_instances ::
  "observation \<Rightarrow> reservation_state \<Rightarrow> instances \<Rightarrow> resource_accounting" where
  "resource_accounting_for_instances obs reg insts =
     (let snap = snapshot reg;
          t = resource_totals obs snap insts;
          r = from_samples (t_vram t) (t_sysmem t) (sample_device_vram obs)
                (of_nat (length insts + node_total snap))
      in \<lparr>resources = r\<lparr>effective_vram_mb := sat_add (effective_vram_mb r) (t_promised_vram t),
                        effective_sysmem_mb := sat_add (effective_sysmem_mb r) (t_promised_sysmem t)\<rparr>,
          reservations = snap, instance_memory = t_memory t\<rparr>)"

section \<open>Victims\<close>

record candidate =
  c_id :: string
  c_last_activity :: instant
  c_vram :: u64
  c_sysmem :: u64

text \<open>The running estimate of what is in use: memory in both dimensions and the instance count.\<close>

record usage =
  u_vram :: u64
  u_sysmem :: u64
  u_count :: nat

definition fits :: "node_config \<Rightarrow> u64 \<times> u64 \<Rightarrow> usage \<Rightarrow> bool" where
  "fits cfg required u =
     (sat_add (u_vram u) (fst required) \<le> max_vram_mb cfg
      \<and> sat_add (u_sysmem u) (snd required) \<le> max_sysmem_mb cfg
      \<and> u_count u < max_instances_per_node cfg)"

definition memory_fits :: "node_config \<Rightarrow> u64 \<times> u64 \<Rightarrow> usage \<Rightarrow> bool" where
  "memory_fits cfg required u =
     (sat_add (u_vram u) (fst required) \<le> max_vram_mb cfg
      \<and> sat_add (u_sysmem u) (snd required) \<le> max_sysmem_mb cfg)"

definition evict_one :: "candidate \<Rightarrow> usage \<Rightarrow> usage" where
  "evict_one c u = \<lparr>u_vram = sat_sub (u_vram u) (c_vram c), u_sysmem = sat_sub (u_sysmem u) (c_sysmem c),
                    u_count = u_count u - 1\<rparr>"

definition candidates_of :: "instances \<Rightarrow> resource_accounting \<Rightarrow> candidate list" where
  "candidates_of insts acc = map (\<lambda>(rid, i).
       let (v, s) = (case hm_get (instance_memory acc) rid of Some m \<Rightarrow> m | None \<Rightarrow> (0, 0)) in
       \<lparr>c_id = rid, c_last_activity = i_last_activity i, c_vram = v, c_sysmem = s\<rparr>)
     (filter (\<lambda>(rid, i). in_flight_requests i = 0) insts)"

definition initial_usage :: "instances \<Rightarrow> resource_accounting \<Rightarrow> usage" where
  "initial_usage insts acc =
     \<lparr>u_vram = effective_vram_mb (resources acc), u_sysmem = effective_sysmem_mb (resources acc),
      u_count = length insts + node_total (reservations acc)\<rparr>"

text \<open>The eviction loop: the victims chosen so far, and the usage without them.\<close>

fun evict_until ::
  "node_config \<Rightarrow> u64 \<times> u64 \<Rightarrow> candidate list \<Rightarrow> usage \<Rightarrow> string list \<Rightarrow> (string list, node_error) result" where
  "evict_until cfg required [] u chosen =
     Err (if memory_fits cfg required u then MaxInstancesNode else InsufficientResources)"
| "evict_until cfg required (c # cs) u chosen =
     (let u' = evict_one c u; chosen' = chosen @ [c_id c] in
      if fits cfg required u' then Ok chosen' else evict_until cfg required cs u' chosen')"

definition pick_victims_from_accounting ::
  "node_config \<Rightarrow> instances \<Rightarrow> resource_accounting \<Rightarrow> u64 \<times> u64 \<Rightarrow> (string list, node_error) result" where
  "pick_victims_from_accounting cfg insts acc required =
     (let u = initial_usage insts acc in
      if fits cfg required u then Ok []
      else evict_until cfg required (sort_key c_last_activity (candidates_of insts acc)) u [])"

definition count_profile_instances :: "instances \<Rightarrow> string \<Rightarrow> string \<Rightarrow> nat" where
  "count_profile_instances insts model_name profile_id =
     length (filter (\<lambda>i. i_model_name i = model_name \<and> i_profile_id i = profile_id) (hm_values insts))"

definition plan_spawn ::
  "node_config \<Rightarrow> observation \<Rightarrow> reservation_state \<Rightarrow> instances \<Rightarrow> string \<Rightarrow> profile \<Rightarrow> u64 \<times> u64 \<Rightarrow>
   (spawn_plan, node_error) result" where
  "plan_spawn cfg obs reg insts model_name p required =
     (let acc = resource_accounting_for_instances obs reg insts;
          cnt = count_profile_instances insts model_name (p_id p)
      in if effective_max_instances p (model_defaults cfg)
            \<le> cnt + profile_count (model_name @ '':'' @ p_id p) (reservations acc)
         then Err MaxInstancesProfile
         else (case pick_victims_from_accounting cfg insts acc required of
             Inl e \<Rightarrow> Err e
           | Inr vs \<Rightarrow> Ok \<lparr>victims = vs, plan_revision = revision (reservations acc)\<rparr>))"

section \<open>Evicting more never hurts\<close>

definition usage_after :: "candidate list \<Rightarrow> usage \<Rightarrow> usage" where
  "usage_after cs u = fold evict_one cs u"

lemma usage_after_append: "usage_after (as @ bs) u = usage_after bs (usage_after as u)"
  by (simp add: usage_after_def)

lemma sat_add_mono: "a \<le> b \<Longrightarrow> sat_add a c \<le> sat_add b c" for a b c :: "'a::len word"
  by (simp add: word_le_nat_alt sat_simps min_def)

lemma sat_sub_le: "sat_sub a b \<le> a" for a b :: "'a::len word"
  by (simp add: word_le_nat_alt sat_simps)

lemma fits_evict: "fits cfg req u \<Longrightarrow> fits cfg req (evict_one c u)"
  unfolding fits_def evict_one_def
  by (auto intro: order_trans [OF sat_add_mono [OF sat_sub_le]])

lemma fits_evicts: "fits cfg req u \<Longrightarrow> fits cfg req (usage_after cs u)"
  by (induction cs arbitrary: u) (simp_all add: usage_after_def fits_evict)

lemma evict_until_eq:
  "evict_until cfg req cs u chosen =
     (if fits cfg req (usage_after cs u) \<and> cs \<noteq> []
      then Ok (chosen @ map c_id (take (LEAST k. 0 < k \<and> fits cfg req (usage_after (take k cs) u)) cs))
      else Err (if memory_fits cfg req (usage_after cs u) then MaxInstancesNode else InsufficientResources))"
proof (induction cs arbitrary: u chosen)
  case Nil
  show ?case by (simp add: usage_after_def)
next
  case (Cons c cs)
  let ?u = "evict_one c u"
  have after: "usage_after (take (Suc k) (c # cs)) u = usage_after (take k cs) ?u" for k
    by (simp add: usage_after_def)
  show ?case
  proof (cases "fits cfg req ?u")
    case True
    have "(LEAST k. 0 < k \<and> fits cfg req (usage_after (take k (c # cs)) u)) = Suc 0"
      by (rule Least_equality) (use True after [of 0] in \<open>auto simp: usage_after_def\<close>)
    moreover have "fits cfg req (usage_after (c # cs) u)"
      using fits_evicts [OF True, of cs] by (simp add: usage_after_def)
    ultimately show ?thesis using True by simp
  next
    case False
    then have not1: "\<not> fits cfg req (usage_after (take (Suc 0) (c # cs)) u)"
      by (simp add: usage_after_def)
    have least: "(LEAST k. 0 < k \<and> fits cfg req (usage_after (take k (c # cs)) u))
        = Suc (LEAST k. 0 < k \<and> fits cfg req (usage_after (take k cs) ?u))"
      if fit: "fits cfg req (usage_after cs ?u)" "cs \<noteq> []"
    proof -
      have ex: "0 < Suc (length cs) \<and> fits cfg req (usage_after (take (Suc (length cs)) (c # cs)) u)"
        using fit(1) after [of "length cs"] by simp
      have "(LEAST k. 0 < k \<and> fits cfg req (usage_after (take k (c # cs)) u))
          = Suc (LEAST m. 0 < Suc m \<and> fits cfg req (usage_after (take (Suc m) (c # cs)) u))"
        by (rule Least_Suc [of "\<lambda>k. 0 < k \<and> fits cfg req (usage_after (take k (c # cs)) u)", OF ex]) simp
      also have "(\<lambda>m. 0 < Suc m \<and> fits cfg req (usage_after (take (Suc m) (c # cs)) u))
          = (\<lambda>m. 0 < m \<and> fits cfg req (usage_after (take m cs) ?u))"
      proof
        fix m
        show "(0 < Suc m \<and> fits cfg req (usage_after (take (Suc m) (c # cs)) u))
            = (0 < m \<and> fits cfg req (usage_after (take m cs) ?u))"
          using not1 after [of m] by (cases m) auto
      qed
      finally show ?thesis .
    qed
    show ?thesis
    proof (cases "cs = []")
      case True
      then show ?thesis using False by (simp add: usage_after_def)
    next
      case ne: False
      have "usage_after (c # cs) u = usage_after cs ?u" by (simp add: usage_after_def)
      then show ?thesis using False ne least Cons.IH by simp
    qed
  qed
qed

definition lru_candidates :: "instances \<Rightarrow> resource_accounting \<Rightarrow> candidate list" where
  "lru_candidates insts acc = sort_key c_last_activity (candidates_of insts acc)"

lemma pick_victims_eq:
  "pick_victims_from_accounting cfg insts acc req =
    (let cs = lru_candidates insts acc; u = initial_usage insts acc in
     if fits cfg req (usage_after cs u)
     then Ok (map c_id (take (LEAST k. fits cfg req (usage_after (take k cs) u)) cs))
     else if memory_fits cfg req (usage_after cs u) then Err MaxInstancesNode
     else Err InsufficientResources)"
proof -
  let ?cs = "lru_candidates insts acc" and ?u = "initial_usage insts acc"
  let ?fit = "\<lambda>k. fits cfg req (usage_after (take k ?cs) ?u)"
  show ?thesis
  proof (cases "fits cfg req ?u")
    case True
    then have "(LEAST k. ?fit k) = 0" by (intro Least_equality) (simp_all add: usage_after_def)
    then show ?thesis
      using True fits_evicts [OF True, of ?cs]
      by (simp add: pick_victims_from_accounting_def Let_def)
  next
    case False
    then have "\<not> ?fit 0" by (simp add: usage_after_def)
    then have least: "(\<lambda>k. 0 < k \<and> ?fit k) = ?fit" by (metis gr0I)
    have "?cs = [] \<Longrightarrow> \<not> fits cfg req (usage_after ?cs ?u)"
      using False by (simp add: usage_after_def)
    then show ?thesis
      using False
      by (simp add: pick_victims_from_accounting_def lru_candidates_def evict_until_eq Let_def
          least [unfolded lru_candidates_def])
  qed
qed

text \<open>C9. Admission is refused for lack of resources exactly when it would be refused even after
  evicting every idle instance, and the error says whether memory or the instance limit is missing.
  Otherwise the victims are the shortest prefix of the idle instances, least recently used first, that
  makes room.\<close>

theorem pick_victims_spec:
  "pick_victims_from_accounting cfg insts acc req =
    (let cs = lru_candidates insts acc; u = initial_usage insts acc in
     if fits cfg req (usage_after cs u)
     then Ok (map c_id (take (LEAST k. fits cfg req (usage_after (take k cs) u)) cs))
     else if memory_fits cfg req (usage_after cs u) then Err MaxInstancesNode
     else Err InsufficientResources)"
  by (rule pick_victims_eq)

section \<open>Only idle instances are evicted, least recently used first\<close>

lemma candidates_sound:
  assumes "hm_ok insts" "c \<in> set (candidates_of insts acc)"
  shows "\<exists>i. hm_get insts (c_id c) = Some i \<and> in_flight_requests i = 0
    \<and> c_last_activity c = i_last_activity i"
  using assms by (auto simp: candidates_of_def Let_def split: prod.splits)

lemma candidates_complete:
  assumes "hm_get insts rid = Some i" "in_flight_requests i = 0"
  shows "\<exists>c \<in> set (candidates_of insts acc). c_id c = rid \<and> c_last_activity c = i_last_activity i"
proof -
  have "(rid, i) \<in> set insts" using assms(1) by (rule map_of_SomeD)
  then show ?thesis
    using assms(2) by (force simp: candidates_of_def Let_def image_iff split: prod.splits)
qed

lemma candidate_ids: "map c_id (candidates_of insts acc) = map fst (filter (\<lambda>(rid, i). in_flight_requests i = 0) insts)"
  by (auto simp: candidates_of_def Let_def split: prod.splits)

lemma distinct_candidates: "hm_ok insts \<Longrightarrow> distinct (map c_id (lru_candidates insts acc))"
proof -
  assume "hm_ok insts"
  then have "distinct (map c_id (candidates_of insts acc))"
    unfolding candidate_ids by (rule distinct_map_filter)
  moreover have "mset (map c_id (lru_candidates insts acc)) = mset (map c_id (candidates_of insts acc))"
    by (simp add: lru_candidates_def)
  ultimately show ?thesis by (metis mset_eq_imp_distinct_iff)
qed

lemma sorted_prefix:
  assumes "sorted (map f xs)" "x \<in> set (take k xs)" "y \<in> set xs" "y \<notin> set (take k xs)"
  shows "f x \<le> f y"
proof -
  have "y \<in> set (drop k xs)" using assms(3,4) by (metis UnE append_take_drop_id set_append)
  moreover have "sorted (map f (take k xs) @ map f (drop k xs))"
    using assms(1) by (metis append_take_drop_id map_append)
  ultimately show ?thesis using assms(2) by (auto simp: sorted_append)
qed

text \<open>Eviction never touches a busy instance: every victim is a mapped instance with no request in
  flight, no instance is chosen twice, and every idle instance that is spared was active at least as
  recently as every victim.\<close>

theorem victims_are_idle_lru:
  assumes "hm_ok insts" "pick_victims_from_accounting cfg insts acc req = Ok vs"
  shows "distinct vs
    \<and> (\<forall>v \<in> set vs. \<exists>i. hm_get insts v = Some i \<and> in_flight_requests i = 0
        \<and> (\<forall>w j. hm_get insts w = Some j \<and> in_flight_requests j = 0 \<and> w \<notin> set vs
             \<longrightarrow> i_last_activity i \<le> i_last_activity j))"
proof -
  let ?cs = "lru_candidates insts acc"
  obtain k where vs: "vs = map c_id (take k ?cs)"
    using assms(2) unfolding pick_victims_eq by (auto simp: Let_def split: if_splits)
  have set: "set ?cs = set (candidates_of insts acc)" by (simp add: lru_candidates_def)
  have sorted: "sorted (map c_last_activity ?cs)" by (simp add: lru_candidates_def)
  have "\<exists>i. hm_get insts v = Some i \<and> in_flight_requests i = 0
      \<and> (\<forall>w j. hm_get insts w = Some j \<and> in_flight_requests j = 0 \<and> w \<notin> set vs
           \<longrightarrow> i_last_activity i \<le> i_last_activity j)" if "v \<in> set vs" for v
  proof -
    from that vs obtain c where c: "c \<in> set (take k ?cs)" "v = c_id c" by auto
    then obtain i where i: "hm_get insts v = Some i" "in_flight_requests i = 0"
      "c_last_activity c = i_last_activity i"
      using candidates_sound [OF assms(1)] set by (metis in_set_takeD)
    have "i_last_activity i \<le> i_last_activity j"
      if j: "hm_get insts w = Some j" "in_flight_requests j = 0" "w \<notin> set vs" for w j
    proof -
      from candidates_complete [OF j(1,2)] obtain d where
        d: "d \<in> set ?cs" "c_id d = w" "c_last_activity d = i_last_activity j"
        using set by metis
      then have "d \<notin> set (take k ?cs)" using j(3) vs by auto
      from sorted_prefix [OF sorted c(1) d(1) this] show ?thesis using d i by simp
    qed
    with i show ?thesis by blast
  qed
  moreover have "distinct vs"
    unfolding vs using distinct_candidates [OF assms(1)] by (simp add: take_map [symmetric] distinct_take)
  ultimately show ?thesis by blast
qed

section \<open>What an admitted spawn may use\<close>

lemma usage_after_unat:
  "unat (u_vram (usage_after cs u)) = unat (u_vram u) - sum_list (map (unat \<circ> c_vram) cs)
   \<and> unat (u_sysmem (usage_after cs u)) = unat (u_sysmem u) - sum_list (map (unat \<circ> c_sysmem) cs)
   \<and> u_count (usage_after cs u) = u_count u - length cs"
proof (induction cs arbitrary: u)
  case (Cons c cs)
  have "usage_after (c # cs) u = usage_after cs (evict_one c u)" by (simp add: usage_after_def)
  then show ?case using Cons.IH [of "evict_one c u"] by (simp add: evict_one_def sat_simps)
qed (simp add: usage_after_def)

lemma sat_add_le_exact:
  "m < (- 1 :: u64) \<Longrightarrow> sat_add a b \<le> m \<Longrightarrow> unat a + unat b \<le> unat m"
  by (simp add: word_le_nat_alt word_less_nat_alt sat_simps unat_max_word)

lemma fold_sat_add:
  "unat (fold (\<lambda>x a. sat_add a (f x)) xs (a :: 'w::len word)) =
     min (unat a + sum_list (map (unat \<circ> f) xs)) (2 ^ LENGTH('w) - 1)"
proof (induction xs arbitrary: a)
  case Nil
  show ?case using unat_le_max [of a] by simp
next
  case (Cons x xs)
  show ?case by (simp add: Cons.IH sat_simps)
qed

text \<open>Memory of a victim as the accounting reports it.\<close>

definition credit :: "resource_accounting \<Rightarrow> string \<Rightarrow> nat \<times> nat" where
  "credit acc v = (case hm_get (instance_memory acc) v of
     Some (x, y) \<Rightarrow> (unat x, unat y) | None \<Rightarrow> (0, 0))"

lemma candidate_credit:
  "c \<in> set (lru_candidates insts acc) \<Longrightarrow> credit acc (c_id c) = (unat (c_vram c), unat (c_sysmem c))"
  by (auto simp: lru_candidates_def candidates_of_def credit_def Let_def split: prod.splits option.splits)

text \<open>C5. A spawn plan keeps the node within its budget: if planning succeeds, then what is in use
  without the victims, together with what the new instance requires, stays within the configured
  memory in both dimensions, the instance limit of the node leaves room, the profile is below its own
  limit, and the plan carries the registry revision it was computed from.\<close>

theorem plan_spawn_within_budget:
  assumes plan: "plan_spawn cfg obs reg insts m p req = Ok sp"
    and limits: "max_vram_mb cfg < - 1" "max_sysmem_mb cfg < - 1"
  shows "let acc = resource_accounting_for_instances obs reg insts; vs = victims sp in
      (unat (effective_vram_mb (resources acc)) - (\<Sum>v \<leftarrow> vs. fst (credit acc v))) + unat (fst req)
        \<le> unat (max_vram_mb cfg)
    \<and> (unat (effective_sysmem_mb (resources acc)) - (\<Sum>v \<leftarrow> vs. snd (credit acc v))) + unat (snd req)
        \<le> unat (max_sysmem_mb cfg)
    \<and> length insts + node_total reg - length vs < max_instances_per_node cfg
    \<and> count_profile_instances insts m (p_id p) + profile_count (m @ '':'' @ p_id p) reg
        < effective_max_instances p (model_defaults cfg)
    \<and> plan_revision sp = revision reg"
proof -
  define acc where "acc = resource_accounting_for_instances obs reg insts"
  have reg: "reservations acc = reg"
    by (simp add: acc_def resource_accounting_for_instances_def Let_def snapshot_def)
  obtain vs where vs: "pick_victims_from_accounting cfg insts acc req = Ok vs"
    and sp: "sp = \<lparr>victims = vs, plan_revision = revision reg\<rparr>"
    and cap: "count_profile_instances insts m (p_id p) + profile_count (m @ '':'' @ p_id p) reg
        < effective_max_instances p (model_defaults cfg)"
    using plan reg unfolding plan_spawn_def acc_def [symmetric]
    by (auto simp: Let_def not_le split: if_splits sum.splits)
  let ?cs = "lru_candidates insts acc" and ?u = "initial_usage insts acc"
  let ?fit = "\<lambda>k. fits cfg req (usage_after (take k ?cs) ?u)"
  have all: "?fit (length ?cs)" and vs': "vs = map c_id (take (LEAST k. ?fit k) ?cs)"
    using vs unfolding pick_victims_eq by (auto simp: Let_def split: if_splits)
  define ds where "ds = take (LEAST k. ?fit k) ?cs"
  have fit: "fits cfg req (usage_after ds ?u)" unfolding ds_def using all by (rule LeastI)
  have credit_of: "c \<in> set ds \<Longrightarrow> credit acc (c_id c) = (unat (c_vram c), unat (c_sysmem c))" for c
    unfolding ds_def by (rule candidate_credit) (rule in_set_takeD)
  have credits: "(\<Sum>v \<leftarrow> vs. fst (credit acc v)) = sum_list (map (unat \<circ> c_vram) ds)"
    "(\<Sum>v \<leftarrow> vs. snd (credit acc v)) = sum_list (map (unat \<circ> c_sysmem) ds)"
    using credit_of unfolding vs' ds_def [symmetric] by (auto intro!: arg_cong [of _ _ sum_list])
  have len: "length vs = length ds" by (simp add: vs' ds_def)
  from fit have
    "unat (u_vram (usage_after ds ?u)) + unat (fst req) \<le> unat (max_vram_mb cfg)"
    "unat (u_sysmem (usage_after ds ?u)) + unat (snd req) \<le> unat (max_sysmem_mb cfg)"
    "u_count (usage_after ds ?u) < max_instances_per_node cfg"
    using sat_add_le_exact limits unfolding fits_def by blast+
  then show ?thesis
    using cap sp credits len unfolding acc_def [symmetric] Let_def
    by (simp add: usage_after_unat initial_usage_def reg)
qed

definition demo_observation :: observation where
  "demo_observation = \<lparr>sample_vram = \<lambda>_. Some 400, sample_sysmem = \<lambda>_. Some 100,
     sample_pair = \<lambda>_. (700, 100), sample_device_vram = Some (800, 1000), learned_memory = \<lambda>_. None\<rparr>"

definition demo_instances :: instances where
  "demo_instances = [(''b'', blank_instance\<lparr>i_memory_reservation := None\<rparr>)]"

lemma demo_plan:
  "plan_spawn demo_config demo_observation empty_reservations demo_instances ''gpt''
     (blank_profile ''default'') (500, 100) = Ok \<lparr>victims = [''b''], plan_revision = 0\<rparr>"
  by (simp add: plan_spawn_def resource_accounting_for_instances_def resource_totals_def
      snapshot_def empty_reservations_def demo_instances_def account_instance_def blank_instance_def
      get_memory_for_instance_def get_pid_def demo_observation_def zero_totals_def from_samples_def
      count_profile_instances_def profile_count_def effective_max_instances_def blank_profile_def
      demo_config_def pick_victims_from_accounting_def initial_usage_def fits_def candidates_of_def
      evict_one_def node_total_def sat_add_def sat_sub_def Let_def word_less_nat_alt word_le_nat_alt)

theorem plan_spawn_within_budget_witness:
  "let acc = resource_accounting_for_instances demo_observation empty_reservations demo_instances in
   (unat (effective_vram_mb (resources acc)) - (\<Sum>v \<leftarrow> [''b'']. fst (credit acc v))) + 500 \<le> 1000"
proof -
  have "max_vram_mb demo_config < - 1" "max_sysmem_mb demo_config < - 1"
    by (simp_all add: demo_config_def word_less_nat_alt unat_max_word)
  from plan_spawn_within_budget [OF demo_plan this] show ?thesis
    unfolding Let_def by (simp add: demo_config_def)
qed

theorem victims_are_idle_lru_witness:
  "\<exists>acc. pick_victims_from_accounting demo_config demo_instances acc (500, 100) = Ok [''b'']
     \<and> (\<exists>i. hm_get demo_instances ''b'' = Some i \<and> in_flight_requests i = 0)"
proof -
  let ?acc = "resource_accounting_for_instances demo_observation empty_reservations demo_instances"
  have pick: "pick_victims_from_accounting demo_config demo_instances ?acc (500, 100) = Ok [''b'']"
    using demo_plan unfolding plan_spawn_def Let_def by (auto split: if_splits sum.splits)
  have "hm_ok demo_instances" by (simp add: demo_instances_def)
  from victims_are_idle_lru [OF this pick] pick show ?thesis by auto
qed

section \<open>What the accounting adds up\<close>

lemma account_entries_vram:
  "t_vram (fold (account_entry obs) es t) =
     fold (\<lambda>e a. sat_add a (observed_of (live_of (sample_vram obs) (snd e)))) es (t_vram t)"
  by (induction es arbitrary: t) (auto simp: account_entry_def Let_def split: prod.splits)

lemma account_entries_promised:
  "t_promised_vram (fold (account_entry obs) es t) =
     fold (\<lambda>e a. sat_add a (committed_of (mc_ready (snd e)) (fst (mc_estimate (snd e)))
       (live_of (sample_vram obs) (snd e)))) es (t_promised_vram t)"
  by (induction es arbitrary: t) (auto simp: account_entry_def Let_def split: prod.splits)

definition unregistered :: "instances \<Rightarrow> instances" where
  "unregistered insts = filter (\<lambda>e. i_memory_reservation (snd e) = None) insts"

lemma account_instances_vram:
  "t_vram (fold (account_instance obs) insts t) =
     fold (\<lambda>e a. sat_add a (fst (get_memory_for_instance obs (snd e)))) (unregistered insts) (t_vram t)"
  by (induction insts arbitrary: t)
    (auto simp: account_instance_def unregistered_def Let_def split: prod.splits)

lemma account_instances_promised:
  "t_promised_vram (fold (account_instance obs) insts t) = t_promised_vram t"
  by (induction insts arbitrary: t) (auto simp: account_instance_def Let_def split: prod.splits)

lemma from_samples_effective:
  "unat (effective_vram_mb (from_samples v s device n)) =
     max (unat v) (case device of Some (used, _) \<Rightarrow> unat used | None \<Rightarrow> 0)"
proof -
  have "unat (v + sat_sub used v) = max (unat v) (unat used)" for used
  proof -
    have "unat v + (unat used - unat v) = max (unat v) (unat used)" by simp
    moreover have "max (unat v) (unat used) < 2 ^ 64"
      using unat_le_max [of v] unat_le_max [of used] by simp
    ultimately show ?thesis by (simp add: unat_word_ariths sat_simps)
  qed
  then show ?thesis by (auto simp: from_samples_def Let_def split: option.splits prod.splits)
qed

text \<open>The video memory taken as in use never forgets external users or promised loads: it is the
  larger of what the devices report and what the processes of the node were observed to hold, plus what
  loading processes have been promised beyond their observed use, saturating only at the top of the
  64-bit range.\<close>

theorem effective_vram_accounts_for_all:
  "unat (effective_vram_mb (resources (resource_accounting_for_instances obs reg insts))) =
     min (max ((\<Sum>e \<leftarrow> entries reg. unat (observed_of (live_of (sample_vram obs) (snd e))))
               + (\<Sum>e \<leftarrow> unregistered insts. unat (fst (get_memory_for_instance obs (snd e)))))
              (case sample_device_vram obs of Some (used, _) \<Rightarrow> unat used | None \<Rightarrow> 0)
          + (\<Sum>e \<leftarrow> entries reg. unat (committed_of (mc_ready (snd e)) (fst (mc_estimate (snd e)))
               (live_of (sample_vram obs) (snd e)))))
       (2 ^ 64 - 1)"
proof -
  let ?t = "resource_totals obs (snapshot reg) insts"
  let ?M = "2 ^ 64 - 1 :: nat"
  let ?o = "\<Sum>e \<leftarrow> entries reg. unat (observed_of (live_of (sample_vram obs) (snd e)))"
  let ?i = "\<Sum>e \<leftarrow> unregistered insts. unat (fst (get_memory_for_instance obs (snd e)))"
  let ?p = "\<Sum>e \<leftarrow> entries reg. unat (committed_of (mc_ready (snd e)) (fst (mc_estimate (snd e)))
               (live_of (sample_vram obs) (snd e)))"
  let ?d = "case sample_device_vram obs of Some (used, _) \<Rightarrow> unat used | None \<Rightarrow> 0"
  have v: "unat (t_vram ?t) = min (?o + ?i) ?M"
    by (simp add: resource_totals_def account_instances_vram account_entries_vram fold_sat_add
        zero_totals_def snapshot_def comp_def)
  have p: "unat (t_promised_vram ?t) = min ?p ?M"
    by (simp add: resource_totals_def account_instances_promised account_entries_promised fold_sat_add
        zero_totals_def snapshot_def comp_def)
  have d: "?d \<le> ?M" using unat_le_max [where 'a = 64] by (auto split: option.splits)
  have "unat (effective_vram_mb (resources (resource_accounting_for_instances obs reg insts)))
      = min (max (unat (t_vram ?t)) ?d + unat (t_promised_vram ?t)) ?M"
    by (simp add: resource_accounting_for_instances_def Let_def sat_simps from_samples_effective)
  then show ?thesis unfolding v p using d by (simp add: min_def max_def)
qed

end
