(* ===== verification/Wedge_Detector.thy ===== *)
theory Wedge_Detector
  imports Resources Complex_Main
begin

text \<open>
  The watchdog for wedged instances: the verdict on one sample (\<^verbatim>\<open>src/wedge_detector.rs\<close>), the
  per-tick bookkeeping of \<^verbatim>\<open>detect_and_kill_wedged_instances\<close> and the recheck before the kill
  (\<^verbatim>\<open>src/node_state/mod.rs\<close>). Processor and device samples are input. CPU rates are rational
  numbers in place of \<^verbatim>\<open>f64\<close>.
\<close>

section \<open>The verdict on one sample\<close>

record wedge_inputs =
  wi_in_flight :: nat
  awaiting_downstream :: nat
  wi_cpu_busy_cores :: "rat option"
  gpu_sm_util :: "u32 option"
  wi_gpu_present :: bool
  wi_cpu_only :: bool
  wi_gpu_util_trusted :: bool
  cpu_eps_cores :: rat
  gpu_eps_util :: u32

datatype wedge_verdict = NotWedged | WedgedThisTick

definition evaluate_wedge :: "wedge_inputs \<Rightarrow> wedge_verdict" where
  "evaluate_wedge i =
     (if wi_in_flight i \<le> awaiting_downstream i then NotWedged
      else case wi_cpu_busy_cores i of
        None \<Rightarrow> NotWedged
      | Some cpu \<Rightarrow>
          if cpu_eps_cores i < cpu then NotWedged
          else (case gpu_sm_util i of
              Some util \<Rightarrow> if util \<le> gpu_eps_util i then WedgedThisTick else NotWedged
            | None \<Rightarrow>
                if wi_gpu_present i then if wi_gpu_util_trusted i then WedgedThisTick else NotWedged
                else if wi_cpu_only i then WedgedThisTick else NotWedged))"

definition cpu_busy_cores :: "u64 \<Rightarrow> u64 \<Rightarrow> u64 \<Rightarrow> rat \<Rightarrow> rat" where
  "cpu_busy_cores busy_now busy_prev ticks_per_sec interval_secs =
     (if ticks_per_sec = 0 \<or> interval_secs \<le> 0 then 0
      else of_nat (unat (sat_sub busy_now busy_prev)) / (of_nat (unat ticks_per_sec) * interval_secs))"

definition CPU_EPS_CORES :: rat where "CPU_EPS_CORES = 2 / 100"
definition GPU_EPS_UTIL :: u32 where "GPU_EPS_UTIL = 1"

section \<open>One tick of the watchdog\<close>

record instance_wedge_state =
  ws_pid :: u32
  prev_busy_ticks :: u64
  prev_sample_at :: instant
  wedged_since :: "instant option"

record wedge_detector_state =
  per_instance :: "(string, instance_wedge_state) hashmap"
  gpu_last_seen_ts :: "u64 option"
  gpu_util_trusted :: bool

definition no_wedge_state :: wedge_detector_state where
  "no_wedge_state = \<lparr>per_instance = [], gpu_last_seen_ts = None, gpu_util_trusted = False\<rparr>"

record wedge_candidate =
  wc_id :: string
  wc_pid :: u32
  wc_in_flight :: nat
  wc_awaiting :: nat
  wc_last_activity :: instant

text \<open>What the samplers report in one tick; the instant is read once per tick.\<close>

record tick_sample =
  ts_now :: instant
  ts_gpu_present :: bool
  ts_cpu_now :: "u32 \<Rightarrow> u64 option"
  ts_gpu_util :: "(u32, u32) hashmap"
  ts_gpu_new_ts :: "u64 option"
  ts_gpu_usable :: bool
  ts_ticks_per_sec :: u64

record kill_order =
  ko_id :: string
  ko_pid :: u32
  ko_wedged_for :: nat
  ko_last_activity :: instant

definition wedge_candidates :: "instances \<Rightarrow> wedge_candidate list" where
  "wedge_candidates insts = concat (map (\<lambda>(rid, i).
     if in_flight_requests i = 0 \<or> \<not> is_ready i then []
     else case get_pid i of
       Some pid \<Rightarrow> [\<lparr>wc_id = rid, wc_pid = pid, wc_in_flight = in_flight_requests i,
         wc_awaiting = streams_awaiting_downstream i, wc_last_activity = i_last_activity i\<rparr>]
     | None \<Rightarrow> []) insts)"

definition cpu_since :: "tick_sample \<Rightarrow> wedge_candidate \<Rightarrow> instance_wedge_state option \<Rightarrow> rat option" where
  "cpu_since smp c prev = (case (prev, ts_cpu_now smp (wc_pid c)) of
     (Some p, Some busy) \<Rightarrow>
       if ws_pid p = wc_pid c
       then Some (cpu_busy_cores busy (prev_busy_ticks p) (ts_ticks_per_sec smp)
              (of_nat (ts_now smp - prev_sample_at p) / 1000000000))
       else None
   | _ \<Rightarrow> None)"

definition verdict_of ::
  "node_config \<Rightarrow> tick_sample \<Rightarrow> bool \<Rightarrow> wedge_candidate \<Rightarrow> instance_wedge_state option \<Rightarrow> wedge_verdict" where
  "verdict_of cfg smp trusted c prev = evaluate_wedge
     \<lparr>wi_in_flight = wc_in_flight c, awaiting_downstream = wc_awaiting c,
      wi_cpu_busy_cores = cpu_since smp c prev,
      gpu_sm_util = (if ts_gpu_usable smp then hm_get (ts_gpu_util smp) (wc_pid c) else None),
      wi_gpu_present = ts_gpu_present smp, wi_cpu_only = cpu_only (wedge_detector cfg),
      wi_gpu_util_trusted = trusted, cpu_eps_cores = CPU_EPS_CORES, gpu_eps_util = GPU_EPS_UTIL\<rparr>"

text \<open>The body of the loop over the candidates: the new bookkeeping of one instance and a kill order.\<close>

definition judge ::
  "node_config \<Rightarrow> tick_sample \<Rightarrow> bool \<Rightarrow> wedge_candidate \<Rightarrow> instance_wedge_state option \<Rightarrow>
   instance_wedge_state \<times> kill_order option" where
  "judge cfg smp trusted c prev =
     (let now = ts_now smp;
          busy_now = ts_cpu_now smp (wc_pid c);
          st0 = (case prev of Some p \<Rightarrow> p
                 | None \<Rightarrow> \<lparr>ws_pid = wc_pid c,
                     prev_busy_ticks = (case busy_now of Some b \<Rightarrow> b | None \<Rightarrow> 0),
                     prev_sample_at = now, wedged_since = None\<rparr>);
          st1 = (if ws_pid st0 \<noteq> wc_pid c then st0\<lparr>ws_pid := wc_pid c, wedged_since := None\<rparr> else st0);
          (st2, order) = (case verdict_of cfg smp trusted c prev of
             WedgedThisTick \<Rightarrow>
               (let since = (case wedged_since st1 of Some t \<Rightarrow> t | None \<Rightarrow> now);
                    wedged_for = now - since
                in (st1\<lparr>wedged_since := Some since\<rparr>,
                    if unat (window_ms (wedge_detector cfg)) * 1000000 \<le> wedged_for
                    then Some \<lparr>ko_id = wc_id c, ko_pid = wc_pid c, ko_wedged_for = wedged_for,
                               ko_last_activity = wc_last_activity c\<rparr>
                    else None))
           | NotWedged \<Rightarrow> (st1\<lparr>wedged_since := None\<rparr>, None));
          st3 = (case busy_now of
             Some b \<Rightarrow> st2\<lparr>prev_busy_ticks := b, prev_sample_at := now\<rparr> | None \<Rightarrow> st2)
      in (st3, order))"

fun judge_all ::
  "node_config \<Rightarrow> tick_sample \<Rightarrow> bool \<Rightarrow> wedge_candidate list \<Rightarrow>
   (string, instance_wedge_state) hashmap \<Rightarrow> (string, instance_wedge_state) hashmap \<times> kill_order list" where
  "judge_all cfg smp trusted [] m = (m, [])"
| "judge_all cfg smp trusted (c # cs) m =
     (let (st, order) = judge cfg smp trusted c (hm_get m (wc_id c));
          (m', orders) = judge_all cfg smp trusted cs (hm_insert (wc_id c) st m)
      in (m', (case order of Some k \<Rightarrow> [k] | None \<Rightarrow> []) @ orders))"

text \<open>The latch and the per-tick trust in absent device readings.\<close>

definition latch_trust :: "tick_sample \<Rightarrow> wedge_detector_state \<Rightarrow> bool" where
  "latch_trust smp st =
     (gpu_util_trusted st \<or> list_ex (\<lambda>u. GPU_EPS_UTIL < u) (hm_values (ts_gpu_util smp)))"

definition detect_wedged ::
  "node_config \<Rightarrow> tick_sample \<Rightarrow> instances \<Rightarrow> wedge_detector_state \<Rightarrow> wedge_detector_state \<times> kill_order list" where
  "detect_wedged cfg smp insts st =
     (let cands = wedge_candidates insts;
          trust = latch_trust smp st;
          live = map wc_id cands;
          pruned = filter (\<lambda>(k, _). k \<in> set live) (per_instance st);
          (m, orders) = judge_all cfg smp (trust \<and> ts_gpu_usable smp) cands pruned
      in (\<lparr>per_instance = m,
           gpu_last_seen_ts = (case ts_gpu_new_ts smp of Some t \<Rightarrow> Some t | None \<Rightarrow> gpu_last_seen_ts st),
           gpu_util_trusted = trust\<rparr>, orders))"

text \<open>The recheck under the write lock; the boolean says whether the instance was removed.\<close>

definition kill_wedged_instance :: "kill_order \<Rightarrow> instances \<Rightarrow> bool \<times> instances" where
  "kill_wedged_instance k insts = (case hm_get insts (ko_id k) of
     None \<Rightarrow> (False, insts)
   | Some i \<Rightarrow>
       if streams_awaiting_downstream i < in_flight_requests i
          \<and> get_pid i = Some (ko_pid k) \<and> i_last_activity i = ko_last_activity k
       then (True, hm_remove (ko_id k) insts) else (False, insts))"

definition detect_and_kill_wedged_instances ::
  "node_config \<Rightarrow> tick_sample \<Rightarrow> instances \<Rightarrow> wedge_detector_state \<Rightarrow> instances \<times> wedge_detector_state" where
  "detect_and_kill_wedged_instances cfg smp insts st =
     (let (st', orders) = detect_wedged cfg smp insts st in
      (fold (\<lambda>k xs. snd (kill_wedged_instance k xs)) orders insts, st'))"

section \<open>A kill needs a sustained streak\<close>

lemma wedged_iff:
  "evaluate_wedge i = WedgedThisTick \<longleftrightarrow>
     awaiting_downstream i < wi_in_flight i
     \<and> (\<exists>cpu. wi_cpu_busy_cores i = Some cpu \<and> cpu \<le> cpu_eps_cores i)
     \<and> (case gpu_sm_util i of Some u \<Rightarrow> u \<le> gpu_eps_util i
        | None \<Rightarrow> if wi_gpu_present i then wi_gpu_util_trusted i else wi_cpu_only i)"
  by (auto simp: evaluate_wedge_def not_less split: option.splits)

lemma judge_since:
  "wedged_since (fst (judge cfg smp tr c prev)) = Some t \<Longrightarrow>
     verdict_of cfg smp tr c prev = WedgedThisTick \<and> ws_pid (fst (judge cfg smp tr c prev)) = wc_pid c
     \<and> (t = ts_now smp \<or> (\<exists>p. prev = Some p \<and> ws_pid p = wc_pid c \<and> wedged_since p = Some t))"
  by (auto simp: judge_def Let_def split: option.splits wedge_verdict.splits if_splits)

lemma judge_order:
  "snd (judge cfg smp tr c prev) = Some k \<Longrightarrow>
     ko_id k = wc_id c \<and> ko_pid k = wc_pid c
     \<and> (\<exists>t. wedged_since (fst (judge cfg smp tr c prev)) = Some t
          \<and> unat (window_ms (wedge_detector cfg)) * 1000000 \<le> ts_now smp - t)"
  by (auto simp: judge_def Let_def split: option.splits wedge_verdict.splits if_splits)

lemma judge_all_result:
  assumes "distinct (map wc_id cs)"
  shows "c \<in> set cs \<Longrightarrow>
      hm_get (fst (judge_all cfg smp tr cs m)) (wc_id c) = Some (fst (judge cfg smp tr c (hm_get m (wc_id c))))"
    and "rid \<notin> wc_id ` set cs \<Longrightarrow> hm_get (fst (judge_all cfg smp tr cs m)) rid = hm_get m rid"
    and "k \<in> set (snd (judge_all cfg smp tr cs m)) \<Longrightarrow>
      \<exists>c \<in> set cs. snd (judge cfg smp tr c (hm_get m (wc_id c))) = Some k"
proof -
  have all: "(\<forall>c \<in> set cs. hm_get (fst (judge_all cfg smp tr cs m)) (wc_id c) = Some (fst (judge cfg smp tr c (hm_get m (wc_id c)))))
    \<and> (\<forall>rid. rid \<notin> wc_id ` set cs \<longrightarrow> hm_get (fst (judge_all cfg smp tr cs m)) rid = hm_get m rid)
    \<and> (\<forall>k \<in> set (snd (judge_all cfg smp tr cs m)).
         \<exists>c \<in> set cs. snd (judge cfg smp tr c (hm_get m (wc_id c))) = Some k)"
    using assms
  proof (induction cs arbitrary: m)
    case (Cons c cs)
    let ?m = "hm_insert (wc_id c) (fst (judge cfg smp tr c (hm_get m (wc_id c)))) m"
    have get: "hm_get ?m (wc_id d) = hm_get m (wc_id d)" if "d \<in> set cs" for d
    proof -
      have "wc_id d \<noteq> wc_id c" using that Cons.prems by (metis distinct.simps(2) imageI list.set_map list.simps(9))
      then show ?thesis by (simp add: hm_simps)
    qed
    have c: "wc_id c \<notin> wc_id ` set cs" "distinct (map wc_id cs)" using Cons.prems by auto
    note IH = Cons.IH [OF c(2), of ?m]
    have eq: "fst (judge_all cfg smp tr (c # cs) m) = fst (judge_all cfg smp tr cs ?m)"
      "snd (judge_all cfg smp tr (c # cs) m) =
        (case snd (judge cfg smp tr c (hm_get m (wc_id c))) of Some k \<Rightarrow> [k] | None \<Rightarrow> [])
        @ snd (judge_all cfg smp tr cs ?m)"
      by (simp_all split: prod.splits)
    show ?case
      unfolding eq using IH get c(1) by (auto simp: hm_simps split: option.splits)
  qed simp
  show "c \<in> set cs \<Longrightarrow>
      hm_get (fst (judge_all cfg smp tr cs m)) (wc_id c) = Some (fst (judge cfg smp tr c (hm_get m (wc_id c))))"
    "rid \<notin> wc_id ` set cs \<Longrightarrow> hm_get (fst (judge_all cfg smp tr cs m)) rid = hm_get m rid"
    "k \<in> set (snd (judge_all cfg smp tr cs m)) \<Longrightarrow>
      \<exists>c \<in> set cs. snd (judge cfg smp tr c (hm_get m (wc_id c))) = Some k"
    using all by blast+
qed

lemma hm_get_filter: "hm_get (filter (\<lambda>(k, _). P k) m) x = (if P x then hm_get m x else None)"
  by (induction m) auto

lemma wedge_candidate_sound:
  "c \<in> set (wedge_candidates insts) \<Longrightarrow> \<exists>i. (wc_id c, i) \<in> set insts
     \<and> 0 < in_flight_requests i \<and> is_ready i \<and> get_pid i = Some (wc_pid c)"
  by (auto simp: wedge_candidates_def split: if_splits option.splits prod.splits)

lemma distinct_wedge_candidates: "hm_ok insts \<Longrightarrow> distinct (map wc_id (wedge_candidates insts))"
proof (induction insts)
  case (Cons e insts)
  have ids: "set (map wc_id (wedge_candidates xs)) \<subseteq> set (hm_keys xs)" for xs
    using wedge_candidate_sound by force
  obtain hs where "wedge_candidates (e # insts) = hs @ wedge_candidates insts"
    "map wc_id hs = [] \<or> map wc_id hs = [fst e]"
    by (cases e) (auto simp: wedge_candidates_def split: option.splits)
  then show ?case using Cons ids [of insts] by (auto simp del: set_map)
qed (simp add: wedge_candidates_def)

text \<open>The ticks so far, the latest first, and the state they leave.\<close>

type_synonym tick = "tick_sample \<times> instances"

fun watch :: "node_config \<Rightarrow> tick list \<Rightarrow> wedge_detector_state \<times> kill_order list" where
  "watch cfg [] = (no_wedge_state, [])"
| "watch cfg ((smp, insts) # h) = detect_wedged cfg smp insts (fst (watch cfg h))"

text \<open>In the latest tick the process \<open>pid\<close> of instance \<open>rid\<close> held a slot and showed no activity.\<close>

fun wedged_tick :: "node_config \<Rightarrow> string \<Rightarrow> u32 \<Rightarrow> tick list \<Rightarrow> bool" where
  "wedged_tick cfg rid pid [] = False"
| "wedged_tick cfg rid pid ((smp, insts) # h) =
     (let st = fst (watch cfg h) in
      list_ex (\<lambda>c. wc_id c = rid \<and> wc_pid c = pid
        \<and> verdict_of cfg smp (latch_trust smp st \<and> ts_gpu_usable smp) c
            (hm_get (per_instance st) rid) = WedgedThisTick) (wedge_candidates insts))"

definition streak :: "node_config \<Rightarrow> string \<Rightarrow> u32 \<Rightarrow> instant \<Rightarrow> tick list \<Rightarrow> bool" where
  "streak cfg rid pid since h \<longleftrightarrow> (\<exists>n. 0 < n \<and> n \<le> length h
     \<and> (\<forall>j<n. wedged_tick cfg rid pid (drop j h)) \<and> ts_now (fst (h ! (n - 1))) = since)"

lemma streak_start: "wedged_tick cfg rid pid (x # h) \<Longrightarrow> streak cfg rid pid (ts_now (fst x)) (x # h)"
  unfolding streak_def by (rule exI [of _ 1]) simp

lemma streak_extend:
  assumes "wedged_tick cfg rid pid (x # h)" "streak cfg rid pid t h"
  shows "streak cfg rid pid t (x # h)"
proof -
  from assms(2) obtain n where n: "0 < n" "n \<le> length h" "\<forall>j<n. wedged_tick cfg rid pid (drop j h)"
    "ts_now (fst (h ! (n - 1))) = t"
    by (auto simp: streak_def)
  have "wedged_tick cfg rid pid (drop j (x # h))" if "j < Suc n" for j
    using that n(3) assms(1) by (cases j) auto
  moreover have "(x # h) ! (Suc n - 1) = h ! (n - 1)" using n(1) by (cases n) auto
  ultimately show ?thesis unfolding streak_def using n by (intro exI [of _ "Suc n"]) auto
qed

lemma tick_result:
  fixes smp :: tick_sample and st :: wedge_detector_state
  assumes "hm_ok insts"
  defines "tr \<equiv> latch_trust smp st \<and> ts_gpu_usable smp"
  shows "hm_get (per_instance (fst (detect_wedged cfg smp insts st))) rid = Some ws \<Longrightarrow>
      \<exists>c \<in> set (wedge_candidates insts). wc_id c = rid
        \<and> ws = fst (judge cfg smp tr c (hm_get (per_instance st) rid))"
    and "k \<in> set (snd (detect_wedged cfg smp insts st)) \<Longrightarrow>
      \<exists>c \<in> set (wedge_candidates insts). snd (judge cfg smp tr c (hm_get (per_instance st) (wc_id c))) = Some k"
proof -
  let ?cs = "wedge_candidates insts"
  let ?p = "filter (\<lambda>(k, _). k \<in> set (map wc_id ?cs)) (per_instance st)"
  have r: "per_instance (fst (detect_wedged cfg smp insts st)) = fst (judge_all cfg smp tr ?cs ?p)"
    "snd (detect_wedged cfg smp insts st) = snd (judge_all cfg smp tr ?cs ?p)"
    by (simp_all add: detect_wedged_def tr_def Let_def split: prod.splits)
  note res = judge_all_result [OF distinct_wedge_candidates [OF assms(1)], of _ cfg smp tr ?p]
  have get: "hm_get ?p rid = (if rid \<in> wc_id ` set ?cs then hm_get (per_instance st) rid else None)" for rid
    by (simp add: hm_get_filter)
  show "\<exists>c \<in> set ?cs. wc_id c = rid \<and> ws = fst (judge cfg smp tr c (hm_get (per_instance st) rid))"
    if ws: "hm_get (per_instance (fst (detect_wedged cfg smp insts st))) rid = Some ws"
  proof (cases "rid \<in> wc_id ` set ?cs")
    case True
    then obtain c where "c \<in> set ?cs" "wc_id c = rid" by auto
    then show ?thesis using res(1) [of c] ws get [of rid] True unfolding r by auto
  next
    case False
    then show ?thesis using res(2) [OF False] ws get [of rid] unfolding r by simp
  qed
  show "\<exists>c \<in> set ?cs. snd (judge cfg smp tr c (hm_get (per_instance st) (wc_id c))) = Some k"
    if "k \<in> set (snd (detect_wedged cfg smp insts st))"
  proof -
    from that res(3) [of k] obtain c where "c \<in> set ?cs" "snd (judge cfg smp tr c (hm_get ?p (wc_id c))) = Some k"
      unfolding r by blast
    then show ?thesis using get [of "wc_id c"] by auto
  qed
qed

lemma streak_inv:
  assumes "\<forall>(smp, insts) \<in> set h. hm_ok insts"
    and "hm_get (per_instance (fst (watch cfg h))) rid = Some ws" "wedged_since ws = Some t"
  shows "streak cfg rid (ws_pid ws) t h"
  using assms
proof (induction h arbitrary: ws t)
  case Nil
  then show ?case by (simp add: no_wedge_state_def)
next
  case (Cons x h)
  obtain smp insts where x: "x = (smp, insts)" by fastforce
  let ?st = "fst (watch cfg h)"
  let ?tr = "latch_trust smp ?st \<and> ts_gpu_usable smp"
  have ok: "hm_ok insts" using Cons.prems(1) x by auto
  have ws: "hm_get (per_instance (fst (detect_wedged cfg smp insts ?st))) rid = Some ws"
    using Cons.prems(2) x by simp
  from tick_result(1) [OF ok ws] obtain c where c: "c \<in> set (wedge_candidates insts)" "wc_id c = rid"
    and wsj: "ws = fst (judge cfg smp ?tr c (hm_get (per_instance ?st) rid))"
    by blast
  note j = judge_since [OF Cons.prems(3) [unfolded wsj]]
  have tick: "wedged_tick cfg rid (ws_pid ws) (x # h)"
    using c j unfolding x wsj by (auto simp: list_ex_iff Let_def)
  from j consider "t = ts_now smp"
    | p where "hm_get (per_instance ?st) rid = Some p" "ws_pid p = ws_pid ws" "wedged_since p = Some t"
    using wsj by auto
  then show ?case
  proof cases
    case 1
    then show ?thesis using streak_start [OF tick] x by simp
  next
    case 2
    have "streak cfg rid (ws_pid p) t h" using Cons.IH [OF _ 2(1,3)] Cons.prems(1) by auto
    then show ?thesis using streak_extend [OF tick] 2(2) by simp
  qed
qed

text \<open>C15. The watchdog never acts on a passing lull: an instance is ordered to be stopped only if its same
  process has been found without CPU and device activity while holding a slot in every tick of an
  unbroken run of ticks that spans at least the configured window.\<close>

theorem kill_needs_sustained_wedge:
  assumes "\<forall>(smp, insts) \<in> set ((now_smp, now_insts) # h). hm_ok insts"
    and "k \<in> set (snd (watch cfg ((now_smp, now_insts) # h)))"
  shows "\<exists>n. 0 < n \<and> n \<le> Suc (length h)
    \<and> (\<forall>j<n. wedged_tick cfg (ko_id k) (ko_pid k) (drop j ((now_smp, now_insts) # h)))
    \<and> unat (window_ms (wedge_detector cfg)) * 1000000
        \<le> ts_now now_smp - ts_now (fst (((now_smp, now_insts) # h) ! (n - 1)))"
proof -
  let ?h = "(now_smp, now_insts) # h" and ?st = "fst (watch cfg h)"
  let ?tr = "latch_trust now_smp ?st \<and> ts_gpu_usable now_smp"
  have ok: "hm_ok now_insts" using assms(1) by auto
  have k: "k \<in> set (snd (detect_wedged cfg now_smp now_insts ?st))" using assms(2) by simp
  from tick_result(2) [OF ok k] obtain c where c: "c \<in> set (wedge_candidates now_insts)"
    and order: "snd (judge cfg now_smp ?tr c (hm_get (per_instance ?st) (wc_id c))) = Some k"
    by blast
  let ?ws = "fst (judge cfg now_smp ?tr c (hm_get (per_instance ?st) (wc_id c)))"
  from judge_order [OF order] obtain t where t: "wedged_since ?ws = Some t" "ko_id k = wc_id c"
    "ko_pid k = wc_pid c" "unat (window_ms (wedge_detector cfg)) * 1000000 \<le> ts_now now_smp - t"
    by blast
  note j = judge_since [OF t(1)]
  have tick: "wedged_tick cfg (ko_id k) (ko_pid k) ?h"
    using c j t(2,3) by (auto simp: list_ex_iff Let_def)
  have "streak cfg (ko_id k) (ko_pid k) t ?h"
  proof (cases "t = ts_now now_smp")
    case True
    then show ?thesis using streak_start [OF tick] by simp
  next
    case False
    with j obtain p where p: "hm_get (per_instance ?st) (wc_id c) = Some p" "ws_pid p = wc_pid c"
      "wedged_since p = Some t"
      by blast
    have "streak cfg (wc_id c) (ws_pid p) t h" using streak_inv [OF _ p(1,3)] assms(1) by auto
    then show ?thesis using streak_extend [OF tick] p(2) t(2,3) by simp
  qed
  then show ?thesis using t(4) unfolding streak_def by auto
qed

definition demo_tick :: "instant \<Rightarrow> tick" where
  "demo_tick now = (\<lparr>ts_now = now, ts_gpu_present = False, ts_cpu_now = \<lambda>_. Some 5, ts_gpu_util = [],
       ts_gpu_new_ts = None, ts_gpu_usable = False, ts_ticks_per_sec = 100\<rparr>,
     [(''a'', blank_instance\<lparr>in_flight_requests := 1, i_status := Ready\<rparr>)])"

definition demo_wedge_config :: node_config where
  "demo_wedge_config = demo_config\<lparr>wedge_detector :=
     \<lparr>wd_enabled = True, window_ms = 10000, sample_interval_ms = 5000, cpu_only = True\<rparr>\<rparr>"

lemma demo_watch:
  "snd (watch demo_wedge_config [demo_tick 15000000000, demo_tick 5000000000, demo_tick 0]) =
     [\<lparr>ko_id = ''a'', ko_pid = 7, ko_wedged_for = 10000000000, ko_last_activity = 0\<rparr>]"
  by (simp add: demo_tick_def demo_wedge_config_def detect_wedged_def Let_def wedge_candidates_def
      blank_instance_def is_ready_def get_pid_def latch_trust_def no_wedge_state_def judge_def
      verdict_of_def cpu_since_def evaluate_wedge_def cpu_busy_cores_def sat_sub_def
      CPU_EPS_CORES_def)

theorem kill_needs_sustained_wedge_witness:
  "\<exists>n. 0 < n \<and> n \<le> 3 \<and> (\<forall>j<n. wedged_tick demo_wedge_config ''a'' 7
     (drop j [demo_tick 15000000000, demo_tick 5000000000, demo_tick 0]))
   \<and> 10000000000 \<le> 15000000000 - ts_now (fst ([demo_tick 15000000000, demo_tick 5000000000, demo_tick 0] ! (n - 1)))"
proof -
  obtain smp insts where tick: "demo_tick 15000000000 = (smp, insts)" "ts_now smp = 15000000000"
    by (simp add: demo_tick_def)
  have ok: "\<forall>(smp, insts) \<in> set ((smp, insts) # [demo_tick 5000000000, demo_tick 0]). hm_ok insts"
    using tick(1) by (auto simp: demo_tick_def)
  have "\<lparr>ko_id = ''a'', ko_pid = 7, ko_wedged_for = 10000000000, ko_last_activity = 0\<rparr>
      \<in> set (snd (watch demo_wedge_config ((smp, insts) # [demo_tick 5000000000, demo_tick 0])))"
    using demo_watch tick(1) by simp
  from kill_needs_sustained_wedge [OF ok this] tick show ?thesis
    by (simp add: demo_wedge_config_def numeral_3_eq_3)
qed

text \<open>The kill is rechecked against the live map: an instance is removed only if it still runs the same
  process, still holds a slot that waits on it rather than on its client, and has taken no new work
  since the sample; in every other case the map is unchanged, and no other instance is ever touched.\<close>

theorem kill_rechecks:
  assumes "hm_ok insts"
  shows "(fst (kill_wedged_instance k insts) \<longleftrightarrow>
      (\<exists>i. hm_get insts (ko_id k) = Some i \<and> streams_awaiting_downstream i < in_flight_requests i
         \<and> i_child i = Some (ko_pid k) \<and> i_last_activity i = ko_last_activity k))
    \<and> (\<forall>rid. hm_get (snd (kill_wedged_instance k insts)) rid =
        (if fst (kill_wedged_instance k insts) \<and> rid = ko_id k then None else hm_get insts rid))
    \<and> hm_ok (snd (kill_wedged_instance k insts))"
proof -
  have "hm_ok (snd (kill_wedged_instance k insts))"
    using assms by (simp add: kill_wedged_instance_def hm_ok_remove split: option.split)
  moreover have "hm_get (snd (kill_wedged_instance k insts)) rid =
      (if fst (kill_wedged_instance k insts) \<and> rid = ko_id k then None else hm_get insts rid)" for rid
    by (simp add: kill_wedged_instance_def hm_get_remove split: option.split)
  ultimately show ?thesis by (simp add: kill_wedged_instance_def get_pid_def split: option.split)
qed

theorem kill_rechecks_witness:
  "snd (kill_wedged_instance \<lparr>ko_id = ''a'', ko_pid = 8, ko_wedged_for = 1, ko_last_activity = 0\<rparr>
     [(''a'', blank_instance\<lparr>in_flight_requests := 1\<rparr>)]) = [(''a'', blank_instance\<lparr>in_flight_requests := 1\<rparr>)]
   \<and> \<not> fst (kill_wedged_instance \<lparr>ko_id = ''a'', ko_pid = 8, ko_wedged_for = 1, ko_last_activity = 0\<rparr>
     [(''a'', blank_instance\<lparr>in_flight_requests := 1\<rparr>)])"
  using kill_rechecks [of "[(''a'', blank_instance\<lparr>in_flight_requests := 1\<rparr>)]"
      "\<lparr>ko_id = ''a'', ko_pid = 8, ko_wedged_for = 1, ko_last_activity = 0\<rparr>"]
  by (simp add: blank_instance_def kill_wedged_instance_def get_pid_def)

end
