(* ===== verification/Net_Addr.thy ===== *)
theory Net_Addr
  imports Prelude
begin

text \<open>
  Network addresses as the sources use them: \<^verbatim>\<open>IpAddr\<close> and \<^verbatim>\<open>SocketAddr\<close> of the standard library
  with their predicates and printed form, and the URL helpers of \<^verbatim>\<open>src/cluster.rs\<close>. Parsing a URL is
  \<^verbatim>\<open>reqwest::Url::parse\<close>, a library function and a parameter \<open>url_parse\<close>; of a parsed URL the code reads
  the scheme and the port and compares whole URLs.
\<close>

section \<open>IP addresses\<close>

datatype ip_addr = V4 "32 word" | V6 "128 word"

record socket_addr =
  sa_ip :: ip_addr
  sa_port :: u16

definition v4_octet :: "32 word \<Rightarrow> nat \<Rightarrow> nat" where
  "v4_octet a k = unat a div 2 ^ (8 * (3 - k)) mod 256"

definition v6_segments :: "128 word \<Rightarrow> nat list" where
  "v6_segments a = map (\<lambda>k. unat a div 2 ^ (16 * (7 - k)) mod 65536) [0..<8]"

text \<open>\<^verbatim>\<open>to_canonical\<close>: an IPv4-mapped address \<^verbatim>\<open>::ffff:a.b.c.d\<close> becomes the IPv4 address.\<close>

definition to_canonical :: "ip_addr \<Rightarrow> ip_addr" where
  "to_canonical ip = (case ip of
     V4 a \<Rightarrow> V4 a
   | V6 a \<Rightarrow> if unat a div 2 ^ 32 = 65535 then V4 (of_nat (unat a mod 2 ^ 32)) else V6 a)"

definition is_unspecified :: "ip_addr \<Rightarrow> bool" where
  "is_unspecified ip = (case ip of V4 a \<Rightarrow> a = 0 | V6 a \<Rightarrow> a = 0)"

definition is_multicast :: "ip_addr \<Rightarrow> bool" where
  "is_multicast ip = (case ip of
     V4 a \<Rightarrow> 224 \<le> v4_octet a 0 \<and> v4_octet a 0 \<le> 239
   | V6 a \<Rightarrow> hd (v6_segments a) div 256 = 255)"

definition is_broadcast :: "32 word \<Rightarrow> bool" where
  "is_broadcast a = (a = - 1)"

definition is_unicast_link_local :: "128 word \<Rightarrow> bool" where
  "is_unicast_link_local a = (hd (v6_segments a) div 64 = 1018)"

definition is_loopback :: "ip_addr \<Rightarrow> bool" where
  "is_loopback ip = (case ip of V4 a \<Rightarrow> v4_octet a 0 = 127 | V6 a \<Rightarrow> a = 1)"

section \<open>Printing\<close>

definition digit_char :: "nat \<Rightarrow> char" where
  "digit_char d = (if d < 10 then char_of (48 + d) else char_of (87 + d))"

text \<open>A number in base \<open>b\<close> without leading zeros.\<close>

fun show_base :: "nat \<Rightarrow> nat \<Rightarrow> string" where
  "show_base b n = (if b < 2 \<or> n < b then [digit_char n] else show_base b (n div b) @ [digit_char (n mod b)])"

declare show_base.simps [simp del]

fun join_with :: "string \<Rightarrow> string list \<Rightarrow> string" where
  "join_with sep [] = []"
| "join_with sep [s] = s"
| "join_with sep (s # t # ss) = s @ sep @ join_with sep (t # ss)"

text \<open>
  The first longest run of zero segments: \<open>cur\<close> is the run that ends before position \<open>k\<close>, \<open>best\<close> the
  longest so far, both as start and length.
\<close>

fun longest_zeros :: "nat \<Rightarrow> nat \<times> nat \<Rightarrow> nat \<times> nat \<Rightarrow> nat list \<Rightarrow> nat \<times> nat" where
  "longest_zeros k cur best [] = best"
| "longest_zeros k cur best (s # ss) =
     (if s = 0 then
        (let cur' = (if snd cur = 0 then (k, 1) else (fst cur, snd cur + 1));
             best' = (if snd best < snd cur' then cur' else best)
         in longest_zeros (k + 1) cur' best' ss)
      else longest_zeros (k + 1) (0, 0) best ss)"

definition show_v4 :: "32 word \<Rightarrow> string" where
  "show_v4 a = join_with ''.'' (map (\<lambda>k. show_base 10 (v4_octet a k)) [0..<4])"

definition show_v6 :: "128 word \<Rightarrow> string" where
  "show_v6 a =
     (if unat a div 2 ^ 32 = 65535 then ''::ffff:'' @ show_v4 (of_nat (unat a mod 2 ^ 32))
      else
        (let segs = map (show_base 16) (v6_segments a);
             (start, len) = longest_zeros 0 (0, 0) (0, 0) (v6_segments a)
         in if 1 < len
            then join_with '':'' (take start segs) @ ''::'' @ join_with '':'' (drop (start + len) segs)
            else join_with '':'' segs))"

definition show_socket :: "socket_addr \<Rightarrow> string" where
  "show_socket sa = (case sa_ip sa of
     V4 a \<Rightarrow> show_v4 a @ '':'' @ show_base 10 (unat (sa_port sa))
   | V6 a \<Rightarrow> ''['' @ show_v6 a @ '']:'' @ show_base 10 (unat (sa_port sa)))"

section \<open>URLs of peers\<close>

record url =
  url_text :: string
  url_scheme :: string
  port_or_known_default :: "u16 option"

definition after_scheme :: "string \<Rightarrow> string" where
  "after_scheme u = (case strip_prefix u ''http://'' of
     Some s \<Rightarrow> s
   | None \<Rightarrow> (case strip_prefix u ''https://'' of Some s \<Rightarrow> s | None \<Rightarrow> u))"

definition extract_host_from_url :: "string \<Rightarrow> string" where
  "extract_host_from_url u =
     (let rest = after_scheme u in
      if starts_with rest ''['' then
        (case split_once CHR '']'' rest of Some (a, _) \<Rightarrow> drop 1 a | None \<Rightarrow> rest)
      else hd (split_on CHR '':'' rest))"

definition is_loopback_address :: "string \<Rightarrow> bool" where
  "is_loopback_address u =
     (let rest = after_scheme u;
          host = (if starts_with rest ''['' then
              (case split_once CHR '']'' rest of Some (a, _) \<Rightarrow> a @ '']'' | None \<Rightarrow> rest)
            else hd (split_on CHR '':'' rest))
      in host = ''localhost'' \<or> host = ''127.0.0.1'' \<or> starts_with host ''127.''
         \<or> host = ''::1'' \<or> host = ''[::1]'')"

definition parse_peer_url :: "(string \<Rightarrow> url option) \<Rightarrow> string \<Rightarrow> url option" where
  "parse_peer_url url_parse address =
     (case url_parse (if contains_str address ''://'' then address else ''http://'' @ address) of
        None \<Rightarrow> None
      | Some u \<Rightarrow> if url_scheme u \<in> {''http'', ''https''} then Some u else None)"

definition same_peer_url :: "(string \<Rightarrow> url option) \<Rightarrow> string \<Rightarrow> string \<Rightarrow> bool" where
  "same_peer_url url_parse left right =
     (case (parse_peer_url url_parse left, parse_peer_url url_parse right) of
        (Some l, Some r) \<Rightarrow> url_text l = url_text r | _ \<Rightarrow> False)"

definition source_peer_url :: "(string \<Rightarrow> url option) \<Rightarrow> string \<Rightarrow> socket_addr \<Rightarrow> string option" where
  "source_peer_url url_parse advertised source =
     (let ip = to_canonical (sa_ip source) in
      if is_unspecified ip \<or> is_multicast ip then None
      else if (case ip of V4 a \<Rightarrow> is_broadcast a | V6 _ \<Rightarrow> False) then None
      else if (case ip of V6 a \<Rightarrow> is_unicast_link_local a | V4 _ \<Rightarrow> False) then None
      else (case parse_peer_url url_parse advertised of
          None \<Rightarrow> None
        | Some u \<Rightarrow>
            (case port_or_known_default u of
               None \<Rightarrow> None
             | Some p \<Rightarrow> if p = 0 then None
                 else Some (url_scheme u @ ''://'' @ show_socket \<lparr>sa_ip = ip, sa_port = p\<rparr>))))"

section \<open>What printed addresses look like\<close>

definition digit_val :: "char \<Rightarrow> nat" where
  "digit_val c = (if (of_char c :: nat) < 58 then of_char c - 48 else of_char c - 87)"

definition read_base :: "nat \<Rightarrow> string \<Rightarrow> nat" where
  "read_base b s = foldl (\<lambda>n c. n * b + digit_val c) 0 s"

text \<open>\<^verbatim>\<open>str::parse::<u16>\<close>\<close>

definition parse_u16 :: "string \<Rightarrow> u16 option" where
  "parse_u16 s =
     (let ds = (case s of c # t \<Rightarrow> if c = CHR ''+'' then t else s | [] \<Rightarrow> []) in
      if ds = [] \<or> \<not> list_all is_digit ds then None
      else let n = read_base 10 ds in if n < 65536 then Some (of_nat n) else None)"

lemma of_char_digit: "d < 16 \<Longrightarrow> (of_char (digit_char d) :: nat) = (if d < 10 then 48 + d else 87 + d)"
  by (auto simp: digit_char_def of_char_of)

lemma digit_val_char: "d < 16 \<Longrightarrow> digit_val (digit_char d) = d"
  by (simp add: digit_val_def of_char_digit)

lemma mod_small: "2 \<le> b \<Longrightarrow> b \<le> 16 \<Longrightarrow> n mod b < (16 :: nat)"
  using mod_less_divisor [of b n] by linarith

lemma read_show_base: "2 \<le> b \<Longrightarrow> b \<le> 16 \<Longrightarrow> read_base b (show_base b n) = n"
proof (induction b n rule: show_base.induct)
  case (1 b n)
  show ?case
  proof (cases "n < b")
    case True
    then show ?thesis using 1 by (simp add: show_base.simps [of b n] read_base_def digit_val_char)
  next
    case False
    have "n mod b < 16" using 1 by (intro mod_small)
    with 1 False show ?thesis
      by (simp add: show_base.simps [of b n] read_base_def digit_val_char)
  qed
qed

lemma show_base_inject: "2 \<le> b \<Longrightarrow> b \<le> 16 \<Longrightarrow> show_base b m = show_base b n \<Longrightarrow> m = n"
  by (metis read_show_base)

lemma show_base_chars:
  "2 \<le> b \<Longrightarrow> b \<le> 16 \<Longrightarrow> c \<in> set (show_base b n) \<Longrightarrow> \<exists>d < 16. c = digit_char d"
proof (induction b n rule: show_base.induct)
  case (1 b n)
  have small: "n mod b < 16" using 1 by (intro mod_small)
  show ?case
  proof (cases "n < b")
    case True
    with 1 have "n < 16" "c = digit_char n" by (simp_all add: show_base.simps [of b n])
    then show ?thesis by blast
  next
    case False
    with 1 small show ?thesis by (auto simp: show_base.simps [of b n])
  qed
qed

lemma show_base_nonempty [simp]: "show_base b n \<noteq> []"
  by (subst show_base.simps) simp

lemma digit_char_not:
  "d < 16 \<Longrightarrow> digit_char d \<noteq> CHR '':'' \<and> digit_char d \<noteq> CHR ''.'' \<and> digit_char d \<noteq> CHR '']'' \<and> digit_char d \<noteq> CHR ''[''
   \<and> digit_char d \<noteq> CHR ''l''"
  using of_char_digit [of d] by (auto simp: split: if_splits)

lemma show_base_plain:
  assumes "2 \<le> b" "b \<le> 16"
  shows "CHR '':'' \<notin> set (show_base b n)" "CHR ''.'' \<notin> set (show_base b n)"
    "CHR '']'' \<notin> set (show_base b n)" "CHR ''['' \<notin> set (show_base b n)" "CHR ''l'' \<notin> set (show_base b n)"
  using show_base_chars [OF assms] digit_char_not by metis+

lemma set_join_with: "set (join_with sep ss) \<subseteq> set sep \<union> (\<Union> (set ` set ss))"
  by (induction sep ss rule: join_with.induct) auto

lemma join_with_empty: "[] \<notin> set ss \<Longrightarrow> join_with sep ss = [] \<longleftrightarrow> ss = []"
  by (cases "(sep, ss)" rule: join_with.cases) auto

lemma hd_join_with: "[] \<notin> set ss \<Longrightarrow> ss \<noteq> [] \<Longrightarrow> hd (join_with sep ss) \<in> set (hd ss)"
  by (cases "(sep, ss)" rule: join_with.cases) auto

lemma join_with_plain:
  "join_with [c] ss = w \<Longrightarrow> c \<notin> set w \<Longrightarrow> ss \<noteq> [] \<Longrightarrow> ss = [w]"
  by (cases "([c], ss)" rule: join_with.cases) auto

text \<open>The run that is shortened consists of zeros.\<close>

definition zero_run :: "nat list \<Rightarrow> nat \<times> nat \<Rightarrow> bool" where
  "zero_run ss r = (fst r + snd r \<le> length ss \<and> (\<forall>k. fst r \<le> k \<and> k < fst r + snd r \<longrightarrow> ss ! k = 0))"

lemma zero_run_append: "zero_run ps r \<Longrightarrow> zero_run (ps @ ss) r"
  by (auto simp: zero_run_def nth_append)

lemma longest_zeros_run:
  "k = length ps \<Longrightarrow> zero_run ps cur \<Longrightarrow> (snd cur = 0 \<or> fst cur + snd cur = k) \<Longrightarrow> zero_run ps best
   \<Longrightarrow> zero_run (ps @ ss) (longest_zeros k cur best ss)"
proof (induction k cur best ss arbitrary: ps rule: longest_zeros.induct)
  case (2 k cur best s ss)
  show ?case
  proof (cases "s = 0")
    case True
    define cur' where "cur' = (if snd cur = 0 then (k, 1) else (fst cur, snd cur + 1))"
    define best' where "best' = (if snd best < snd cur' then cur' else best)"
    have cur': "zero_run (ps @ [s]) cur'" "fst cur' + snd cur' = k + 1"
      using 2 True by (auto simp: cur'_def zero_run_def nth_append)
    then have "zero_run (ps @ [s]) best'" using 2(6) by (simp add: best'_def zero_run_append)
    moreover have "longest_zeros k cur best (s # ss) = longest_zeros (k + 1) cur' best' ss"
      by (simp add: True cur'_def best'_def Let_def)
    ultimately show ?thesis
      using 2(1) [OF True cur'_def best'_def, of "ps @ [s]"] cur' 2(3) by simp
  next
    case False
    with 2(2) [OF False, of "ps @ [s]"] 2 show ?thesis by (simp add: zero_run_append) (simp add: zero_run_def)
  qed
qed simp

lemma v6_segments_length [simp]: "length (v6_segments a) = 8"
  by (simp add: v6_segments_def)

lemma div_high_zero:
  "n div 2 ^ (k + 16) = 0 \<Longrightarrow> n div 2 ^ k mod 65536 = 0 \<Longrightarrow> n div 2 ^ k = (0 :: nat)"
proof -
  assume "n div 2 ^ (k + 16) = 0" and low: "n div 2 ^ k mod 65536 = 0"
  then have "n div 2 ^ k div 65536 = 0" by (simp add: power_add div_mult2_eq)
  with low show ?thesis using div_mult_mod_eq [of "n div 2 ^ k" 65536] by simp
qed

lemma v6_one:
  assumes "\<forall>k < 7. v6_segments a ! k = 0" and "v6_segments a ! 7 = 1"
  shows "a = 1"
proof -
  have seg: "v6_segments a ! k = unat a div 2 ^ (16 * (7 - k)) mod 65536" if "k < 8" for k
    using that by (simp add: v6_segments_def)
  have "unat a div 2 ^ (16 * (8 - k)) = 0" if "k \<le> 7" for k
    using that
  proof (induction k)
    case 0
    have "unat a < 2 ^ LENGTH(128)" by (rule unsigned_less)
    then show ?case by simp
  next
    case (Suc k)
    then have "16 * (8 - k) = 16 * (7 - k) + 16" by simp
    then have "unat a div 2 ^ (16 * (7 - k) + 16) = 0" using Suc by (metis Suc_leD)
    moreover have "unat a div 2 ^ (16 * (7 - k)) mod 65536 = 0" using Suc.prems assms(1) seg by simp
    ultimately show ?case using div_high_zero by simp
  qed
  from this [of 7] have "unat a div 65536 = 0" by simp
  moreover have "unat a mod 65536 = 1" using seg [of 7] assms(2) by simp
  ultimately have "unat a = 1" by (metis div_mod_decomp add_0 mult_0)
  then show ?thesis by (simp add: word_unat_eq_iff)
qed

lemma hd_join_not:
  assumes "[] \<notin> set ss" "ss \<noteq> []" "\<forall>s \<in> set ss. c \<notin> set s"
  shows "hd (join_with sep ss) \<noteq> c"
  using hd_join_with [OF assms(1,2), of sep] hd_in_set [OF assms(2)] assms(3) by metis

lemma show_v6_one: "show_v6 a = ''::1'' \<Longrightarrow> a = 1"
proof -
  assume one: "show_v6 a = ''::1''"
  let ?segs = "map (show_base 16) (v6_segments a)"
  obtain start len where run: "longest_zeros 0 (0, 0) (0, 0) (v6_segments a) = (start, len)" by fastforce
  have zeros: "zero_run (v6_segments a) (start, len)"
    using longest_zeros_run [of 0 "[]" "(0, 0)" "(0, 0)" "v6_segments a"] run by (simp add: zero_run_def)
  have plain: "[] \<notin> set ?segs" "\<forall>s \<in> set ?segs. CHR '':'' \<notin> set s"
    using show_base_plain(1) [of 16] by (auto simp: show_base_nonempty [symmetric])
  have long: "?segs \<noteq> []" by (metis length_map list.size(3) v6_segments_length zero_neq_numeral)
  have unmapped: "unat a div 2 ^ 32 \<noteq> 65535" using one by (auto simp: show_v6_def)
  have two: "1 < len"
  proof (rule ccontr)
    assume "\<not> 1 < len"
    then have "join_with '':'' ?segs = ''::1''" using one unmapped run by (simp add: show_v6_def)
    then show False using hd_join_not [OF plain(1) long plain(2), of "'':''"] by simp
  qed
  let ?pre = "take start ?segs" and ?post = "drop (start + len) ?segs"
  have eq: "join_with '':'' ?pre @ ''::'' @ join_with '':'' ?post = ''::1''"
    using one unmapped run two by (simp add: show_v6_def Let_def)
  have sub: "[] \<notin> set ?pre" "\<forall>s \<in> set ?pre. CHR '':'' \<notin> set s"
    using plain set_take_subset [of start ?segs] by blast+
  have "?pre = []"
  proof (rule ccontr)
    assume ne: "?pre \<noteq> []"
    then have "join_with '':'' ?pre \<noteq> []" using join_with_empty [OF sub(1)] by blast
    then have "hd (join_with '':'' ?pre) = CHR '':''" using arg_cong [OF eq, of hd] by (metis hd_append2 list.sel(1))
    then show False using hd_join_not [OF sub(1) ne sub(2)] by blast
  qed
  then have start: "start = 0" using long by simp
  with eq have "?post = [''1'']" by (intro join_with_plain [where c = "CHR '':''"]) auto
  then have last_seg: "length ?post = 1" "?post ! 0 = ''1''" by simp_all
  then have len: "len = 7" using start by simp
  then have "show_base 16 (v6_segments a ! 7) = ''1''" using last_seg(2) start by simp
  moreover have "show_base 16 1 = ''1''" by (simp add: show_base.simps digit_char_def char_of_def bit_0)
  ultimately have "v6_segments a ! 7 = 1" using show_base_inject [of 16] by simp
  then show "a = 1" using zeros start len by (intro v6_one) (auto simp: zero_run_def)
qed

lemma show_v4_split: "show_v4 a = show_base 10 (v4_octet a 0) @ CHR ''.'' #
    join_with ''.'' (map (\<lambda>k. show_base 10 (v4_octet a k)) [1..<4])"
  by (simp add: show_v4_def upt_conv_Cons)

lemma join_chars: "c \<notin> set sep \<Longrightarrow> \<forall>s \<in> set ss. c \<notin> set s \<Longrightarrow> c \<notin> set (join_with sep ss)"
  using set_join_with [of sep ss] by blast

lemma show_v4_chars: "CHR '':'' \<notin> set (show_v4 a)" "CHR '']'' \<notin> set (show_v4 a)"
  unfolding show_v4_def by (rule join_chars; simp add: show_base_plain)+

lemma show_v6_chars: "CHR '']'' \<notin> set (show_v6 a)"
proof -
  have seg: "CHR '']'' \<notin> set (show_base 16 n)" for n by (rule show_base_plain) simp_all
  have "CHR '']'' \<notin> set (join_with '':'' (map (show_base 16) xs))" for xs
    by (rule join_chars) (simp_all add: seg)
  from this [of "take _ _"] this [of "drop _ _"] this
have "CHR '']'' \<notin> set (show_v6 a)"
    using show_v4_chars(2) unfolding show_v6_def Let_def by (simp add: take_map drop_map split: prod.splits)
  then show ?thesis .
qed

lemma after_scheme_url:
  "scheme \<in> {''http'', ''https''} \<Longrightarrow> after_scheme (scheme @ ''://'' @ s) = s"
  by (auto simp: after_scheme_def strip_prefix_def starts_with_def)

lemma v4_url_not_loopback:
  assumes "scheme \<in> {''http'', ''https''}" and "v4_octet a 0 \<noteq> 127"
  shows "\<not> is_loopback_address (scheme @ ''://'' @ show_v4 a @ '':'' @ p)"
proof -
  obtain r where a: "show_v4 a = show_base 10 (v4_octet a 0) @ CHR ''.'' # r" using show_v4_split by blast
  have "show_base 10 127 = ''127''" by (simp add: show_base.simps digit_char_def char_of_def bit_0)
  then have ne: "show_base 10 (v4_octet a 0) \<noteq> ''127''" using assms(2) show_base_inject [of 10] by force
  have dot: "CHR ''.'' \<notin> set (show_base 10 (v4_octet a 0))" by (rule show_base_plain) simp_all
  have dot_in: "CHR ''.'' \<in> set (show_v4 a)" by (simp add: a)
  have "\<not> starts_with (show_v4 a) ''127.''"
  proof
    assume "starts_with (show_v4 a) ''127.''"
    then obtain t where "show_base 10 (v4_octet a 0) @ CHR ''.'' # r = ''127'' @ CHR ''.'' # t"
      unfolding a by (auto simp: starts_with_iff)
    then have "split_once CHR ''.'' (''127'' @ CHR ''.'' # t) = Some (show_base 10 (v4_octet a 0), r)"
      using split_once_append [OF dot] by metis
    moreover have "split_once CHR ''.'' (''127'' @ CHR ''.'' # t) = Some (''127'', t)"
      by (rule split_once_append) simp
    ultimately show False using ne by simp
  qed
  moreover have "show_v4 a \<noteq> ''127.0.0.1''" using calculation by (auto simp: starts_with_def)
  moreover have "show_v4 a \<noteq> ''localhost''" "show_v4 a \<noteq> ''::1''" "show_v4 a \<noteq> ''[::1]''"
    using dot_in by auto
  moreover have "\<not> starts_with (show_v4 a @ '':'' @ p) ''[''"
    using a show_base_plain(4) [of 10 "v4_octet a 0"]
    by (cases "show_base 10 (v4_octet a 0)") (auto simp: starts_with_def)
  moreover have "hd (split_on CHR '':'' (show_v4 a @ '':'' @ p)) = show_v4 a"
    using show_v4_chars(1) by (simp add: split_on_append)
  ultimately show ?thesis
    unfolding is_loopback_address_def after_scheme_url [OF assms(1)] by (simp add: Let_def)
qed

lemma v6_url_not_loopback:
  assumes "scheme \<in> {''http'', ''https''}" and "a \<noteq> 1"
  shows "\<not> is_loopback_address (scheme @ ''://'' @ ''['' @ show_v6 a @ '']:'' @ p)"
proof -
  have "split_once CHR '']'' ((CHR ''['' # show_v6 a) @ CHR '']'' # CHR '':'' # p)
      = Some (CHR ''['' # show_v6 a, CHR '':'' # p)"
    using show_v6_chars by (intro split_once_append) simp
  moreover have "show_v6 a \<noteq> ''::1''" using show_v6_one assms(2) by blast
  ultimately show ?thesis
    unfolding is_loopback_address_def after_scheme_url [OF assms(1)]
    by (auto simp: Let_def starts_with_def)
qed

text \<open>A route derived from a non-loopback source is never a loopback route.\<close>

lemma source_url_not_loopback:
  assumes "source_peer_url url_parse advertised source = Some u"
    and "\<not> is_loopback (to_canonical (sa_ip source))"
  shows "\<not> is_loopback_address u"
proof -
  obtain pu :: url and p where pu: "url_scheme pu \<in> {''http'', ''https''}"
    and u: "u = url_scheme pu @ ''://'' @ show_socket \<lparr>sa_ip = to_canonical (sa_ip source), sa_port = p\<rparr>"
  proof -
    from assms(1) obtain pu :: url and p where "parse_peer_url url_parse advertised = Some pu"
      "u = url_scheme pu @ ''://'' @ show_socket \<lparr>sa_ip = to_canonical (sa_ip source), sa_port = p\<rparr>"
      unfolding source_peer_url_def Let_def by (auto simp only: option.simps split: if_splits option.splits)
    moreover from this(1) have "url_scheme pu \<in> {''http'', ''https''}"
      unfolding parse_peer_url_def by (simp split: option.splits if_splits)
    ultimately show ?thesis using that by blast
  qed
  show ?thesis
    using assms(2) v4_url_not_loopback [OF pu] v6_url_not_loopback [OF pu]
    by (cases "to_canonical (sa_ip source)") (simp_all add: u show_socket_def is_loopback_def)
qed

end
