(* ===== verification/Std_Text.thy ===== *)
theory Std_Text
  imports Prelude
begin

text \<open>
  Text functions of the standard library on byte strings: \<^verbatim>\<open>lines\<close>, \<^verbatim>\<open>split_whitespace\<close> and the
  facts about \<^verbatim>\<open>trim\<close> the readers of files and headers rest on.
\<close>

abbreviation newline :: char where "newline \<equiv> CHR 0x0A"
abbreviation carriage :: char where "carriage \<equiv> CHR 0x0D"

section \<open>Lines and words\<close>

definition strip_cr :: "string \<Rightarrow> string" where
  "strip_cr l = (if l \<noteq> [] \<and> last l = carriage then butlast l else l)"

text \<open>
  \<^verbatim>\<open>lines\<close>: the parts between line feeds, each without a carriage return at its end; no line
  follows a final line feed. A final part without a line feed keeps its carriage return.
\<close>

fun str_lines :: "string \<Rightarrow> string list" where
  "str_lines s = (case split_once newline s of
     None \<Rightarrow> if s = [] then [] else [s]
   | Some (l, rest) \<Rightarrow> strip_cr l # (if length rest < length s then str_lines rest else []))"

declare str_lines.simps [simp del]

text \<open>\<^verbatim>\<open>split_whitespace\<close>: the maximal runs of other characters.\<close>

function split_whitespace :: "string \<Rightarrow> string list" where
  "split_whitespace s = (let t = dropWhile is_white s in
     if t = [] then []
     else takeWhile (\<lambda>c. \<not> is_white c) t # split_whitespace (dropWhile (\<lambda>c. \<not> is_white c) t))"
  by pat_completeness auto
termination
proof (relation "measure length")
  fix s t :: string
  assume t: "t = dropWhile is_white s" "t \<noteq> []"
  then have "\<not> is_white (hd t)" by (metis hd_dropWhile)
  then have "length (dropWhile (\<lambda>c. \<not> is_white c) t) < length t"
    using t(2) by (cases t) (auto simp: le_imp_less_Suc length_dropWhile_le)
  also have "length t \<le> length s" using t(1) by (simp add: length_dropWhile_le)
  finally show "(dropWhile (\<lambda>c. \<not> is_white c) t, s) \<in> measure length" by simp
qed simp

declare split_whitespace.simps [simp del]

section \<open>What they do on plain text\<close>

definition plain_word :: "string \<Rightarrow> bool" where
  "plain_word w = (w \<noteq> [] \<and> list_all (\<lambda>c. \<not> is_white c) w)"

lemma is_white_simps [simp]: "is_white newline" "is_white carriage" "is_white CHR '' ''"
  "\<not> is_white CHR '':''" "\<not> is_white CHR ''#''"
  by (simp_all add: is_white_def)

lemma dropWhile_plain: "plain_word w \<Longrightarrow> dropWhile is_white (w @ s) = w @ s"
  by (cases w) (simp_all add: plain_word_def)

lemma split_words_single: "plain_word w \<Longrightarrow> split_whitespace w = [w]"
proof -
  assume w: "plain_word w"
  then have "takeWhile (\<lambda>c. \<not> is_white c) w = w" by (simp add: plain_word_def list_all_iff)
  moreover have "split_whitespace (dropWhile (\<lambda>c. \<not> is_white c) w) = []"
  proof -
    have "dropWhile (\<lambda>c. \<not> is_white c) w = []" using w by (simp add: plain_word_def list_all_iff)
    then show ?thesis by (simp only:) (simp add: split_whitespace.simps)
  qed
  moreover have "dropWhile is_white w = w" using dropWhile_plain [OF w, of "[]"] by simp
  ultimately show ?thesis
    using w by (subst split_whitespace.simps) (simp add: plain_word_def Let_def)
qed

lemma split_words_Cons:
  "plain_word w \<Longrightarrow> split_whitespace (w @ CHR '' '' # s) = w # split_whitespace s"
proof -
  assume w: "plain_word w"
  have a: "\<forall>x \<in> set w. \<not> is_white x" using w by (simp add: plain_word_def list_all_iff)
  then have "takeWhile (\<lambda>c. \<not> is_white c) (w @ CHR '' '' # s) = w"
    "dropWhile (\<lambda>c. \<not> is_white c) (w @ CHR '' '' # s) = CHR '' '' # s"
    by (auto simp: takeWhile_append2 dropWhile_append2)
  moreover have "split_whitespace (CHR '' '' # s) = split_whitespace s"
    by (subst (1 2) split_whitespace.simps) simp
  ultimately show ?thesis
    using w dropWhile_plain [OF w] by (subst split_whitespace.simps) (simp add: plain_word_def Let_def)
qed

lemma trim_id:
  "s \<noteq> [] \<Longrightarrow> \<not> is_white (hd s) \<Longrightarrow> \<not> is_white (last s) \<Longrightarrow> trim s = s"
proof -
  assume s: "s \<noteq> []" "\<not> is_white (hd s)" "\<not> is_white (last s)"
  then have "dropWhile is_white s = s" by (cases s) simp_all
  moreover have "dropWhile is_white (rev s) = rev s" using s by (cases s rule: rev_cases) simp_all
  ultimately show ?thesis by (simp add: trim_def)
qed

lemma trim_space: "trim (CHR '' '' # s) = trim s"
  by (simp add: trim_def)

lemma str_lines_Nil [simp]: "str_lines [] = []"
  by (simp add: str_lines.simps)

lemma str_lines_Cons:
  "newline \<notin> set l \<Longrightarrow> str_lines (l @ newline # rest) = strip_cr l # str_lines rest"
  by (subst str_lines.simps) (simp add: split_once_append)

lemma strip_cr_plain: "l = [] \<or> last l \<noteq> carriage \<Longrightarrow> strip_cr l = l"
  by (auto simp: strip_cr_def)

lemma strip_cr_crlf [simp]: "strip_cr (l @ [carriage]) = l"
  by (simp add: strip_cr_def)

end
