(* ===== verification/Noise_Transport.thy ===== *)
theory Noise_Transport
  imports Launch_Args Credentials Net_Addr Std_Text
begin

text \<open>
  HTTP over an encrypted connection: \<^verbatim>\<open>src/noise/transport.rs\<close>, the length-prefixed messages of
  \<^verbatim>\<open>src/noise/handshake.rs\<close> and the response writer of \<^verbatim>\<open>src/api.rs\<close>. A connection is the list of bytes
  still to be read; it ends where the peer closes it or falls silent. The cipher of a session is the
  library \<^verbatim>\<open>snow\<close>: its states and its encryption and decryption are parameters, and \<open>session_law\<close> states
  what they promise. Of \<^verbatim>\<open>from_utf8_lossy\<close> the result on invalid UTF-8 is a parameter.
\<close>

section \<open>Frames\<close>

definition MAX_FRAME_SIZE :: nat where "MAX_FRAME_SIZE = 65535 - 16"
definition MAX_MESSAGE_SIZE :: nat where "MAX_MESSAGE_SIZE = 64 * 1024 * 1024"

datatype transport_error =
    StreamEnded
  | FrameTooLarge
  | EncryptFailed
  | DecryptFailed
  | MessageTooLarge
  | NoHeaderBoundary
  | NoStartLine
  | InvalidRequestLine
  | InvalidStatusLine
  | InvalidStatus
  | BufferTooSmall

type_synonym 's cipher = "'s \<Rightarrow> string \<Rightarrow> (string \<times> 's) option"

function chunks :: "nat \<Rightarrow> 'a list \<Rightarrow> 'a list list" where
  "chunks n xs = (if n = 0 \<or> xs = [] then [] else take n xs # chunks n (drop n xs))"
  by pat_completeness auto
termination
  by (relation "measure (\<lambda>(n, xs). length xs)") auto

declare chunks.simps [simp del]

text \<open>What is written, and the session afterwards or the error; frames before an error are out.\<close>

fun send_frames :: "'s cipher \<Rightarrow> 's \<Rightarrow> string list \<Rightarrow> string \<times> ('s, transport_error) result" where
  "send_frames enc s [] = ([], Ok s)"
| "send_frames enc s (c # cs) =
     (case enc s c of
        None \<Rightarrow> ([], Err EncryptFailed)
      | Some (e, s') \<Rightarrow>
          (let (out, r) = send_frames enc s' cs in (be_bytes 4 (length e) @ e @ out, r)))"

definition send_data :: "'s cipher \<Rightarrow> 's \<Rightarrow> string \<Rightarrow> string \<times> ('s, transport_error) result" where
  "send_data enc s data =
     (case send_frames enc s (chunks MAX_FRAME_SIZE data) of
        (out, Inl e) \<Rightarrow> (out, Err e)
      | (out, Inr s') \<Rightarrow> (out @ be_bytes 4 0, Ok s'))"

function recv_frames ::
  "'s cipher \<Rightarrow> 's \<Rightarrow> string \<Rightarrow> string \<Rightarrow> (string \<times> 's \<times> string, transport_error) result" where
  "recv_frames dec s result stream =
     (if length stream < 4 then Err StreamEnded
      else
        (let len = from_be_bytes (take 4 stream); rest = drop 4 stream in
         if len = 0 then Ok (result, s, rest)
         else if MAX_FRAME_SIZE + 16 < len then Err FrameTooLarge
         else if length rest < len then Err StreamEnded
         else
           (case dec s (take len rest) of
              None \<Rightarrow> Err DecryptFailed
            | Some (p, s') \<Rightarrow>
                if MAX_MESSAGE_SIZE < length (result @ p) then Err MessageTooLarge
                else recv_frames dec s' (result @ p) (drop len rest))))"
  by pat_completeness auto
termination
  by (relation "measure (\<lambda>(dec, s, result, stream). length stream)") auto

declare recv_frames.simps [simp del]

definition recv_data :: "'s cipher \<Rightarrow> 's \<Rightarrow> string \<Rightarrow> (string \<times> 's \<times> string, transport_error) result" where
  "recv_data dec s stream = recv_frames dec s [] stream"

section \<open>Frames round trip\<close>

text \<open>
  What the library promises of a sending state and the receiving state it is paired with, for
  payloads of the documented maximum: encryption succeeds, adds a tag of 16 bytes, and is undone.
\<close>

definition session_law :: "'s cipher \<Rightarrow> 't cipher \<Rightarrow> ('s \<Rightarrow> 't \<Rightarrow> bool) \<Rightarrow> bool" where
  "session_law enc dec paired = (\<forall>s r p. paired s r \<and> length p \<le> MAX_FRAME_SIZE \<longrightarrow>
     (\<exists>c s' r'. enc s p = Some (c, s') \<and> dec r c = Some (p, r') \<and> length c = length p + 16 \<and> paired s' r'))"

lemma session_lawE:
  assumes "session_law enc dec paired" "paired s r" "length p \<le> MAX_FRAME_SIZE"
  obtains c s' r' where "enc s p = Some (c, s')" "dec r c = Some (p, r')" "length c = length p + 16" "paired s' r'"
  using assms unfolding session_law_def by blast

lemma chunks_Nil [simp]: "chunks n [] = []"
  by (simp add: chunks.simps)

lemma concat_chunks: "0 < n \<Longrightarrow> concat (chunks n xs) = xs"
  by (induction n xs rule: chunks.induct) (subst chunks.simps, auto)

lemma chunks_sizes: "c \<in> set (chunks n xs) \<Longrightarrow> 0 < length c \<and> length c \<le> n"
proof (induction n xs rule: chunks.induct)
  case (1 n xs)
  then show ?case by (cases "n = 0 \<or> xs = []") (auto simp: chunks.simps [of n xs])
qed

lemma from_be_be_bytes: "from_be_bytes (be_bytes k n) = n mod 256 ^ k"
proof (induction k arbitrary: n)
  case (Suc k)
  have "from_be_bytes (be_bytes (Suc k) n) = from_be_bytes (be_bytes k (n div 256)) * 256 + n mod 256"
    by (simp add: from_be_bytes_def)
  also have "\<dots> = (n div 256 mod 256 ^ k) * 256 + n mod 256" by (simp add: Suc.IH)
  also have "\<dots> = n mod 256 ^ Suc k" by (simp add: mod_mult2_eq mult.commute)
  finally show ?case .
qed (simp add: from_be_bytes_def)

lemma recv_one_frame:
  assumes "dec r c = Some (p, r')" "length c = length p + 16" "0 < length p" "length p \<le> MAX_FRAME_SIZE"
  shows "recv_frames dec r result (be_bytes 4 (length c) @ c @ rest) =
     (if MAX_MESSAGE_SIZE < length (result @ p) then Err MessageTooLarge
      else recv_frames dec r' (result @ p) rest)"
proof -
  have len: "from_be_bytes (be_bytes 4 (length c)) = length c"
    using assms(2,4) by (simp add: from_be_be_bytes MAX_FRAME_SIZE_def)
  have b: "length (be_bytes 4 (length c)) = 4" by (rule length_be_bytes)
  have "take 4 (be_bytes 4 (length c) @ c @ rest) = be_bytes 4 (length c)"
    "drop 4 (be_bytes 4 (length c) @ c @ rest) = c @ rest" using b by simp_all
  moreover have "length c \<noteq> 0" "\<not> MAX_FRAME_SIZE + 16 < length c" using assms by simp_all
  ultimately show ?thesis
    using b by (subst recv_frames.simps) (simp only: len Let_def, simp add: assms(1))
qed

lemma recv_end: "recv_frames dec r result (be_bytes 4 0 @ rest) = Ok (result, r, rest)"
proof -
  have "length (be_bytes 4 0) = 4" by (rule length_be_bytes)
  then show ?thesis by (subst recv_frames.simps) (simp add: from_be_be_bytes)
qed

lemma frames_roundtrip:
  assumes "session_law enc dec paired" "paired s r"
    and "\<forall>c \<in> set cs. 0 < length c \<and> length c \<le> MAX_FRAME_SIZE" "length result \<le> MAX_MESSAGE_SIZE"
  shows "\<exists>out s'. send_frames enc s cs = (out, Ok s')
    \<and> (if length result + length (concat cs) \<le> MAX_MESSAGE_SIZE
       then \<exists>r'. paired s' r' \<and> (\<forall>rest. recv_frames dec r result (out @ rest) = recv_frames dec r' (result @ concat cs) rest)
       else \<forall>rest. recv_frames dec r result (out @ rest) = Err MessageTooLarge)"
  using assms(2-)
proof (induction cs arbitrary: s r result)
  case (Cons c cs)
  from session_lawE [OF assms(1) Cons.prems(1), of c] Cons.prems(2) obtain e s1 r1 where
    e: "enc s c = Some (e, s1)" "dec r e = Some (c, r1)" "length e = length c + 16" "paired s1 r1" by auto
  have c: "0 < length c" "length c \<le> MAX_FRAME_SIZE" using Cons.prems(2) by auto
  show ?case
  proof (cases "length (result @ c) \<le> MAX_MESSAGE_SIZE")
    case True
    from Cons.IH [OF e(4), of "result @ c"] Cons.prems(2) True obtain out s' where
      out: "send_frames enc s1 cs = (out, Ok s')" and rest:
      "if length (result @ c) + length (concat cs) \<le> MAX_MESSAGE_SIZE
       then \<exists>r'. paired s' r' \<and> (\<forall>rest. recv_frames dec r1 (result @ c) (out @ rest)
          = recv_frames dec r' ((result @ c) @ concat cs) rest)
       else \<forall>rest. recv_frames dec r1 (result @ c) (out @ rest) = Err MessageTooLarge"
      by auto
    have step: "recv_frames dec r result ((be_bytes 4 (length e) @ e @ out) @ rest)
        = recv_frames dec r1 (result @ c) (out @ rest)" for rest
      using recv_one_frame [where dec = dec, OF e(2,3) c, of result "out @ rest"] True by simp
    have "send_frames enc s (c # cs) = (be_bytes 4 (length e) @ e @ out, Ok s')" by (simp add: e(1) out)
    moreover from rest have "if length result + length (concat (c # cs)) \<le> MAX_MESSAGE_SIZE
       then \<exists>r'. paired s' r' \<and> (\<forall>rest. recv_frames dec r result ((be_bytes 4 (length e) @ e @ out) @ rest)
          = recv_frames dec r' (result @ concat (c # cs)) rest)
       else \<forall>rest. recv_frames dec r result ((be_bytes 4 (length e) @ e @ out) @ rest) = Err MessageTooLarge"
      unfolding step by (simp add: add.assoc cong: if_cong)
    ultimately show ?thesis by blast
  next
    case False
    from Cons.IH [OF e(4), of "[]"] Cons.prems(2) obtain out s' where
      out: "send_frames enc s1 cs = (out, Ok s')" by auto
    have "recv_frames dec r result ((be_bytes 4 (length e) @ e @ out) @ rest) = Err MessageTooLarge" for rest
      using recv_one_frame [where dec = dec, OF e(2,3) c, of result "out @ rest"] False by simp
    with False e(1) out show ?thesis by auto
  qed
qed auto

lemma data_roundtrip:
  assumes "session_law enc dec paired" "paired s r"
  obtains out s' where "send_data enc s data = (out, Ok s')"
    "length data \<le> MAX_MESSAGE_SIZE \<Longrightarrow> \<exists>r'. paired s' r' \<and> (\<forall>rest. recv_data dec r (out @ rest) = Ok (data, r', rest))"
    "MAX_MESSAGE_SIZE < length data \<Longrightarrow> recv_data dec r (out @ rest) = Err MessageTooLarge"
proof -
  have pos: "0 < MAX_FRAME_SIZE" by (simp add: MAX_FRAME_SIZE_def)
  have cs: "\<forall>c \<in> set (chunks MAX_FRAME_SIZE data). 0 < length c \<and> length c \<le> MAX_FRAME_SIZE"
    using chunks_sizes by blast
  from frames_roundtrip [OF assms cs, of "[]", unfolded concat_chunks [OF pos] append_Nil list.size(3) add_0_left] obtain out s' where
    out: "send_frames enc s (chunks MAX_FRAME_SIZE data) = (out, Ok s')" and rest:
    "if length data \<le> MAX_MESSAGE_SIZE
     then \<exists>r'. paired s' r' \<and> (\<forall>rest. recv_frames dec r [] (out @ rest) = recv_frames dec r' data rest)
     else \<forall>rest. recv_frames dec r [] (out @ rest) = Err MessageTooLarge"
    by auto
  show ?thesis
    by (rule that [of "out @ be_bytes 4 0" s'])
      (use rest in \<open>auto simp: send_data_def out recv_data_def recv_end split: if_splits\<close>)
qed

text \<open>Over a session whose ciphers keep their promise, every message is sent, and what is received
  is exactly the message, with the rest of the stream left for the next one; a message of more than
  64 MiB is refused by the receiver and by nothing else.\<close>

theorem noise_data_roundtrip:
  assumes "session_law enc dec paired" "paired s r"
  shows "case send_data enc s data of
      (out, Inl e) \<Rightarrow> False
    | (out, Inr s') \<Rightarrow>
        (case recv_data dec r (out @ rest) of
           Inl e \<Rightarrow> e = MessageTooLarge \<and> MAX_MESSAGE_SIZE < length data
         | Inr (got, r', left_over) \<Rightarrow> got = data \<and> left_over = rest \<and> paired s' r' \<and> length data \<le> MAX_MESSAGE_SIZE)"
proof -
  obtain out s' where "send_data enc s data = (out, Ok s')"
    "length data \<le> MAX_MESSAGE_SIZE \<Longrightarrow> \<exists>r'. paired s' r' \<and> (\<forall>rest. recv_data dec r (out @ rest) = Ok (data, r', rest))"
    "MAX_MESSAGE_SIZE < length data \<Longrightarrow> recv_data dec r (out @ rest) = Err MessageTooLarge"
    using data_roundtrip [OF assms] by metis
  then show ?thesis by (cases "length data \<le> MAX_MESSAGE_SIZE") auto
qed

text \<open>A cipher that keeps the promise: it counts its messages and appends the count 16 times.\<close>

definition demo_cipher :: "nat \<Rightarrow> string \<Rightarrow> (string \<times> nat) option" where
  "demo_cipher n p = Some (p @ replicate 16 (char_of (n mod 128)), n + 1)"

definition demo_decipher :: "nat \<Rightarrow> string \<Rightarrow> (string \<times> nat) option" where
  "demo_decipher n c = (if length c < 16 \<or> drop (length c - 16) c \<noteq> replicate 16 (char_of (n mod 128)) then None
     else Some (take (length c - 16) c, n + 1))"

lemma demo_session_law: "session_law demo_cipher demo_decipher (=)"
  by (auto simp: session_law_def demo_cipher_def demo_decipher_def)

theorem noise_data_roundtrip_witness:
  "case send_data demo_cipher 5 ''hi'' of
     (out, Inl e) \<Rightarrow> False
   | (out, Inr s') \<Rightarrow> (case recv_data demo_decipher 5 (out @ ''next'') of
       Inl e \<Rightarrow> False | Inr (got, r', left_over) \<Rightarrow> got = ''hi'' \<and> left_over = ''next'')"
  using noise_data_roundtrip [OF demo_session_law, of 5 5 "''hi''" "''next''"]
  by (auto simp: MAX_MESSAGE_SIZE_def split: prod.splits sum.splits)

end
