(* ===== verification/Noise_Http.thy ===== *)
theory Noise_Http
  imports Noise_Transport
begin

text \<open>
  Requests and responses as they travel in the messages of \<open>Noise_Transport\<close>: the writers and readers
  of \<^verbatim>\<open>src/noise/transport.rs\<close>, the body stream of the client, and \<^verbatim>\<open>send_noise_response\<close> of
  \<^verbatim>\<open>src/api.rs\<close>. A header map is the list of its names and values in iteration order.
\<close>

section \<open>Messages\<close>

type_synonym header_list = "(string \<times> string) list"

record noise_request =
  nr_method :: string
  nr_path :: string
  nr_headers :: header_list
  nr_body :: string

record noise_response_head =
  rh_status :: u16
  rh_headers :: header_list
  rh_first_body :: string

abbreviation crlf :: string where "crlf \<equiv> [carriage, newline]"

text \<open>\<^verbatim>\<open>HeaderValue::to_str\<close>: only visible ASCII and tabs.\<close>

definition header_to_str :: "string \<Rightarrow> string option" where
  "header_to_str v = (if list_all (\<lambda>c. 32 \<le> (of_char c :: nat) \<and> (of_char c :: nat) < 127 \<or> (of_char c :: nat) = 9) v
     then Some v else None)"

definition header_line :: "string \<times> string \<Rightarrow> string" where
  "header_line nv = (case header_to_str (snd nv) of
     Some v \<Rightarrow> fst nv @ '': '' @ v @ crlf | None \<Rightarrow> [])"

definition request_payload :: "string \<Rightarrow> string \<Rightarrow> header_list \<Rightarrow> string \<Rightarrow> string" where
  "request_payload mth path headers body =
     mth @ '' '' @ path @ '' HTTP/1.1'' @ crlf @ concat (map header_line headers)
     @ ''Content-Length: '' @ show_base 10 (length body) @ crlf @ crlf @ body"

definition send_request ::
  "'s cipher \<Rightarrow> 's \<Rightarrow> string \<Rightarrow> string \<Rightarrow> header_list \<Rightarrow> string \<Rightarrow> string \<times> ('s, transport_error) result" where
  "send_request enc s mth path headers body = send_data enc s (request_payload mth path headers body)"

definition response_payload :: "u16 \<Rightarrow> string \<Rightarrow> header_list \<Rightarrow> string" where
  "response_payload status status_text headers =
     ''HTTP/1.1 '' @ show_base 10 (unat status) @ '' '' @ status_text @ crlf
     @ concat (map header_line (filter (\<lambda>(n, _). \<not> eq_ignore_ascii_case n ''content-length''
         \<and> \<not> eq_ignore_ascii_case n ''transfer-encoding'') headers))
     @ crlf"

definition send_response_head ::
  "'s cipher \<Rightarrow> 's \<Rightarrow> u16 \<Rightarrow> string \<Rightarrow> header_list \<Rightarrow> string \<times> ('s, transport_error) result" where
  "send_response_head enc s status status_text headers =
     send_data enc s (response_payload status status_text headers)"

fun find_header_boundary :: "string \<Rightarrow> nat option" where
  "find_header_boundary [] = None"
| "find_header_boundary (c # s) =
     (if take 4 (c # s) = crlf @ crlf then Some 0 else map_option Suc (find_header_boundary s))"

definition from_utf8_lossy :: "(string \<Rightarrow> string) \<Rightarrow> string \<Rightarrow> string" where
  "from_utf8_lossy lossy s = (if valid_utf8 (map of_char s) then s else lossy s)"

definition parse_headers :: "string list \<Rightarrow> header_list" where
  "parse_headers ls = concat (map (\<lambda>l. case split_once CHR '':'' l of
     Some (n, v) \<Rightarrow> [(trim n, trim v)] | None \<Rightarrow> []) ls)"

definition parse_http_request :: "(string \<Rightarrow> string) \<Rightarrow> string \<Rightarrow> (noise_request, transport_error) result" where
  "parse_http_request lossy data = (case find_header_boundary data of
     None \<Rightarrow> Err NoHeaderBoundary
   | Some header_end \<Rightarrow>
       (case str_lines (from_utf8_lossy lossy (take header_end data)) of
          [] \<Rightarrow> Err NoStartLine
        | request_line # ls \<Rightarrow>
            (let parts = split_whitespace request_line in
             if length parts < 2 then Err InvalidRequestLine
             else Ok \<lparr>nr_method = parts ! 0, nr_path = parts ! 1, nr_headers = parse_headers ls,
                      nr_body = drop (header_end + 4) data\<rparr>)))"

definition recv_request ::
  "(string \<Rightarrow> string) \<Rightarrow> 's cipher \<Rightarrow> 's \<Rightarrow> string \<Rightarrow> (noise_request \<times> 's \<times> string, transport_error) result" where
  "recv_request lossy dec s stream = (case recv_data dec s stream of
     Inl e \<Rightarrow> Err e
   | Inr (data, s', rest) \<Rightarrow>
       (case parse_http_request lossy data of Inl e \<Rightarrow> Err e | Inr req \<Rightarrow> Ok (req, s', rest)))"

text \<open>The first two parts of \<^verbatim>\<open>splitn(3, ' ')\<close>; a single part has no second.\<close>

definition parse_http_response_head ::
  "(string \<Rightarrow> string) \<Rightarrow> string \<Rightarrow> (noise_response_head, transport_error) result" where
  "parse_http_response_head lossy data = (case find_header_boundary data of
     None \<Rightarrow> Err NoHeaderBoundary
   | Some header_end \<Rightarrow>
       (case str_lines (from_utf8_lossy lossy (take header_end data)) of
          [] \<Rightarrow> Err NoStartLine
        | status_line # ls \<Rightarrow>
            (case split_on CHR '' '' status_line of
               _ # status # _ \<Rightarrow>
                 (case parse_u16 status of
                    None \<Rightarrow> Err InvalidStatus
                  | Some st \<Rightarrow> Ok \<lparr>rh_status = st, rh_headers = parse_headers ls,
                                rh_first_body = drop (header_end + 4) data\<rparr>)
             | _ \<Rightarrow> Err InvalidStatusLine)))"

definition recv_response_head ::
  "(string \<Rightarrow> string) \<Rightarrow> 's cipher \<Rightarrow> 's \<Rightarrow> string \<Rightarrow> (noise_response_head \<times> 's \<times> string, transport_error) result" where
  "recv_response_head lossy dec s stream = (case recv_data dec s stream of
     Inl e \<Rightarrow> Err e
   | Inr (data, s', rest) \<Rightarrow>
       (case parse_http_response_head lossy data of Inl e \<Rightarrow> Err e | Inr h \<Rightarrow> Ok (h, s', rest)))"

section \<open>Bodies\<close>

text \<open>\<^verbatim>\<open>send_noise_response\<close> after the head: every non-empty frame of the body, then the end marker.\<close>

fun send_body :: "'s cipher \<Rightarrow> 's \<Rightarrow> string list \<Rightarrow> string \<times> ('s, transport_error) result" where
  "send_body enc s [] = send_data enc s []"
| "send_body enc s (b # bs) =
     (if b = [] then send_body enc s bs
      else case send_data enc s b of
        (out, Inl e) \<Rightarrow> (out, Err e)
      | (out, Inr s') \<Rightarrow> (let (out', r) = send_body enc s' bs in (out @ out', r)))"

definition send_noise_response ::
  "'s cipher \<Rightarrow> 's \<Rightarrow> u16 \<Rightarrow> string \<Rightarrow> header_list \<Rightarrow> string list \<Rightarrow> string \<times> ('s, transport_error) result" where
  "send_noise_response enc s status status_text headers frames =
     (case send_response_head enc s status status_text headers of
        (out, Inl e) \<Rightarrow> (out, Err e)
      | (out, Inr s') \<Rightarrow> (let (out', r) = send_body enc s' frames in (out @ out', r)))"

text \<open>
  What \<^verbatim>\<open>NoiseBodyStream\<close> yields without a deadline: messages up to the first empty one or the first
  error. Each message takes at least its end marker from the stream.
\<close>

lemma recv_frames_shorter:
  "recv_frames dec s result stream = Ok (got, s', rest) \<Longrightarrow> length rest < length stream"
proof (induction dec s result stream rule: recv_frames.induct)
  case (1 dec s result stream)
  show ?case
    using 1 by (subst (asm) (2) recv_frames.simps)
      (fastforce simp: Let_def split: if_splits option.splits)
qed

function read_body ::
  "'s cipher \<Rightarrow> 's \<Rightarrow> string \<Rightarrow> (string, transport_error) result list" where
  "read_body dec s stream = (case recv_data dec s stream of
     Inl e \<Rightarrow> [Err e]
   | Inr (bytes, s', rest) \<Rightarrow> if bytes = [] then [] else Ok bytes # read_body dec s' rest)"
  by pat_completeness auto
termination
  by (relation "measure (\<lambda>(dec, s, stream). length stream)")
    (auto simp: recv_data_def dest!: sym [of "Inr _"] recv_frames_shorter)

declare read_body.simps [simp del]

definition body_stream :: "'s cipher \<Rightarrow> 's \<Rightarrow> string \<Rightarrow> string \<Rightarrow> (string, transport_error) result list" where
  "body_stream dec s first_body stream =
     (if first_body = [] then [] else [Ok first_body]) @ read_body dec s stream"

section \<open>Header blocks\<close>

lemma boundary_line:
  "carriage \<notin> set l \<Longrightarrow> \<not> starts_with rest crlf \<Longrightarrow>
   find_header_boundary (l @ crlf @ rest) = map_option (\<lambda>n. length l + 2 + n) (find_header_boundary rest)"
proof (induction l)
  case Nil
  then have "take 2 rest \<noteq> crlf" by (auto simp: starts_with_def numeral_2_eq_2)
  then have "take 4 (carriage # newline # rest) \<noteq> crlf @ crlf" by (auto simp: numeral_eq_Suc)
  then show ?case by (simp add: option.map_comp o_def numeral_eq_Suc)
next
  case (Cons c l)
  then have "take 4 ((c # l) @ crlf @ rest) \<noteq> crlf @ crlf" by auto
  then have "find_header_boundary ((c # l) @ crlf @ rest) = map_option Suc (find_header_boundary (l @ crlf @ rest))"
    by (simp only: append_Cons find_header_boundary.simps if_False)
  also have "find_header_boundary (l @ crlf @ rest) = map_option (\<lambda>n. length l + 2 + n) (find_header_boundary rest)"
    using Cons by simp
  finally show ?case by (simp add: option.map_comp o_def)
qed

lemma boundary_end: "carriage \<notin> set l \<Longrightarrow> find_header_boundary (l @ crlf @ crlf @ rest) = Some (length l)"
proof (induction l)
  case (Cons c l)
  then have "take 4 ((c # l) @ crlf @ crlf @ rest) \<noteq> crlf @ crlf" by auto
  with Cons show ?case by simp
qed (simp add: numeral_eq_Suc)

definition line_ok :: "string \<Rightarrow> bool" where
  "line_ok l = (l \<noteq> [] \<and> carriage \<notin> set l \<and> newline \<notin> set l)"

definition block :: "string list \<Rightarrow> string" where
  "block ls = concat (map (\<lambda>l. l @ crlf) ls)"

lemma block_join: "ls \<noteq> [] \<Longrightarrow> block ls = join_with crlf ls @ crlf"
  by (induction crlf ls rule: join_with.induct) (auto simp: block_def)

lemma block_boundary:
  "ls \<noteq> [] \<Longrightarrow> list_all line_ok ls \<Longrightarrow>
   find_header_boundary (block ls @ crlf @ body) = Some (length (join_with crlf ls))"
proof (induction crlf ls rule: join_with.induct)
  case (2 s)
  then show ?case using boundary_end [of s body] by (simp add: block_def line_ok_def)
next
  case (3 s t ss)
  have "block (s # t # ss) @ crlf @ body = s @ crlf @ (block (t # ss) @ crlf @ body)" by (simp add: block_def)
  moreover have "\<not> starts_with (block (t # ss) @ crlf @ body) crlf"
    using 3(3) by (cases t) (auto simp: block_def starts_with_def line_ok_def)
  moreover have "carriage \<notin> set s" using 3(3) by (simp add: line_ok_def)
  ultimately have "find_header_boundary (block (s # t # ss) @ crlf @ body)
      = map_option (\<lambda>n. length s + 2 + n) (find_header_boundary (block (t # ss) @ crlf @ body))"
    by (metis boundary_line)
  with 3 show ?case by simp
qed simp

lemma block_lines: "list_all line_ok ls \<Longrightarrow> str_lines (join_with crlf ls) = ls"
proof (induction crlf ls rule: join_with.induct)
  case (2 s)
  then have "split_once newline s = None" by (simp add: line_ok_def split_once_None)
  then show ?case using 2 by (subst str_lines.simps) (simp add: line_ok_def)
next
  case (3 s t ss)
  have "join_with crlf (s # t # ss) = (s @ [carriage]) @ newline # join_with crlf (t # ss)" by simp
  moreover have "newline \<notin> set (s @ [carriage])" using 3(2) by (simp add: line_ok_def)
  ultimately have "str_lines (join_with crlf (s # t # ss)) = s # str_lines (join_with crlf (t # ss))"
    by (metis str_lines_Cons strip_cr_crlf)
  with 3 show ?case by simp
qed simp

lemma block_parts:
  assumes "ls \<noteq> []"
  shows "take (length (join_with crlf ls)) (block ls @ crlf @ body) = join_with crlf ls"
    and "drop (length (join_with crlf ls) + 4) (block ls @ crlf @ body) = body"
  using block_join [OF assms] by simp_all

abbreviation ascii :: "string \<Rightarrow> bool" where
  "ascii s \<equiv> list_all (\<lambda>c. (of_char c :: nat) < 128) s"

lemma ascii_valid: "ascii s \<Longrightarrow> from_utf8_lossy lossy s = s"
proof -
  assume "ascii s"
  then have "valid_utf8 (map of_char s)" by (induction s) auto
  then show ?thesis by (simp add: from_utf8_lossy_def)
qed

lemma ascii_join: "list_all ascii ls \<Longrightarrow> ascii sep \<Longrightarrow> ascii (join_with sep ls)"
  by (induction sep ls rule: join_with.induct) auto

section \<open>Headers\<close>

definition header_ok :: "string \<times> string \<Rightarrow> bool" where
  "header_ok nv = (plain_word (fst nv) \<and> CHR '':'' \<notin> set (fst nv) \<and> ascii (fst nv))"

text \<open>The headers that arrive: those with a printable value, without white space around it.\<close>

definition sent_headers :: "header_list \<Rightarrow> header_list" where
  "sent_headers hs = concat (map (\<lambda>(n, v). case header_to_str v of Some w \<Rightarrow> [(n, trim w)] | None \<Rightarrow> []) hs)"

definition header_texts :: "header_list \<Rightarrow> string list" where
  "header_texts hs = concat (map (\<lambda>(n, v). case header_to_str v of Some w \<Rightarrow> [n @ '': '' @ w] | None \<Rightarrow> []) hs)"

lemma header_lines_block: "concat (map header_line hs) = block (header_texts hs)"
  by (induction hs) (auto simp: header_line_def block_def header_texts_def split: option.splits)

lemma header_value_ok: "header_to_str v = Some w \<Longrightarrow> ascii w \<and> carriage \<notin> set w \<and> newline \<notin> set w"
  by (auto simp: header_to_str_def list_all_iff split: if_splits)

lemma plain_no_crlf: "plain_word n \<Longrightarrow> carriage \<notin> set n \<and> newline \<notin> set n"
  by (auto simp: plain_word_def list_all_iff)

lemma header_texts_ok:
  assumes "list_all header_ok hs"
  shows "list_all line_ok (header_texts hs)" "list_all ascii (header_texts hs)"
  using assms
  by (induction hs) (auto simp: header_texts_def header_ok_def line_ok_def dest!: header_value_ok plain_no_crlf split: option.splits)

lemma parse_header_line:
  "header_ok (n, v) \<Longrightarrow> split_once CHR '':'' (n @ '': '' @ w) = Some (n, CHR '' '' # w) \<and> trim n = n"
proof
  assume n: "header_ok (n, v)"
  then show "split_once CHR '':'' (n @ '': '' @ w) = Some (n, CHR '' '' # w)"
    using split_once_append [of "CHR '':''" n "CHR '' '' # w"] by (simp add: header_ok_def)
  from n have "n \<noteq> []" "\<not> is_white (hd n)" "\<not> is_white (last n)"
    by (auto simp: header_ok_def plain_word_def list_all_iff)
  then show "trim n = n" by (rule trim_id)
qed

lemma parse_header_texts: "list_all header_ok hs \<Longrightarrow> parse_headers (header_texts hs) = sent_headers hs"
proof (induction hs)
  case (Cons h hs)
  obtain n v where h: "h = (n, v)" by fastforce
  with Cons show ?case
    using parse_header_line [of n v]
    by (auto simp: header_texts_def sent_headers_def parse_headers_def trim_space split: option.splits)
qed (simp add: header_texts_def sent_headers_def parse_headers_def)

lemma parse_headers_append: "parse_headers (xs @ ys) = parse_headers xs @ parse_headers ys"
  by (simp add: parse_headers_def)

section \<open>Requests and responses arrive as sent\<close>

lemma show_base_10_digits: "list_all is_digit (show_base 10 n)"
proof (induction "10 :: nat" n rule: show_base.induct)
  case (1 n)
  have d: "is_digit (digit_char (n mod 10))" by (simp add: is_digit_def of_char_digit)
  show ?case
  proof (cases "n < 10")
    case True
    then have "show_base 10 n = [digit_char (n mod 10)]" by (simp add: show_base.simps)
    with d show ?thesis by simp
  next
    case False
    then have "show_base 10 n = show_base 10 (n div 10) @ [digit_char (n mod 10)]" by (simp add: show_base.simps)
    with d False 1 show ?thesis by simp
  qed
qed

lemma digits_plain:
  "list_all is_digit s \<Longrightarrow> ascii s \<and> carriage \<notin> set s \<and> newline \<notin> set s \<and> CHR ''+'' \<notin> set s \<and> CHR '' '' \<notin> set s
   \<and> list_all (\<lambda>c. \<not> is_white c) s"
  by (auto simp: is_digit_def list_all_iff is_white_def)

lemma parse_u16_show: "parse_u16 (show_base 10 (unat (w :: u16))) = Some w"
proof -
  let ?s = "show_base 10 (unat w)"
  have "CHR ''+'' \<notin> set ?s" using digits_plain [OF show_base_10_digits] by blast
  then have "(case ?s of c # t \<Rightarrow> if c = CHR ''+'' then t else ?s | [] \<Rightarrow> []) = ?s"
    by (cases ?s) (auto simp del: show_base_nonempty)
  moreover have "unat w < 65536" using unsigned_less [of w] by simp
  ultimately show ?thesis by (simp add: parse_u16_def show_base_10_digits read_show_base Let_def)
qed

lemma trim_digits: "list_all is_digit s \<Longrightarrow> s \<noteq> [] \<Longrightarrow> trim s = s"
  using digits_plain by (intro trim_id) (auto simp: list_all_iff)

definition request_lines :: "string \<Rightarrow> string \<Rightarrow> header_list \<Rightarrow> nat \<Rightarrow> string list" where
  "request_lines mth path headers n =
     (mth @ '' '' @ path @ '' HTTP/1.1'') # header_texts headers @ [''Content-Length: '' @ show_base 10 n]"

lemma request_payload_block:
  "request_payload mth path headers body = block (request_lines mth path headers (length body)) @ crlf @ body"
  by (simp add: request_payload_def request_lines_def header_lines_block) (simp add: block_def)

lemma request_lines_ok:
  assumes "plain_word mth" "plain_word path" "ascii mth" "ascii path" "list_all header_ok headers"
  shows "list_all line_ok (request_lines mth path headers n)" "list_all ascii (request_lines mth path headers n)"
  using header_texts_ok [OF assms(5)] plain_no_crlf [OF assms(1)] plain_no_crlf [OF assms(2)] assms(3,4)
    digits_plain [OF show_base_10_digits [of n]]
  by (simp_all add: request_lines_def line_ok_def)

lemma parse_content_length:
  "parse_headers [''Content-Length: '' @ show_base 10 n] = [(''Content-Length'', show_base 10 n)]"
proof -
  have "split_once CHR '':'' (''Content-Length'' @ CHR '':'' # CHR '' '' # show_base 10 n)
      = Some (''Content-Length'', CHR '' '' # show_base 10 n)" by (rule split_once_append) simp
  moreover have "trim ''Content-Length'' = ''Content-Length''" by (rule trim_id) (simp_all add: is_white_def)
  ultimately show ?thesis
    by (simp add: parse_headers_def trim_space trim_digits [OF show_base_10_digits])
qed

lemma parse_block:
  assumes "ls \<noteq> []" "list_all line_ok ls" "list_all ascii ls"
  shows "find_header_boundary (block ls @ crlf @ body) = Some (length (join_with crlf ls))"
    and "str_lines (from_utf8_lossy lossy (take (length (join_with crlf ls)) (block ls @ crlf @ body))) = ls"
    and "drop (length (join_with crlf ls) + 4) (block ls @ crlf @ body) = body"
proof -
  show "find_header_boundary (block ls @ crlf @ body) = Some (length (join_with crlf ls))"
    by (rule block_boundary [OF assms(1,2)])
  have "ascii (join_with crlf ls)" by (rule ascii_join [OF assms(3)]) simp
  then show "str_lines (from_utf8_lossy lossy (take (length (join_with crlf ls)) (block ls @ crlf @ body))) = ls"
    by (simp only: block_parts(1) [OF assms(1)] ascii_valid block_lines [OF assms(2)])
  show "drop (length (join_with crlf ls) + 4) (block ls @ crlf @ body) = body"
    by (rule block_parts(2) [OF assms(1)])
qed

lemma parse_request_payload:
  assumes "plain_word mth" "plain_word path" "ascii mth" "ascii path" "list_all header_ok headers"
  shows "parse_http_request lossy (request_payload mth path headers body) =
    Ok \<lparr>nr_method = mth, nr_path = path,
        nr_headers = sent_headers headers @ [(''Content-Length'', show_base 10 (length body))], nr_body = body\<rparr>"
proof -
  let ?ls = "request_lines mth path headers (length body)"
  have ne: "?ls \<noteq> []" by (simp add: request_lines_def)
  have w: "plain_word ''HTTP/1.1''" by (simp add: plain_word_def is_white_def)
  have "split_whitespace (mth @ '' '' @ path @ '' HTTP/1.1'') = [mth, path, ''HTTP/1.1'']"
    using assms(1,2) split_words_single [OF w] by (simp add: split_words_Cons)
  moreover have "parse_headers (header_texts headers @ [''Content-Length: '' @ show_base 10 (length body)])
      = sent_headers headers @ [(''Content-Length'', show_base 10 (length body))]"
    by (simp only: parse_headers_append parse_header_texts [OF assms(5)] parse_content_length)
  ultimately show ?thesis
    using parse_block [OF ne request_lines_ok [OF assms], where body = body]
    unfolding parse_http_request_def request_payload_block
    by (simp add: request_lines_def)
qed



definition response_headers :: "header_list \<Rightarrow> header_list" where
  "response_headers headers = filter (\<lambda>(n, _). \<not> eq_ignore_ascii_case n ''content-length''
     \<and> \<not> eq_ignore_ascii_case n ''transfer-encoding'') headers"

definition response_lines :: "u16 \<Rightarrow> string \<Rightarrow> header_list \<Rightarrow> string list" where
  "response_lines status status_text headers =
     (''HTTP/1.1 '' @ show_base 10 (unat status) @ '' '' @ status_text) # header_texts (response_headers headers)"

lemma response_payload_block:
  "response_payload status status_text headers = block (response_lines status status_text headers) @ crlf @ []"
  by (simp add: response_payload_def response_lines_def response_headers_def header_lines_block) (simp add: block_def)

lemma parse_response_payload:
  assumes "ascii status_text" "carriage \<notin> set status_text" "newline \<notin> set status_text" "list_all header_ok headers"
  shows "parse_http_response_head lossy (response_payload status status_text headers) =
    Ok \<lparr>rh_status = status, rh_headers = sent_headers (response_headers headers), rh_first_body = []\<rparr>"
proof -
  let ?ls = "response_lines status status_text headers"
  have hs: "list_all header_ok (response_headers headers)"
    using assms(4) by (auto simp: response_headers_def list_all_iff)
  have ok: "?ls \<noteq> []" "list_all line_ok ?ls" "list_all ascii ?ls"
    using header_texts_ok [OF hs] assms(1-3) digits_plain [OF show_base_10_digits [of "unat status"]]
    by (simp_all add: response_lines_def line_ok_def)
  have "split_on CHR '' '' (''HTTP/1.1 '' @ show_base 10 (unat status) @ '' '' @ status_text)
      = ''HTTP/1.1'' # show_base 10 (unat status) # split_on CHR '' '' status_text"
  proof -
    have "CHR '' '' \<notin> set (show_base 10 (unat status))" using digits_plain [OF show_base_10_digits] by blast
    then have "split_on CHR '' '' (show_base 10 (unat status) @ CHR '' '' # status_text)
        = show_base 10 (unat status) # split_on CHR '' '' status_text" by (rule split_on_append)
    then show ?thesis by simp
  qed
  then show ?thesis
    using parse_block [OF ok, where body = "[]"]
    unfolding parse_http_response_head_def response_payload_block
    by (simp add: response_lines_def parse_u16_show parse_header_texts [OF hs])
qed

lemma body_roundtrip:
  assumes "session_law enc dec paired" "paired s r" "list_all (\<lambda>b. length b \<le> MAX_MESSAGE_SIZE) frames"
  shows "\<exists>out s'. send_body enc s frames = (out, Ok s')
    \<and> read_body dec r (out @ rest) = map Ok (filter (\<lambda>b. b \<noteq> []) frames)"
  using assms(2,3)
proof (induction frames arbitrary: s r)
  case Nil
  from data_roundtrip [OF assms(1) Nil(1), of "[]"] obtain out s' r' where
    "send_data enc s [] = (out, Ok s')" "recv_data dec r (out @ rest) = Ok ([], r', rest)"
    by (metis list.size(3) zero_le)
  then show ?case by (simp add: read_body.simps)
next
  case (Cons b bs)
  show ?case
  proof (cases "b = []")
    case True
    then show ?thesis using Cons by simp
  next
    case False
    have "length b \<le> MAX_MESSAGE_SIZE" using Cons.prems(2) by simp
    with data_roundtrip [OF assms(1) Cons.prems(1), of b] obtain out s1 r1 where
      b: "send_data enc s b = (out, Ok s1)" "paired s1 r1" "\<forall>rest. recv_data dec r (out @ rest) = Ok (b, r1, rest)" by metis
    from Cons.IH [OF b(2)] Cons.prems(2) obtain out2 s2 where
      "send_body enc s1 bs = (out2, Ok s2)" "read_body dec r1 (out2 @ rest) = map Ok (filter (\<lambda>b. b \<noteq> []) bs)" by auto
    with b False show ?thesis by (simp add: read_body.simps [of dec r])
  qed
qed

text \<open>A response over Noise arrives as it was sent: the status, the headers but for the two framing
  ones, and the body frames in order; empty frames are not mistaken for the end of the body, and the
  reader stops at its end without an error.\<close>

theorem noise_response_roundtrip:
  assumes "session_law enc dec paired" "paired s r"
    and "ascii status_text" "carriage \<notin> set status_text" "newline \<notin> set status_text" "list_all header_ok headers"
    and "length (response_payload status status_text headers) \<le> MAX_MESSAGE_SIZE"
    and "list_all (\<lambda>b. length b \<le> MAX_MESSAGE_SIZE) frames"
  shows "case send_noise_response enc s status status_text headers frames of
      (out, Inl e) \<Rightarrow> False
    | (out, Inr s') \<Rightarrow>
        (case recv_response_head lossy dec r (out @ rest) of
           Inl e \<Rightarrow> False
         | Inr (h, r', stream) \<Rightarrow> rh_status h = status
             \<and> rh_headers h = sent_headers (response_headers headers)
             \<and> body_stream dec r' (rh_first_body h) stream = map Ok (filter (\<lambda>b. b \<noteq> []) frames))"
proof -
  from data_roundtrip [OF assms(1,2), of "response_payload status status_text headers"] assms(7)
  obtain out s1 r1 where h: "send_data enc s (response_payload status status_text headers) = (out, Ok s1)" "paired s1 r1"
    "\<forall>rest. recv_data dec r (out @ rest) = Ok (response_payload status status_text headers, r1, rest)" by metis
  from body_roundtrip [OF assms(1) h(2) assms(8), of rest] obtain out2 s2 where
    "send_body enc s1 frames = (out2, Ok s2)" "read_body dec r1 (out2 @ rest) = map Ok (filter (\<lambda>b. b \<noteq> []) frames)" by blast
  with h show ?thesis
    by (simp add: send_noise_response_def send_response_head_def recv_response_head_def body_stream_def
        parse_response_payload [OF assms(3-6)])
qed

theorem noise_response_roundtrip_witness:
  "case send_noise_response demo_cipher 5 200 ''OK'' [] [''a'', [], ''b''] of
     (out, Inl e) \<Rightarrow> False
   | (out, Inr s') \<Rightarrow>
       (case recv_response_head id demo_decipher 5 (out @ []) of
          Inl e \<Rightarrow> False
        | Inr (h, r', stream) \<Rightarrow> rh_status h = 200 \<and> body_stream demo_decipher r' (rh_first_body h) stream = [Ok ''a'', Ok ''b''])"
proof -
  have "show_base 10 (unat (200 :: u16)) = ''200''" by (simp add: show_base.simps digit_char_def char_of_def bit_0)
  then have "length (response_payload 200 ''OK'' []) \<le> MAX_MESSAGE_SIZE"
    by (simp add: response_payload_def MAX_MESSAGE_SIZE_def)
  from noise_response_roundtrip [OF demo_session_law refl [of 5] _ _ _ _ this, where frames = "[''a'', [], ''b'']" and lossy = id and rest = "[]"]
  show ?thesis by (auto simp: MAX_MESSAGE_SIZE_def split: prod.splits sum.splits)
qed

end
