(* ===== verification/Token_Stream.thy ===== *)
theory Token_Stream
  imports Std_Text
begin

text \<open>
  The streamed responses of \<^verbatim>\<open>src/router.rs\<close>: \<^verbatim>\<open>CleanupStream\<close> relays the chunks of an upstream body, counts
  the tokens in the server-sent events that go by, runs the clean-up of the request once, and keeps the
  count of streams that wait for their clients. The JSON library is a parameter, given by its parser
  and accessors.
\<close>

section \<open>Counting tokens\<close>

record 'j json_ops =
  jo_parse :: "string \<Rightarrow> 'j option"
  jo_get :: "'j \<Rightarrow> string \<Rightarrow> 'j option"
  jo_str :: "'j \<Rightarrow> string option"
  jo_u64 :: "'j \<Rightarrow> u64 option"
  jo_bool :: "'j \<Rightarrow> bool option"
  jo_array :: "'j \<Rightarrow> 'j list option"
  jo_without :: "'j \<Rightarrow> string \<Rightarrow> 'j option"
  jo_print :: "'j \<Rightarrow> string option"

text \<open>\<open>jo_without\<close> is an object without one of its fields, if the value is an object.\<close>

definition strip_leading_whitespace :: "string \<Rightarrow> string" where
  "strip_leading_whitespace s = dropWhile (\<lambda>c. c \<in> {CHR '' '', CHR 0x09, newline, carriage}) s"

definition nonempty_str :: "'j json_ops \<Rightarrow> 'j \<Rightarrow> string \<Rightarrow> bool" where
  "nonempty_str J delta key = (case Option.bind (jo_get J delta key) (jo_str J) of Some s \<Rightarrow> s \<noteq> [] | None \<Rightarrow> False)"

definition has_output :: "'j json_ops \<Rightarrow> 'j \<Rightarrow> bool" where
  "has_output J delta =
     (nonempty_str J delta ''content'' \<or> nonempty_str J delta ''reasoning_content''
      \<or> (case Option.bind (jo_get J delta ''tool_calls'') (jo_array J) of Some calls \<Rightarrow> calls \<noteq> [] | None \<Rightarrow> False))"

definition completion_tokens :: "'j json_ops \<Rightarrow> 'j \<Rightarrow> u64 option" where
  "completion_tokens J v =
     Option.bind (jo_get J v ''usage'') (\<lambda>u. Option.bind (jo_get J u ''completion_tokens'') (jo_u64 J))"

definition first_delta :: "'j json_ops \<Rightarrow> 'j \<Rightarrow> 'j option" where
  "first_delta J v = (case Option.bind (jo_get J v ''choices'') (jo_array J) of
     Some (choice # _) \<Rightarrow> jo_get J choice ''delta'' | _ \<Rightarrow> None)"

text \<open>The counter is atomic and wraps.\<close>

definition process_line :: "'j json_ops \<Rightarrow> string \<Rightarrow> u64 \<Rightarrow> u64" where
  "process_line J line counter =
     (case strip_prefix (strip_leading_whitespace line) ''data:'' of
        None \<Rightarrow> counter
      | Some payload \<Rightarrow>
          if starts_with (strip_leading_whitespace payload) ''[DONE]'' then counter
          else case jo_parse J payload of
            None \<Rightarrow> counter + 1
          | Some v \<Rightarrow>
              (case completion_tokens J v of
                 Some n \<Rightarrow> n
               | None \<Rightarrow>
                   (case first_delta J v of
                      Some delta \<Rightarrow> if has_output J delta then counter + 1 else counter
                    | None \<Rightarrow> counter)))"

text \<open>The loop over the complete lines of a chunk; what follows the last line feed is left.\<close>

function count_lines :: "'j json_ops \<Rightarrow> string \<Rightarrow> u64 \<Rightarrow> u64 \<times> string" where
  "count_lines J s counter = (case split_once newline s of
     None \<Rightarrow> (counter, s)
   | Some (line, rest) \<Rightarrow> count_lines J rest (process_line J line counter))"
  by pat_completeness auto
termination
  by (relation "measure (\<lambda>(J, s, counter). length s)") (auto simp: split_once_Some)

declare count_lines.simps [simp del]

section \<open>A stream\<close>

definition MAX_TOKEN_BUFFER_SIZE :: nat where "MAX_TOKEN_BUFFER_SIZE = 16 * 1024 * 1024"

text \<open>\<open>cs_waiting\<close> is the flag of the \<^verbatim>\<open>DownstreamWait\<close>, which only the streams of local instances have.\<close>

record cleanup_stream =
  cs_buffer :: string
  cs_tokens :: u64
  cs_disabled :: bool
  cs_cleanup :: bool
  cs_executed :: bool
  cs_error_recorded :: bool
  cs_recorder :: bool
  cs_peer_stream :: bool
  cs_waiting :: "bool option"

definition new_stream :: "bool \<Rightarrow> bool \<Rightarrow> bool \<Rightarrow> cleanup_stream" where
  "new_stream recorder peer_stream waits =
     \<lparr>cs_buffer = [], cs_tokens = 0, cs_disabled = False, cs_cleanup = True, cs_executed = False,
      cs_error_recorded = False, cs_recorder = recorder, cs_peer_stream = peer_stream,
      cs_waiting = (if waits then Some False else None)\<rparr>"

definition disable_counting :: "cleanup_stream \<Rightarrow> cleanup_stream" where
  "disable_counting st = st\<lparr>cs_disabled := True, cs_buffer := []\<rparr>"

definition count_rest :: "'j json_ops \<Rightarrow> string \<Rightarrow> cleanup_stream \<Rightarrow> cleanup_stream" where
  "count_rest J s st =
     (let (counter, remaining) = count_lines J s (cs_tokens st); st' = st\<lparr>cs_tokens := counter\<rparr> in
      if remaining = [] then st'
      else if MAX_TOKEN_BUFFER_SIZE < length (cs_buffer st') + length remaining then disable_counting st'
      else st'\<lparr>cs_buffer := cs_buffer st' @ remaining\<rparr>)"

definition observe_chunk :: "'j json_ops \<Rightarrow> string \<Rightarrow> cleanup_stream \<Rightarrow> cleanup_stream" where
  "observe_chunk J bytes st =
     (if cs_disabled st then st
      else if cs_buffer st \<noteq> [] then
        (case split_once newline bytes of
           Some (line, rest) \<Rightarrow>
             if MAX_TOKEN_BUFFER_SIZE < length (cs_buffer st) + length line then disable_counting st
             else count_rest J rest
               (st\<lparr>cs_tokens := process_line J (cs_buffer st @ line) (cs_tokens st), cs_buffer := []\<rparr>)
         | None \<Rightarrow>
             if MAX_TOKEN_BUFFER_SIZE < length (cs_buffer st) + length bytes then disable_counting st
             else st\<lparr>cs_buffer := cs_buffer st @ bytes\<rparr>)
      else count_rest J bytes st)"

section \<open>The count does not depend on the chunks\<close>

lemma count_lines_none: "newline \<notin> set s \<Longrightarrow> count_lines J s c = (c, s)"
  by (subst count_lines.simps) (simp add: split_once_None [THEN iffD2])

lemma count_lines_line: "newline \<notin> set l \<Longrightarrow> count_lines J (l @ newline # s) c = count_lines J s (process_line J l c)"
  by (subst count_lines.simps) (simp add: split_once_append)

lemma count_lines_rest: "newline \<notin> set (snd (count_lines J s c))"
proof (induction J s c rule: count_lines.induct)
  case (1 J s c)
  show ?case
  proof (cases "split_once newline s")
    case None
    then show ?thesis by (simp add: count_lines_none split_once_None)
  next
    case (Some lr)
    obtain l r where lr: "lr = (l, r)" by fastforce
    have "newline \<notin> set (snd (count_lines J r (process_line J l c)))"
      using 1 [of "(l, r)" l r] Some lr by simp
    then show ?thesis using Some lr by (subst count_lines.simps) simp
  qed
qed

text \<open>Lines that come in two parts count as if they came in one.\<close>

lemma count_lines_append:
  "count_lines J (a @ b) c = (case count_lines J a c of (c', r) \<Rightarrow> count_lines J (r @ b) c')"
proof (induction J a c rule: count_lines.induct)
  case (1 J a c)
  show ?case
  proof (cases "split_once newline a")
    case None
    then show ?thesis by (simp add: count_lines_none split_once_None)
  next
    case (Some lr)
    obtain l r where lr: "lr = (l, r)" by fastforce
    then have a: "a = l @ newline # r" "newline \<notin> set l" using Some by (auto simp: split_once_Some)
    show ?thesis using 1 [of "(l, r)" l r] Some lr by (simp add: a count_lines_line)
  qed
qed

definition lines_fit :: "string \<Rightarrow> bool" where
  "lines_fit s = list_all (\<lambda>l. length l \<le> MAX_TOKEN_BUFFER_SIZE) (split_on newline s)"

lemma lines_fit_rest: "lines_fit (a @ b) \<Longrightarrow> lines_fit (snd (count_lines J a c) @ b)"
proof (induction J a c rule: count_lines.induct)
  case (1 J a c)
  show ?case
  proof (cases "split_once newline a")
    case None
    then show ?thesis using 1 by (simp add: count_lines_none split_once_None)
  next
    case (Some lr)
    obtain l r where lr: "lr = (l, r)" by fastforce
    then have a: "a = l @ newline # r" "newline \<notin> set l" using Some by (auto simp: split_once_Some)
    then have "lines_fit (r @ b)" using 1(2) by (simp add: lines_fit_def split_on_append)
    then show ?thesis using 1(1) [of "(l, r)" l r] Some lr by (simp add: a count_lines_line)
  qed
qed

lemma lines_fit_head: "newline \<notin> set l \<Longrightarrow> lines_fit (l @ s) \<Longrightarrow> length l \<le> MAX_TOKEN_BUFFER_SIZE"
proof -
  assume l: "newline \<notin> set l" and fit: "lines_fit (l @ s)"
  have "length l \<le> length (hd (split_on newline (l @ s)))"
    using l by (induction l) (auto split: list.split)
  moreover have "length (hd (split_on newline (l @ s))) \<le> MAX_TOKEN_BUFFER_SIZE"
    using fit by (cases "split_on newline (l @ s)") (auto simp: lines_fit_def)
  ultimately show ?thesis by simp
qed


lemma lines_fit_prefix: "lines_fit (a @ b) \<Longrightarrow> lines_fit a"
proof (induction a arbitrary: b rule: measure_induct_rule [of length])
  case (less a)
  show ?case
  proof (cases "split_once newline a")
    case None
    then have "newline \<notin> set a" by (simp add: split_once_None)
    then show ?thesis using lines_fit_head [OF _ less.prems] by (simp add: lines_fit_def split_on_none)
  next
    case (Some lr)
    obtain l r where lr: "lr = (l, r)" by fastforce
    then have a: "a = l @ newline # r" "newline \<notin> set l" using Some by (auto simp: split_once_Some)
    then have "lines_fit (r @ b)" "length l \<le> MAX_TOKEN_BUFFER_SIZE"
      using less.prems by (simp_all add: lines_fit_def split_on_append)
    then show ?thesis using less.IH [of r b] a by (simp add: lines_fit_def split_on_append)
  qed
qed

lemma count_rest_fits:
  assumes "cs_buffer st = []" "lines_fit s"
  shows "count_rest J s st =
    st\<lparr>cs_tokens := fst (count_lines J s (cs_tokens st)), cs_buffer := snd (count_lines J s (cs_tokens st))\<rparr>"
proof -
  obtain c r where cr: "count_lines J s (cs_tokens st) = (c, r)" by fastforce
  have "newline \<notin> set r" using count_lines_rest [of J s "cs_tokens st"] cr by simp
  moreover have "lines_fit (r @ [])" using lines_fit_rest [of s "[]" J "cs_tokens st"] assms(2) cr by simp
  ultimately have "length r \<le> MAX_TOKEN_BUFFER_SIZE" by (rule lines_fit_head)
  then show ?thesis using assms(1) by (simp add: count_rest_def cr Let_def)
qed

lemma observe_chunk_fits:
  assumes on: "\<not> cs_disabled st" and part: "newline \<notin> set (cs_buffer st)" and fit: "lines_fit (cs_buffer st @ bytes)"
  shows "observe_chunk J bytes st =
    st\<lparr>cs_tokens := fst (count_lines J (cs_buffer st @ bytes) (cs_tokens st)),
       cs_buffer := snd (count_lines J (cs_buffer st @ bytes) (cs_tokens st))\<rparr>"
proof (cases "cs_buffer st = []")
  case True
  then show ?thesis using on fit count_rest_fits [of st bytes J] by (simp add: observe_chunk_def)
next
  case False
  show ?thesis
  proof (cases "split_once newline bytes")
    case None
    then have no: "newline \<notin> set (cs_buffer st @ bytes)" using part by (simp add: split_once_None)
    moreover have "length (cs_buffer st @ bytes) \<le> MAX_TOKEN_BUFFER_SIZE"
      using lines_fit_head [OF no, of "[]"] fit by simp
    ultimately show ?thesis using on False None by (simp add: observe_chunk_def count_lines_none)
  next
    case (Some lr)
    obtain l r where lr: "lr = (l, r)" by fastforce
    then have b: "bytes = l @ newline # r" "newline \<notin> set l" using Some by (auto simp: split_once_Some)
    then have no: "newline \<notin> set (cs_buffer st @ l)" using part by simp
    have "length (cs_buffer st @ l) \<le> MAX_TOKEN_BUFFER_SIZE"
      using lines_fit_head [OF no, of "newline # r"] fit b by simp
    moreover have "lines_fit r"
      using fit no by (simp add: lines_fit_def b split_on_append flip: append_assoc)
    moreover have "count_lines J (cs_buffer st @ bytes) c = count_lines J r (process_line J (cs_buffer st @ l) c)" for c
      using count_lines_line [OF no, of J r c] b by simp
    ultimately show ?thesis
      using on False Some lr count_rest_fits [of "st\<lparr>cs_tokens := process_line J (cs_buffer st @ l) (cs_tokens st), cs_buffer := []\<rparr>" r J]
      by (simp add: observe_chunk_def)
  qed
qed

lemma observe_chunks:
  assumes "\<not> cs_disabled st" "newline \<notin> set (cs_buffer st)" "lines_fit (cs_buffer st @ concat chunks)"
  shows "fold (observe_chunk J) chunks st =
    st\<lparr>cs_tokens := fst (count_lines J (cs_buffer st @ concat chunks) (cs_tokens st)),
       cs_buffer := snd (count_lines J (cs_buffer st @ concat chunks) (cs_tokens st))\<rparr>"
  using assms
proof (induction chunks arbitrary: st)
  case Nil
  then show ?case by (simp add: count_lines_none)
next
  case (Cons b bs)
  obtain c r where cr: "count_lines J (cs_buffer st @ b) (cs_tokens st) = (c, r)" by fastforce
  define st1 where "st1 = st\<lparr>cs_tokens := c, cs_buffer := r\<rparr>"
  have r: "newline \<notin> set r" "lines_fit (r @ concat bs)"
    using count_lines_rest [of J "cs_buffer st @ b" "cs_tokens st"] cr
      lines_fit_rest [of "cs_buffer st @ b" "concat bs" J "cs_tokens st"] Cons.prems(3) by simp_all
  have "lines_fit ((cs_buffer st @ b) @ concat bs)" using Cons.prems(3) by simp
  then have "lines_fit (cs_buffer st @ b)" by (rule lines_fit_prefix)
  then have "observe_chunk J b st = st1"
    using observe_chunk_fits [OF Cons.prems(1,2), of b J] cr by (simp add: st1_def)
  moreover have "fold (observe_chunk J) bs st1 =
      st1\<lparr>cs_tokens := fst (count_lines J (r @ concat bs) c), cs_buffer := snd (count_lines J (r @ concat bs) c)\<rparr>"
    using Cons.IH [of st1] Cons.prems(1) r by (simp add: st1_def)
  moreover have "count_lines J (cs_buffer st @ b @ concat bs) (cs_tokens st) = count_lines J (r @ concat bs) c"
    using count_lines_append [of J "cs_buffer st @ b" "concat bs" "cs_tokens st"] cr by simp
  ultimately show ?case by (simp add: st1_def)
qed

text \<open>C38. Token counting does not depend on how the body was cut into chunks: as long as no line is longer
  than the buffer, the count after any sequence of chunks is the count of the lines of the whole body, the
  incomplete last line is in the buffer, and counting stays on.\<close>

theorem tokens_independent_of_chunks:
  assumes "lines_fit (concat chunks)"
  shows "fold (observe_chunk J) chunks (new_stream recorder peer_stream waits) =
    (new_stream recorder peer_stream waits)\<lparr>cs_tokens := fst (count_lines J (concat chunks) 0),
       cs_buffer := snd (count_lines J (concat chunks) 0)\<rparr>"
  using observe_chunks [of "new_stream recorder peer_stream waits" chunks J] assms by (simp add: new_stream_def)


section \<open>Polling and dropping\<close>

text \<open>
  What the streams of a node share: the count of streams that wait for their clients, the clean-ups
  that were started (by the name of the stream), the errors counted for local and for peer streams,
  and the clean-ups lost because the runtime was gone. \<open>sw_opened\<close> records the streams there have been.
\<close>

record stream_world =
  sw_streams :: "(string, cleanup_stream) hashmap"
  sw_awaiting :: nat
  sw_cleanups :: "string list"
  sw_errors :: "string list"
  sw_peer_aborts :: "string list"
  sw_skipped :: "string list"
  sw_opened :: "string set"

datatype upstream_poll = UpPending | UpChunk string | UpBroken | UpEnded

definition polled :: "cleanup_stream \<Rightarrow> nat \<Rightarrow> cleanup_stream \<times> nat" where
  "polled st awaiting =
     (if cs_waiting st = Some True then (st\<lparr>cs_waiting := Some False\<rparr>, awaiting - 1) else (st, awaiting))"

definition handed_off :: "cleanup_stream \<Rightarrow> nat \<Rightarrow> cleanup_stream \<times> nat" where
  "handed_off st awaiting =
     (if cs_waiting st = Some False then (st\<lparr>cs_waiting := Some True\<rparr>, awaiting + 1) else (st, awaiting))"

fun poll_upstream :: "'j json_ops \<Rightarrow> string \<Rightarrow> upstream_poll \<Rightarrow> cleanup_stream \<Rightarrow> stream_world \<Rightarrow> cleanup_stream \<times> stream_world" where
  "poll_upstream J sid UpPending st w = (st, w)"
| "poll_upstream J sid (UpChunk bytes) st w = (observe_chunk J bytes st, w)"
| "poll_upstream J sid UpBroken st w =
     (if cs_error_recorded st then (st, w)
      else (st\<lparr>cs_error_recorded := True\<rparr>,
            w\<lparr>sw_errors := (if cs_recorder st then sid # sw_errors w else sw_errors w),
              sw_peer_aborts := (if cs_peer_stream st then sid # sw_peer_aborts w else sw_peer_aborts w)\<rparr>))"
| "poll_upstream J sid UpEnded st w =
     (if cs_cleanup st then (st\<lparr>cs_cleanup := False, cs_executed := True\<rparr>, w\<lparr>sw_cleanups := sid # sw_cleanups w\<rparr>)
      else (st, w))"

definition poll_next :: "'j json_ops \<Rightarrow> string \<Rightarrow> upstream_poll \<Rightarrow> stream_world \<Rightarrow> stream_world" where
  "poll_next J sid up w = (case hm_get (sw_streams w) sid of
     None \<Rightarrow> w
   | Some st \<Rightarrow>
       (let (st1, awaiting) = polled st (sw_awaiting w);
            (st2, w2) = poll_upstream J sid up st1 (w\<lparr>sw_awaiting := awaiting\<rparr>);
            (st3, awaiting') = (case up of UpChunk _ \<Rightarrow> handed_off st2 (sw_awaiting w2) | _ \<Rightarrow> (st2, sw_awaiting w2))
        in w2\<lparr>sw_streams := hm_insert sid st3 (sw_streams w2), sw_awaiting := awaiting'\<rparr>))"

text \<open>\<^verbatim>\<open>Drop for CleanupStream\<close>, then that of its \<^verbatim>\<open>DownstreamWait\<close>.\<close>

definition drop_stream :: "bool \<Rightarrow> string \<Rightarrow> stream_world \<Rightarrow> stream_world" where
  "drop_stream runtime sid w = (case hm_get (sw_streams w) sid of
     None \<Rightarrow> w
   | Some st \<Rightarrow>
       (let w1 = (if cs_executed st \<or> \<not> cs_cleanup st then w
                  else if runtime then w\<lparr>sw_cleanups := sid # sw_cleanups w\<rparr>
                  else w\<lparr>sw_skipped := sid # sw_skipped w\<rparr>);
            (_, awaiting) = polled st (sw_awaiting w1)
        in w1\<lparr>sw_streams := hm_remove sid (sw_streams w1), sw_awaiting := awaiting\<rparr>))"

inductive stream_step :: "'j json_ops \<Rightarrow> stream_world \<Rightarrow> stream_world \<Rightarrow> bool" for J where
  open_stream: "sid \<notin> sw_opened w \<Longrightarrow>
    stream_step J w (w\<lparr>sw_streams := hm_insert sid (new_stream recorder peer_stream waits) (sw_streams w),
      sw_opened := insert sid (sw_opened w)\<rparr>)"
| poll: "stream_step J w (poll_next J sid up w)"
| dropped: "stream_step J w (drop_stream runtime sid w)"

definition no_streams :: stream_world where
  "no_streams = \<lparr>sw_streams = [], sw_awaiting = 0, sw_cleanups = [], sw_errors = [], sw_peer_aborts = [], sw_skipped = [],
     sw_opened = {}\<rparr>"

definition is_waiting :: "cleanup_stream \<Rightarrow> bool" where
  "is_waiting st = (cs_waiting st = Some True)"

text \<open>A stream whose clean-up is still there has not been cleaned up, and one without was.\<close>

definition stream_ok :: "stream_world \<Rightarrow> string \<Rightarrow> cleanup_stream \<Rightarrow> bool" where
  "stream_ok w sid st \<longleftrightarrow> cs_executed st = (\<not> cs_cleanup st) \<and> (sid \<in> set (sw_cleanups w)) = (\<not> cs_cleanup st)
     \<and> sid \<notin> set (sw_skipped w) \<and> (\<not> cs_error_recorded st \<longrightarrow> sid \<notin> set (sw_errors w) \<union> set (sw_peer_aborts w))"

definition streams_inv :: "stream_world \<Rightarrow> bool" where
  "streams_inv w \<longleftrightarrow> hm_ok (sw_streams w) \<and> sw_awaiting w = hm_count is_waiting (sw_streams w)
     \<and> distinct (sw_cleanups w @ sw_skipped w) \<and> distinct (sw_errors w) \<and> distinct (sw_peer_aborts w)
     \<and> (\<forall>sid st. hm_get (sw_streams w) sid = Some st \<longrightarrow> stream_ok w sid st)
     \<and> sw_opened w = set (hm_keys (sw_streams w)) \<union> set (sw_cleanups w) \<union> set (sw_skipped w)
     \<and> set (sw_errors w) \<union> set (sw_peer_aborts w) \<subseteq> sw_opened w"


lemma polled_count:
  "polled st (hm_count is_waiting m) = (st', n) \<Longrightarrow> hm_get m sid = Some st \<Longrightarrow>
   n + (if is_waiting st then 1 else 0) = hm_count is_waiting m \<and> \<not> is_waiting st'
   \<and> st' = st\<lparr>cs_waiting := cs_waiting st'\<rparr> \<and> (cs_waiting st' = None) = (cs_waiting st = None)"
  using hm_count_insert_old [of m sid st is_waiting "st\<lparr>cs_waiting := None\<rparr>"]
  by (auto simp: polled_def is_waiting_def split: if_splits)

lemma inv_entry:
  assumes "streams_inv w" "hm_get (sw_streams w) sid = Some st"
  shows "stream_ok w sid st" "hm_ok (sw_streams w)" "sid \<in> sw_opened w"
  using assms by (auto simp: streams_inv_def dest: map_of_SomeD intro: rev_image_eqI)

text \<open>Storing a stream back whose bookkeeping is right.\<close>

lemma inv_store:
  assumes inv: "streams_inv w" and get: "hm_get (sw_streams w) sid = Some st"
    and await: "awaiting + (if is_waiting st then 1 else 0) = sw_awaiting w + (if is_waiting st' then 1 else 0)"
    and ok: "stream_ok w' sid st'"
    and same: "sw_streams w' = sw_streams w" "sw_opened w' = sw_opened w" "sw_skipped w' = sw_skipped w"
    and lists: "sw_cleanups w' \<in> {sw_cleanups w, sid # sw_cleanups w}" "sw_errors w' \<in> {sw_errors w, sid # sw_errors w}"
      "sw_peer_aborts w' \<in> {sw_peer_aborts w, sid # sw_peer_aborts w}"
    and fresh: "distinct (sw_cleanups w')" "distinct (sw_errors w')" "distinct (sw_peer_aborts w')"
  shows "streams_inv (w'\<lparr>sw_streams := hm_insert sid st' (sw_streams w'), sw_awaiting := awaiting\<rparr>)"
proof -
  note old = inv_entry [OF inv get]
  have "hm_count is_waiting (hm_insert sid st' (sw_streams w)) = awaiting"
    using hm_count_insert_old [OF get, of is_waiting st'] await inv by (auto simp: streams_inv_def split: if_splits)
  moreover have "stream_ok w' s t" if "s \<noteq> sid" "hm_get (sw_streams w) s = Some t" for s t
    using inv that lists same by (auto simp: streams_inv_def stream_ok_def)
  moreover have "distinct (sw_cleanups w' @ sw_skipped w')"
    using inv lists(1) fresh(1) same(3) old(1) by (auto simp: streams_inv_def stream_ok_def)
  moreover have "sw_opened w' = set (hm_keys (hm_insert sid st' (sw_streams w))) \<union> set (sw_cleanups w') \<union> set (sw_skipped w')"
  proof -
    have "set (hm_keys (hm_insert sid st' (sw_streams w))) = set (hm_keys (sw_streams w))"
    proof -
      have "sid \<in> set (hm_keys (sw_streams w))" using get by (auto dest: map_of_SomeD intro: rev_image_eqI)
      then show ?thesis unfolding hm_keys_insert by auto
    qed
    moreover have "set (sw_cleanups w') \<subseteq> insert sid (set (sw_cleanups w))" "set (sw_cleanups w) \<subseteq> set (sw_cleanups w')"
      using lists(1) by auto
    ultimately show ?thesis using inv same old(3) by (auto simp: streams_inv_def)
  qed
  moreover have "set (sw_errors w') \<union> set (sw_peer_aborts w') \<subseteq> sw_opened w'"
  proof -
    have "set (sw_errors w) \<union> set (sw_peer_aborts w) \<subseteq> sw_opened w" using inv unfolding streams_inv_def by blast
    then show ?thesis using lists(2,3) same(2) old(3) by auto
  qed
  moreover have "stream_ok (w'\<lparr>sw_streams := m, sw_awaiting := a\<rparr>) = stream_ok w'" for m a
    by (simp add: stream_ok_def fun_eq_iff)
  ultimately show ?thesis
    using ok fresh old(2) same(1) by (simp add: streams_inv_def hm_simps)
qed


lemma inv_poll: "streams_inv w \<Longrightarrow> streams_inv (poll_next J sid up w)"
proof (cases "hm_get (sw_streams w) sid")
  case (Some st)
  assume inv: "streams_inv w"
  have aw: "sw_awaiting w = hm_count is_waiting (sw_streams w)" using inv by (simp add: streams_inv_def)
  obtain st1 n where p: "polled st (sw_awaiting w) = (st1, n)" by fastforce
  obtain st2 w2 where u: "poll_upstream J sid up st1 (w\<lparr>sw_awaiting := n\<rparr>) = (st2, w2)" by fastforce
  obtain st3 n3 where h: "(case up of UpChunk _ \<Rightarrow> handed_off st2 (sw_awaiting w2) | _ \<Rightarrow> (st2, sw_awaiting w2)) = (st3, n3)"
    by fastforce
  note polled = polled_count [OF p [unfolded aw] Some]
  have ok: "stream_ok w sid st" by (rule inv_entry(1) [OF inv Some])
  have lists: "distinct (sw_cleanups w)" "distinct (sw_errors w)" "distinct (sw_peer_aborts w)"
    using inv by (auto simp: streams_inv_def)
  have waiting: "cs_waiting st2 = cs_waiting st1" "sw_awaiting w2 = n"
    using u by (cases up; auto simp: observe_chunk_def count_rest_def disable_counting_def Let_def
        split: if_splits option.splits prod.splits)+
  have fields: "cs_cleanup st3 = cs_cleanup st2" "cs_executed st3 = cs_executed st2" "cs_error_recorded st3 = cs_error_recorded st2"
    using h by (auto simp: handed_off_def split: upstream_poll.splits if_splits)
  have await: "n3 + (if is_waiting st then 1 else 0) = sw_awaiting w + (if is_waiting st3 then 1 else 0)"
    using polled waiting h aw by (auto simp: handed_off_def is_waiting_def split: upstream_poll.splits if_splits)
  have st1: "cs_cleanup st1 = cs_cleanup st" "cs_executed st1 = cs_executed st" "cs_error_recorded st1 = cs_error_recorded st"
    using polled by (metis cleanup_stream.simps(4,5,6) cleanup_stream.surjective cleanup_stream.update_convs(9))+
  have "streams_inv (w2\<lparr>sw_streams := hm_insert sid st3 (sw_streams w2), sw_awaiting := n3\<rparr>)"
  proof (rule inv_store [OF inv Some await])
    have "cs_cleanup (observe_chunk J b s) = cs_cleanup s \<and> cs_executed (observe_chunk J b s) = cs_executed s
      \<and> cs_error_recorded (observe_chunk J b s) = cs_error_recorded s" for b s
      by (simp add: observe_chunk_def count_rest_def disable_counting_def Let_def split: option.splits prod.splits)
    then show "stream_ok w2 sid st3"
      using u ok st1 by (cases up) (auto simp: stream_ok_def fields split: if_splits)
  qed (use u ok lists st1 in \<open>cases up; auto simp: stream_ok_def split: if_splits\<close>)+
  then show ?thesis using Some p u h by (simp add: poll_next_def)
qed (simp add: poll_next_def)


lemma inv_open:
  assumes inv: "streams_inv w" and new: "sid \<notin> sw_opened w"
  shows "streams_inv (w\<lparr>sw_streams := hm_insert sid (new_stream recorder peer_stream waits) (sw_streams w),
    sw_opened := insert sid (sw_opened w)\<rparr>)"
proof -
  have sub: "set (sw_errors w) \<union> set (sw_peer_aborts w) \<subseteq> sw_opened w"
    and opened: "sw_opened w = set (hm_keys (sw_streams w)) \<union> set (sw_cleanups w) \<union> set (sw_skipped w)"
    using inv unfolding streams_inv_def by blast+
  have none: "hm_get (sw_streams w) sid = None" using new opened by (simp add: map_of_eq_None_iff)
  have "hm_count is_waiting (hm_insert sid (new_stream recorder peer_stream waits) (sw_streams w)) = sw_awaiting w"
    using hm_count_insert_new [OF none, of is_waiting] inv by (simp add: streams_inv_def is_waiting_def new_stream_def)
  moreover have "stream_ok w sid (new_stream recorder peer_stream waits)"
    using new opened sub by (auto simp: stream_ok_def new_stream_def)
  moreover have "stream_ok (w\<lparr>sw_streams := m, sw_opened := s\<rparr>) = stream_ok w" for m s
    by (simp add: stream_ok_def fun_eq_iff)
  moreover have "set (sw_errors w) \<union> set (sw_peer_aborts w) \<subseteq> insert sid (sw_opened w)" using sub by blast
  moreover have "insert sid (sw_opened w) = set (hm_keys (hm_insert sid (new_stream recorder peer_stream waits) (sw_streams w)))
      \<union> set (sw_cleanups w) \<union> set (sw_skipped w)"
    unfolding opened hm_keys_insert by auto
  ultimately show ?thesis
    using inv by (simp add: streams_inv_def hm_simps)
qed

lemma inv_drop: "streams_inv w \<Longrightarrow> streams_inv (drop_stream runtime sid w)"
proof (cases "hm_get (sw_streams w) sid")
  case (Some st)
  assume inv: "streams_inv w"
  have sub: "set (sw_errors w) \<union> set (sw_peer_aborts w) \<subseteq> sw_opened w"
    and opened: "sw_opened w = set (hm_keys (sw_streams w)) \<union> set (sw_cleanups w) \<union> set (sw_skipped w)"
    and ok: "hm_ok (sw_streams w)" and aw: "sw_awaiting w = hm_count is_waiting (sw_streams w)"
    and lists: "distinct (sw_cleanups w @ sw_skipped w)" "distinct (sw_errors w)" "distinct (sw_peer_aborts w)"
    using inv unfolding streams_inv_def by blast+
  have st: "stream_ok w sid st" by (rule inv_entry(1) [OF inv Some])
  define w1 where "w1 = (if cs_executed st \<or> \<not> cs_cleanup st then w
    else if runtime then w\<lparr>sw_cleanups := sid # sw_cleanups w\<rparr> else w\<lparr>sw_skipped := sid # sw_skipped w\<rparr>)"
  obtain st' n where p: "polled st (sw_awaiting w) = (st', n)" by fastforce
  have same: "sw_streams w1 = sw_streams w" "sw_opened w1 = sw_opened w" "sw_errors w1 = sw_errors w"
    "sw_peer_aborts w1 = sw_peer_aborts w" "sw_awaiting w1 = sw_awaiting w" by (simp_all add: w1_def)
  have n: "n = hm_count is_waiting (hm_remove sid (sw_streams w))"
    using polled_count [OF p [unfolded aw] Some] hm_count_remove [OF ok Some, of is_waiting] by simp
  have gone: "set (sw_cleanups w1) \<union> set (sw_skipped w1) = insert sid (set (sw_cleanups w) \<union> set (sw_skipped w))"
    using st by (auto simp: w1_def stream_ok_def)
  have "sid \<in> set (hm_keys (sw_streams w))" using Some by (auto dest: map_of_SomeD intro: rev_image_eqI)
  then have "sw_opened w = set (hm_keys (hm_remove sid (sw_streams w))) \<union> set (sw_cleanups w1) \<union> set (sw_skipped w1)"
    using opened gone unfolding hm_keys_remove by auto
  moreover have "distinct (sw_cleanups w1 @ sw_skipped w1)"
    using lists(1) st by (auto simp: w1_def stream_ok_def)
  moreover have "stream_ok w1 s t" if "s \<noteq> sid" "hm_get (sw_streams w) s = Some t" for s t
    using inv_entry(1) [OF inv that(2)] that(1) by (auto simp: w1_def stream_ok_def)
  moreover have "stream_ok (w1\<lparr>sw_streams := m, sw_awaiting := a\<rparr>) = stream_ok w1" for m a
    by (simp add: stream_ok_def fun_eq_iff)
  ultimately have "streams_inv (w1\<lparr>sw_streams := hm_remove sid (sw_streams w1), sw_awaiting := n\<rparr>)"
    using lists ok sub by (simp add: streams_inv_def hm_simps same n)
  moreover have "drop_stream runtime sid w = w1\<lparr>sw_streams := hm_remove sid (sw_streams w1), sw_awaiting := n\<rparr>"
    using Some p by (simp add: drop_stream_def w1_def [symmetric] same)
  ultimately show ?thesis by simp
qed (simp add: drop_stream_def)

lemma reachable_streams_inv: "(stream_step J)\<^sup>*\<^sup>* no_streams w \<Longrightarrow> streams_inv w"
proof (induction rule: rtranclp_induct)
  case base
  show ?case by (simp add: streams_inv_def no_streams_def hm_count_def)
next
  case (step w w')
  from step(2,3) show ?case by (cases rule: stream_step.cases) (simp_all add: inv_open inv_poll inv_drop)
qed

text \<open>C39. Whatever the streams of a node do, the shared count the watchdog reads is the number of open streams
  that wait for their clients, so it never underflows; and every stream that is gone had its clean-up
  started exactly once, at its end or when it was dropped, unless the runtime was gone, which is noted.\<close>

theorem streams_clean_up_once:
  assumes "(stream_step J)\<^sup>*\<^sup>* no_streams w"
  shows "sw_awaiting w = card {sid. \<exists>st. hm_get (sw_streams w) sid = Some st \<and> cs_waiting st = Some True}
    \<and> (sid \<in> sw_opened w \<and> hm_get (sw_streams w) sid = None \<longrightarrow>
         count_list (sw_cleanups w) sid + count_list (sw_skipped w) sid = 1)
    \<and> count_list (sw_cleanups w) sid \<le> 1 \<and> count_list (sw_errors w) sid \<le> 1"
proof -
  note inv = reachable_streams_inv [OF assms]
  have lists: "distinct (sw_cleanups w @ sw_skipped w)" "distinct (sw_errors w)"
    and opened: "sw_opened w = set (hm_keys (sw_streams w)) \<union> set (sw_cleanups w) \<union> set (sw_skipped w)"
    and ok: "hm_ok (sw_streams w)" "sw_awaiting w = hm_count is_waiting (sw_streams w)"
    using inv unfolding streams_inv_def by blast+
  have count: "count_list xs x = (if x \<in> set xs then 1 else 0)" if "distinct xs" for xs and x :: string
    using that by (induction xs) auto
  have "hm_count P m = card {k. \<exists>v. hm_get m k = Some v \<and> P v}" if "hm_ok m" for P and m :: "(string, cleanup_stream) hashmap"
  proof -
    have "{k. \<exists>v. hm_get m k = Some v \<and> P v} = {k. \<exists>v. (k, v) \<in> set m \<and> P v}"
      by (simp add: hm_in_set_iff [OF that])
    also have "\<dots> = fst ` set (filter (P \<circ> snd) m)" by (auto simp: image_iff)
    finally have "{k. \<exists>v. hm_get m k = Some v \<and> P v} = fst ` set (filter (P \<circ> snd) m)" .
    moreover have "distinct (map fst (filter (P \<circ> snd) m))" using that by (rule distinct_map_filter)
    then have "card (fst ` set (filter (P \<circ> snd) m)) = length (filter (P \<circ> snd) m)"
      using distinct_card [of "map fst (filter (P \<circ> snd) m)"] by simp
    ultimately show ?thesis by (simp add: hm_count_def filter_map)
  qed
  then have "sw_awaiting w = card {sid. \<exists>st. hm_get (sw_streams w) sid = Some st \<and> cs_waiting st = Some True}"
    using ok by (simp add: is_waiting_def)
  moreover have "count_list (sw_cleanups w) sid + count_list (sw_skipped w) sid = 1"
    if "sid \<in> sw_opened w" "hm_get (sw_streams w) sid = None"
    using that lists opened by (auto simp: count map_of_eq_None_iff)
  ultimately show ?thesis using lists by (simp add: count)
qed


section \<open>A small library of JSON values\<close>

text \<open>Numbers and nothing else: a line whose payload is not a digit counts as one token.\<close>

definition digit_json :: "u64 json_ops" where
  "digit_json = \<lparr>jo_parse = (\<lambda>s. if s = ''7'' then Some 7 else None), jo_get = (\<lambda>v key. Some v), jo_str = (\<lambda>_. None),
     jo_u64 = Some, jo_bool = (\<lambda>_. None), jo_array = (\<lambda>_. None),
     jo_without = (\<lambda>_ _. None), jo_print = (\<lambda>_. None)\<rparr>"

theorem tokens_independent_of_chunks_witness:
  "cs_tokens (fold (observe_chunk digit_json) [''da'', ''ta:a'' @ [newline] @ ''data:b'', [newline] @ ''d''] (new_stream True False True)) = 2"
proof -
  let ?chunks = "[''da'', ''ta:a'' @ [newline] @ ''data:b'', [newline] @ ''d'']"
  have "lines_fit (concat ?chunks)" by (simp add: lines_fit_def MAX_TOKEN_BUFFER_SIZE_def)
  from tokens_independent_of_chunks [OF this, of digit_json True False True] show ?thesis
    by (simp add: count_lines.simps process_line_def strip_leading_whitespace_def strip_prefix_def starts_with_def
        digit_json_def new_stream_def)
qed

theorem streams_clean_up_once_witness:
  "count_list (sw_cleanups (drop_stream True ''a'' (no_streams\<lparr>sw_streams := [(''a'', new_stream True False True)],
      sw_opened := {''a''}\<rparr>))) ''a'' = 1"
proof -
  let ?w = "no_streams\<lparr>sw_streams := [(''a'', new_stream True False True)], sw_opened := {''a''}\<rparr>"
  have "stream_step digit_json no_streams
      (no_streams\<lparr>sw_streams := hm_insert ''a'' (new_stream True False True) (sw_streams no_streams),
         sw_opened := insert ''a'' (sw_opened no_streams)\<rparr>)"
    by (rule open_stream) (simp add: no_streams_def)
  then have "stream_step digit_json no_streams ?w" by (simp add: no_streams_def)
  then have "(stream_step digit_json)\<^sup>*\<^sup>* no_streams (drop_stream True ''a'' ?w)"
    by (meson dropped r_into_rtranclp rtranclp.rtrancl_into_rtrancl)
  from streams_clean_up_once [OF this, of "''a''"] show ?thesis
    by (simp add: drop_stream_def no_streams_def new_stream_def polled_def)
qed

end
