(* ===== verification/Relay.thy ===== *)
theory Relay
  imports Noise_Http Resources Token_Stream
begin

text \<open>
  What the router does to a request and a response on their way: the error responses of \<^verbatim>\<open>src/errors.rs\<close>, the
  headers that are relayed, the kind of the endpoint, and the checks a request passes before it is routed
  (\<^verbatim>\<open>src/router.rs\<close>). The header map and the JSON library are parameters.
\<close>

section \<open>Errors\<close>

record api_error =
  er_message :: string
  er_type :: string
  er_param :: "string option"
  er_code :: "string option"
  er_origin_node_id :: "string option"

text \<open>The headers of an error are only ever inserted by name.\<close>

record app_error =
  ap_status :: nat
  ap_error :: api_error
  ap_headers :: "(string, string) hashmap option"

definition new_app_error :: "nat \<Rightarrow> string \<Rightarrow> string \<Rightarrow> app_error" where
  "new_app_error status message typ =
     \<lparr>ap_status = status,
      ap_error = \<lparr>er_message = message, er_type = typ, er_param = None, er_code = None, er_origin_node_id = None\<rparr>,
      ap_headers = None\<rparr>"

definition with_param :: "string \<Rightarrow> app_error \<Rightarrow> app_error" where
  "with_param param e = e\<lparr>ap_error := (ap_error e)\<lparr>er_param := Some param\<rparr>\<rparr>"

definition with_header :: "string \<Rightarrow> string \<Rightarrow> app_error \<Rightarrow> app_error" where
  "with_header name v e =
     e\<lparr>ap_headers := Some (hm_insert name v (case ap_headers e of Some hs \<Rightarrow> hs | None \<Rightarrow> []))\<rparr>"

definition invalid_request :: "string \<Rightarrow> app_error" where
  "invalid_request message = new_app_error 400 message ''invalid_request_error''"

definition authentication_error :: "string \<Rightarrow> app_error" where
  "authentication_error message = new_app_error 401 message ''authentication_error''"

definition model_not_found :: "string \<Rightarrow> app_error" where
  "model_not_found message = new_app_error 404 message ''model_not_found''"

definition service_unavailable :: "string \<Rightarrow> string \<Rightarrow> app_error" where
  "service_unavailable message typ = new_app_error 503 message typ"

definition internal_server_error :: "string \<Rightarrow> app_error" where
  "internal_server_error message = new_app_error 500 message ''internal_error''"

definition upstream_error :: "string \<Rightarrow> app_error" where
  "upstream_error message = new_app_error 502 message ''upstream_error''"

definition request_timeout :: "string \<Rightarrow> app_error" where
  "request_timeout message = new_app_error 408 message ''request_timeout''"

definition client_disconnected :: app_error where
  "client_disconnected = new_app_error 499 ''Client closed connection'' ''client_disconnected''"

definition node_draining :: "string \<Rightarrow> app_error" where
  "node_draining origin_node_id =
     (let e = with_header ''retry-after'' ''5'' (service_unavailable ''Node is draining for shutdown'' ''draining'')
      in e\<lparr>ap_error := (ap_error e)\<lparr>er_origin_node_id := Some origin_node_id\<rparr>\<rparr>)"

text \<open>The messages of the node errors; \<open>inner\<close> is that of an error from elsewhere.\<close>

fun node_error_message :: "string \<Rightarrow> node_error \<Rightarrow> string" where
  "node_error_message inner Draining = ''Node is shutting down''"
| "node_error_message inner MaxInstancesProfile = ''Max instances for this profile reached''"
| "node_error_message inner MaxInstancesNode = ''Max instances per node reached''"
| "node_error_message inner QueueFull = ''Queue full''"
| "node_error_message inner QueueTimeout = ''Queue timeout''"
| "node_error_message inner QueueError = ''Queue error''"
| "node_error_message inner (ModelNotFound m) = ''Model not found: '' @ m"
| "node_error_message inner InsufficientResources = ''Insufficient resources even after eviction''"
| "node_error_message inner YieldToWaiters = ''Yield to pending waiters''"
| "node_error_message inner SpawnFailuresExhausted = ''Local spawn failures exhausted, try peer''"
| "node_error_message inner NodeNoAvailablePorts = ''No available ports''"
| "node_error_message inner (NodePortInUse p) = ''Port '' @ show_base 10 (unat p) @ '' already in use''"
| "node_error_message inner (MissingHostArg p) = ''Missing value for --host in profile '' @ p"
| "node_error_message inner (MissingPortArg p) = ''Missing value for --port in profile '' @ p"
| "node_error_message inner (InvalidPortArg v p) = ''Invalid port '' @ [CHR 0x27] @ v @ [CHR 0x27] @ '' in profile '' @ p"
| "node_error_message inner OtherError = inner"

definition node_error_to_app_error :: "string \<Rightarrow> node_error \<Rightarrow> string \<Rightarrow> app_error" where
  "node_error_to_app_error inner e nid = (case e of
     Draining \<Rightarrow> node_draining nid
   | SpawnFailuresExhausted \<Rightarrow> with_header ''retry-after'' ''30''
       (service_unavailable ''All nodes failed to spawn instance for this model'' ''spawn_failures_exhausted'')
   | QueueFull \<Rightarrow> with_header ''retry-after'' ''5'' (new_app_error 503 ''Queue full'' ''queue_full'')
   | QueueTimeout \<Rightarrow> with_header ''retry-after'' ''5'' (service_unavailable ''Queue timeout'' ''queue_timeout'')
   | InsufficientResources \<Rightarrow> with_header ''retry-after'' ''30'' (service_unavailable ''Insufficient resources'' ''no_capacity'')
   | ModelNotFound m \<Rightarrow> model_not_found (''Model not found: '' @ m)
   | OtherError \<Rightarrow>
       (if contains_str inner ''timed out'' then new_app_error 408 ''Request timed out'' ''request_timeout''
        else internal_server_error inner)
   | _ \<Rightarrow> internal_server_error (node_error_message inner e))"

section \<open>Headers\<close>

text \<open>
  The header map, by its operations. Names are those \<open>ho_name\<close> yields, in lower case; a name can have
  several values.
\<close>

record 'h header_ops =
  ho_get_all :: "'h \<Rightarrow> string \<Rightarrow> string list"
  ho_iter :: "'h \<Rightarrow> (string \<times> string) list"
  ho_remove :: "string \<Rightarrow> 'h \<Rightarrow> 'h"
  ho_insert :: "string \<Rightarrow> string \<Rightarrow> 'h \<Rightarrow> 'h"
  ho_append :: "string \<Rightarrow> string \<Rightarrow> 'h \<Rightarrow> 'h"
  ho_empty :: 'h
  ho_name :: "string \<Rightarrow> string option"

definition ho_get :: "'h header_ops \<Rightarrow> 'h \<Rightarrow> string \<Rightarrow> string option" where
  "ho_get H h name = (case ho_get_all H h name of [] \<Rightarrow> None | v # _ \<Rightarrow> Some v)"

definition HOP_BY_HOP_HEADERS :: "string list" where
  "HOP_BY_HOP_HEADERS = [''connection'', ''keep-alive'', ''proxy-authenticate'', ''proxy-authorization'',
     ''proxy-connection'', ''te'', ''trailer'', ''transfer-encoding'', ''upgrade'']"

definition nominated :: "'h header_ops \<Rightarrow> 'h \<Rightarrow> string list" where
  "nominated H h = List.map_filter (\<lambda>token. ho_name H (trim token))
     (concat (map (split_on CHR '','') (List.map_filter header_to_str (ho_get_all H h ''connection''))))"

definition remove_hop_by_hop_headers :: "'h header_ops \<Rightarrow> 'h \<Rightarrow> 'h" where
  "remove_hop_by_hop_headers H h = fold (ho_remove H) HOP_BY_HOP_HEADERS (fold (ho_remove H) (nominated H h) h)"

definition build_local_upstream_headers :: "'h header_ops \<Rightarrow> 'h \<Rightarrow> bool \<Rightarrow> 'h" where
  "build_local_upstream_headers H source response_streaming =
     (let h = ho_remove H ''content-length'' (ho_remove H ''host'' (remove_hop_by_hop_headers H source))
      in if response_streaming then ho_insert H ''connection'' ''close'' h else h)"

definition build_forward_headers :: "'h header_ops \<Rightarrow> 'h \<Rightarrow> nat \<Rightarrow> string \<Rightarrow> 'h" where
  "build_forward_headers H source current_hops request_id =
     (let h = ho_remove H ''content-length'' (ho_remove H ''host'' (remove_hop_by_hop_headers H source));
          hops = (case header_to_str (show_base 10 (current_hops + 1)) of Some v \<Rightarrow> v | None \<Rightarrow> ''1'');
          h1 = ho_insert H ''x-llama-mesh-hops'' hops h
      in case header_to_str request_id of Some v \<Rightarrow> ho_insert H ''x-request-id'' v h1 | None \<Rightarrow> h1)"

definition build_peer_response_headers :: "'h header_ops \<Rightarrow> (string \<times> string) list \<Rightarrow> 'h" where
  "build_peer_response_headers H raw = fold (\<lambda>(name, v) h.
     case (ho_name H name, header_to_str v) of
       (Some n, Some s) \<Rightarrow> ho_append H n s h | _ \<Rightarrow> h) raw (ho_empty H)"

section \<open>Endpoints\<close>

datatype endpoint_kind = TextEndpoint | EmbeddingsEndpoint | RerankEndpoint | OtherEndpoint

definition endpoint_from_path :: "string \<Rightarrow> endpoint_kind" where
  "endpoint_from_path path =
     (if starts_with path ''/v1/embeddings'' then EmbeddingsEndpoint
      else if starts_with path ''/v1/rerank'' \<or> starts_with path ''/rerank'' then RerankEndpoint
      else if starts_with path ''/v1/chat/completions'' \<or> starts_with path ''/v1/completions'' then TextEndpoint
      else OtherEndpoint)"

definition response_streaming_for_endpoint :: "endpoint_kind \<Rightarrow> bool \<Rightarrow> bool" where
  "response_streaming_for_endpoint kind client_stream_requested = (client_stream_requested \<and> kind = TextEndpoint)"

definition request_body_for_endpoint :: "'j json_ops \<Rightarrow> 'j \<Rightarrow> endpoint_kind \<Rightarrow> bool \<Rightarrow> string \<Rightarrow> string" where
  "request_body_for_endpoint J json_body kind client_stream_requested original =
     (if \<not> client_stream_requested \<or> kind \<notin> {EmbeddingsEndpoint, RerankEndpoint} then original
      else case jo_without J json_body ''stream'' of
        None \<Rightarrow> original
      | Some sanitized \<Rightarrow> (case jo_print J sanitized of Some s \<Rightarrow> s | None \<Rightarrow> original))"

definition quoted_model :: "string \<Rightarrow> string" where
  "quoted_model m = ''Model '' @ [CHR 0x27] @ m @ [CHR 0x27]"

definition ensure_profile_supports_endpoint :: "profile \<Rightarrow> endpoint_kind \<Rightarrow> string \<Rightarrow> (unit, app_error) result" where
  "ensure_profile_supports_endpoint p kind requested = (case kind of
     EmbeddingsEndpoint \<Rightarrow>
       (if supports_embeddings p then Ok ()
        else Err (with_param ''model'' (model_not_found (quoted_model requested @ '' is not configured for embeddings''))))
   | RerankEndpoint \<Rightarrow>
       (if supports_rerank p then Ok ()
        else Err (with_param ''model'' (model_not_found (quoted_model requested @ '' is not configured for reranking''))))
   | TextEndpoint \<Rightarrow>
       (if supports_text_mode p then Ok ()
        else Err (with_param ''model'' (invalid_request (quoted_model requested @ '' is restricted to embeddings or rerank endpoints''))))
   | OtherEndpoint \<Rightarrow> Ok ())"

definition resolve_requested_model :: "'j json_ops \<Rightarrow> 'j \<Rightarrow> string \<Rightarrow> string option" where
  "resolve_requested_model J json_body default_name = (case jo_get J json_body ''model'' of
     None \<Rightarrow> Some default_name
   | Some v \<Rightarrow> (case jo_str J v of Some s \<Rightarrow> if s \<noteq> [] then Some s else None | None \<Rightarrow> None))"


section \<open>Admission of a request\<close>

text \<open>\<^verbatim>\<open>str::parse::<usize>\<close> on a 64-bit target.\<close>

definition parse_usize :: "string \<Rightarrow> nat option" where
  "parse_usize s =
     (let ds = (case s of c # t \<Rightarrow> if c = CHR ''+'' then t else s | [] \<Rightarrow> []) in
      if ds = [] \<or> \<not> list_all is_digit ds then None
      else let n = read_base 10 ds in if n < 2 ^ 64 then Some n else None)"

definition current_hops :: "'h header_ops \<Rightarrow> nat \<Rightarrow> 'h \<Rightarrow> (nat, app_error) result" where
  "current_hops H limit headers =
     (case (case ho_get H headers ''x-llama-mesh-hops'' of
              None \<Rightarrow> Ok 0
            | Some v \<Rightarrow> (case header_to_str v of
                None \<Rightarrow> Err (invalid_request ''Invalid x-llama-mesh-hops header encoding'')
              | Some s \<Rightarrow> (case parse_usize s of
                  None \<Rightarrow> Err (invalid_request ''Invalid x-llama-mesh-hops header value'')
                | Some n \<Rightarrow> Ok n))) of
        Inl e \<Rightarrow> Err e
      | Inr n \<Rightarrow> if limit < n then Err (invalid_request ''Too many hops (loop detected)'') else Ok n)"

datatype body_read = BodyTimedOut | BodyFailed string | BodyRead string

text \<open>The request as it arrives; \<open>in_fresh_id\<close> is the identifier drawn if it has none.\<close>

record 'h ingress =
  in_path :: string
  in_headers :: 'h
  in_body :: body_read
  in_fresh_id :: string

record routed =
  rt_endpoint :: endpoint_kind
  rt_model :: string
  rt_streaming :: bool
  rt_body :: string
  rt_request_id :: string
  rt_hops :: nat

definition read_body_for :: "body_read \<Rightarrow> (string, app_error) result" where
  "read_body_for b = (case b of
     BodyTimedOut \<Rightarrow> Err (request_timeout ''Request body read timed out'')
   | BodyFailed e \<Rightarrow> Err (invalid_request (''Body too large or error: '' @ e))
   | BodyRead bytes \<Rightarrow> Ok bytes)"

definition admit_body ::
  "'h header_ops \<Rightarrow> 'j json_ops \<Rightarrow> node_config \<Rightarrow> 'h ingress \<Rightarrow> string \<Rightarrow> (routed, app_error) result" where
  "admit_body H J cfg req bytes = (case jo_parse J bytes of
     None \<Rightarrow> Err (invalid_request ''Invalid JSON'')
   | Some json_body \<Rightarrow>
       (case resolve_requested_model J json_body (default_model cfg) of
          None \<Rightarrow> Err (with_param ''model'' (invalid_request ([CHR 0x27] @ ''model'' @ [CHR 0x27] @ '' must be a non-empty string'')))
        | Some model_name \<Rightarrow>
            (let kind = endpoint_from_path (in_path req);
                 stream = (case Option.bind (jo_get J json_body ''stream'') (jo_bool J) of Some b \<Rightarrow> b | None \<Rightarrow> False);
                 rid = (case Option.bind (ho_get H (in_headers req) ''x-request-id'') header_to_str of
                          Some s \<Rightarrow> s | None \<Rightarrow> in_fresh_id req)
             in case current_hops H (max_hops cfg) (in_headers req) of
                  Inl e \<Rightarrow> Err e
                | Inr hops \<Rightarrow> Ok \<lparr>rt_endpoint = kind, rt_model = model_name,
                    rt_streaming = response_streaming_for_endpoint kind stream,
                    rt_body = request_body_for_endpoint J json_body kind stream bytes,
                    rt_request_id = rid, rt_hops = hops\<rparr>)))"

definition admit_request ::
  "'h header_ops \<Rightarrow> 'j json_ops \<Rightarrow> node_config \<Rightarrow> bool \<Rightarrow> 'h ingress \<Rightarrow> (routed, app_error) result" where
  "admit_request H J cfg is_draining req =
     (if is_draining then Err (node_draining (node_id cfg))
      else case check_api_key_auth (ho_get H) (ho_iter H) header_to_str (auth cfg) (in_headers req) of
        Inl _ \<Rightarrow> Err (authentication_error ''Unauthorized'')
      | Inr _ \<Rightarrow> (case read_body_for (in_body req) of
          Inl e \<Rightarrow> Err e
        | Inr bytes \<Rightarrow> admit_body H J cfg req bytes))"

section \<open>Laws of the header map\<close>

lemma header_to_str_show: "header_to_str (show_base 10 n) = Some (show_base 10 n)"
  using show_base_10_digits [of n] by (auto simp: header_to_str_def list_all_iff is_digit_def)

locale header_laws =
  fixes H :: "'h header_ops"
  assumes get_remove: "ho_get_all H (ho_remove H n h) m = (if m = n then [] else ho_get_all H h m)"
    and get_insert: "ho_get_all H (ho_insert H n v h) m = (if m = n then [v] else ho_get_all H h m)"
    and get_append: "ho_get_all H (ho_append H n v h) m = (if m = n then ho_get_all H h m @ [v] else ho_get_all H h m)"
    and get_empty: "ho_get_all H (ho_empty H) m = []"
begin

lemma get_removes: "ho_get_all H (fold (ho_remove H) ns h) m = (if m \<in> set ns then [] else ho_get_all H h m)"
  by (induction ns arbitrary: h) (auto simp: get_remove)

lemma get_end_to_end:
  "ho_get_all H (remove_hop_by_hop_headers H h) m =
     (if m \<in> set HOP_BY_HOP_HEADERS \<union> set (nominated H h) then [] else ho_get_all H h m)"
  by (simp add: remove_hop_by_hop_headers_def get_removes)

lemma get_forward:
  "ho_get_all H (build_forward_headers H h hops rid) m =
     (if m = ''x-request-id'' \<and> header_to_str rid \<noteq> None then [rid]
      else if m = ''x-llama-mesh-hops'' then [show_base 10 (hops + 1)]
      else if m \<in> set HOP_BY_HOP_HEADERS \<union> set (nominated H h) \<union> {''host'', ''content-length''} then []
      else ho_get_all H h m)"
  using header_to_str_show [of "hops + 1"]
  by (auto simp: build_forward_headers_def Let_def get_insert get_remove get_end_to_end header_to_str_def
      split: option.splits if_splits)

lemma get_peer_response:
  "ho_get_all H (build_peer_response_headers H raw) m =
     List.map_filter (\<lambda>(name, v). if ho_name H name = Some m then header_to_str v else None) raw"
proof -
  have "ho_get_all H (fold (\<lambda>(name, v) h. case (ho_name H name, header_to_str v) of
       (Some n, Some s) \<Rightarrow> ho_append H n s h | _ \<Rightarrow> h) raw h) m =
     ho_get_all H h m @ List.map_filter (\<lambda>(name, v). if ho_name H name = Some m then header_to_str v else None) raw" for h
    by (induction raw arbitrary: h) (auto simp: get_append List.map_filter_simps split: option.splits if_splits)
  then show ?thesis by (simp add: build_peer_response_headers_def get_empty)
qed

end

text \<open>The headers of the messages of \<open>Noise_Http\<close> are such a map: the list of their names and values.\<close>

definition wire_headers :: "header_list header_ops" where
  "wire_headers = \<lparr>
     ho_get_all = (\<lambda>h n. map snd (filter (\<lambda>p. fst p = n) h)),
     ho_iter = (\<lambda>h. h),
     ho_remove = (\<lambda>n h. filter (\<lambda>p. fst p \<noteq> n) h),
     ho_insert = (\<lambda>n v h. (n, v) # filter (\<lambda>p. fst p \<noteq> n) h),
     ho_append = (\<lambda>n v h. h @ [(n, v)]),
     ho_empty = [],
     ho_name = (\<lambda>s. if s = [] then None else Some (to_lowercase s))\<rparr>"

interpretation wire: header_laws wire_headers
proof
  show "ho_get_all wire_headers (ho_remove wire_headers n h) m = (if m = n then [] else ho_get_all wire_headers h m)" for n m h
    by (auto simp: wire_headers_def intro!: arg_cong [where f = "map snd"] filter_cong)
  show "ho_get_all wire_headers (ho_insert wire_headers n v h) m = (if m = n then [v] else ho_get_all wire_headers h m)" for n m h v
    by (auto simp: wire_headers_def intro!: arg_cong [where f = "map snd"] filter_cong)
qed (simp_all add: wire_headers_def)


section \<open>What is relayed\<close>

text \<open>A forwarded request carries every value of every end-to-end header of the client unchanged and in
  order; the connection headers, those the client named in \<^verbatim>\<open>Connection\<close>, the host and the length are gone;
  the hop counter is one more than on arrival, and the request identifier is passed on.\<close>

theorem forwarded_headers:
  assumes "header_laws H"
  shows "ho_get_all H (build_forward_headers H h hops rid) m =
     (if m = ''x-request-id'' \<and> header_to_str rid \<noteq> None then [rid]
      else if m = ''x-llama-mesh-hops'' then [show_base 10 (hops + 1)]
      else if m \<in> set HOP_BY_HOP_HEADERS \<union> set (nominated H h) \<union> {''host'', ''content-length''} then []
      else ho_get_all H h m)"
  by (rule header_laws.get_forward [OF assms])

theorem forwarded_headers_witness:
  "ho_get_all wire_headers (build_forward_headers wire_headers
     [(''cookie'', ''a''), (''connection'', ''te, X-Drop''), (''x-drop'', ''1''), (''cookie'', ''b'')] 4 ''r1'') ''cookie'' = [''a'', ''b'']
   \<and> ho_get_all wire_headers (build_forward_headers wire_headers
     [(''cookie'', ''a''), (''connection'', ''te, X-Drop''), (''x-drop'', ''1''), (''cookie'', ''b'')] 4 ''r1'') ''x-drop'' = []"
proof -
  let ?h = "[(''cookie'', ''a''), (''connection'', ''te, X-Drop''), (''x-drop'', ''1''), (''cookie'', ''b'')]"
  have n: "nominated wire_headers ?h = [''te'', ''x-drop'']"
    by code_simp
  show ?thesis
    using forwarded_headers [OF wire.header_laws_axioms, of ?h 4 "''r1''" "''cookie''"]
      forwarded_headers [OF wire.header_laws_axioms, of ?h 4 "''r1''" "''x-drop''"]
    by (simp add: n HOP_BY_HOP_HEADERS_def) (simp add: wire_headers_def)
qed

section \<open>Forwarding ends\<close>

text \<open>The nodes a request passes, each with its limit: every one admits it and forwards it to the next.\<close>

fun travels :: "'h header_ops \<Rightarrow> (nat \<times> string) list \<Rightarrow> 'h \<Rightarrow> bool" where
  "travels H [] h = True"
| "travels H ((limit, rid) # path) h = (case current_hops H limit h of
     Inl _ \<Rightarrow> False
   | Inr n \<Rightarrow> travels H path (build_forward_headers H h n rid))"

lemma parse_usize_show: "parse_usize (show_base 10 n) = (if n < 2 ^ 64 then Some n else None)"
proof -
  have "CHR ''+'' \<notin> set (show_base 10 n)" using digits_plain [OF show_base_10_digits] by blast
  then have "(case show_base 10 n of c # t \<Rightarrow> if c = CHR ''+'' then t else show_base 10 n | [] \<Rightarrow> []) = show_base 10 n"
    by (cases "show_base 10 n") auto
  then show ?thesis
    using show_base_10_digits [of n] by (simp add: parse_usize_def read_show_base Let_def)
qed

lemma current_hops_le: "current_hops H limit h = Ok n \<Longrightarrow> n \<le> limit"
  by (auto simp: current_hops_def split: sum.splits option.splits if_splits)

lemma current_hops_shown:
  "ho_get_all H h ''x-llama-mesh-hops'' = [show_base 10 k] \<Longrightarrow> current_hops H limit h = Ok n \<Longrightarrow> n = k"
  by (auto simp: current_hops_def ho_get_def parse_usize_show header_to_str_def split: option.splits if_splits)

lemma travels_from:
  assumes "header_laws H"
  shows "travels H path h \<Longrightarrow> ho_get_all H h ''x-llama-mesh-hops'' = [show_base 10 k] \<Longrightarrow>
    list_all (\<lambda>(limit, _). limit \<le> bound) path \<Longrightarrow> path \<noteq> [] \<Longrightarrow> length path + k \<le> bound + 1"
proof (induction path arbitrary: h k)
  case (Cons node path)
  obtain limit rid where node: "node = (limit, rid)" by fastforce
  then obtain n where n: "current_hops H limit h = Ok n" "travels H path (build_forward_headers H h n rid)"
    using Cons.prems(1) by (auto split: sum.splits)
  have nk: "n = k" "n \<le> limit" "limit \<le> bound"
    using current_hops_shown [OF Cons.prems(2) n(1)] current_hops_le [OF n(1)] Cons.prems(3) node by simp_all
  show ?case
  proof (cases path)
    case Nil
    then show ?thesis using nk by simp
  next
    case (Cons a as)
    have "ho_get_all H (build_forward_headers H h n rid) ''x-llama-mesh-hops'' = [show_base 10 (n + 1)]"
      by (simp add: header_laws.get_forward [OF assms])
    from Cons.IH [OF n(2) this] show ?thesis using Cons.prems(3) Cons nk by simp
  qed
qed simp

text \<open>C40. A request cannot circle through the cluster: however it is forwarded, it passes at most one node more
  than the largest hop limit of the nodes on its way, whatever the client wrote into the header.\<close>

theorem forwarding_ends:
  assumes "header_laws H" and "travels H path h" and "list_all (\<lambda>(limit, _). limit \<le> bound) path"
  shows "length path \<le> bound + 1"
proof (cases path)
  case (Cons node rest)
  obtain limit rid where node: "node = (limit, rid)" by fastforce
  then obtain n where n: "current_hops H limit h = Ok n" "travels H rest (build_forward_headers H h n rid)"
    using assms(2) Cons by (auto split: sum.splits)
  have "ho_get_all H (build_forward_headers H h n rid) ''x-llama-mesh-hops'' = [show_base 10 (n + 1)]"
    by (simp add: header_laws.get_forward [OF assms(1)])
  from travels_from [OF assms(1) n(2) this, of bound] show ?thesis
    using assms(3) Cons by (cases "rest = []") auto
qed simp

theorem forwarding_ends_witness:
  "length [(1, ''r''), (1, ''r'')] \<le> (1 :: nat) + 1 \<and> travels wire_headers [(1, ''r''), (1, ''r'')] []
   \<and> \<not> travels wire_headers [(1, ''r''), (1, ''r''), (1, ''r'')] []"
proof -
  have "current_hops wire_headers 1 [] = Ok 0" by (simp add: current_hops_def ho_get_def wire_headers_def)
  moreover have "current_hops wire_headers 1 (build_forward_headers wire_headers [] 0 ''r'') = Ok 1"
    by (simp add: current_hops_def ho_get_def wire.get_forward header_to_str_show parse_usize_show)
  ultimately have t: "travels wire_headers [(1, ''r''), (1, ''r'')] []" by simp
  have "\<not> travels wire_headers [(1, ''r''), (1, ''r''), (1, ''r'')] []"
    using forwarding_ends [OF wire.header_laws_axioms, of "[(1, ''r''), (1, ''r''), (1, ''r'')]" "[]" 1] by auto
  then show ?thesis using t by simp
qed

end
