(* ===== verification/Wait_Queue.thy ===== *)
theory Wait_Queue
  imports Resources
begin

text \<open>
  The request queues of \<^verbatim>\<open>src/node_state/mod.rs\<close>: one first-in first-out queue per
  \<^verbatim>\<open>model:profile\<close> key, the tokens of waiters that were woken but have not acquired a slot
  (pending tokens, with the gauge in the metrics), the permit that owns such a token, and the
  wake-up operations. A waiter whose receiver was dropped is in the set \<open>closed\<close>. Every operation
  runs as one step; the order of steps is arbitrary.
\<close>

section \<open>State\<close>

record queue_state =
  queues :: "(string, u64 list) hashmap"
  pending_tokens :: "(string, u64 set) hashmap"
  pending_gauge :: nat
  pending_token_counter :: u64
  q_draining :: bool
  closed :: "u64 set"
  delivered :: "(string \<times> u64) list"

definition empty_queues :: queue_state where
  "empty_queues = \<lparr>queues = [], pending_tokens = [], pending_gauge = 0, pending_token_counter = 0,
     q_draining = False, closed = {}, delivered = []\<rparr>"

text \<open>A queue as an entry of the map, empty if there is none; empty queues are not stored.\<close>

definition queue_of :: "string \<Rightarrow> queue_state \<Rightarrow> u64 list" where
  "queue_of key s = (case hm_get (queues s) key of Some q \<Rightarrow> q | None \<Rightarrow> [])"

definition store_queue :: "string \<Rightarrow> u64 list \<Rightarrow> queue_state \<Rightarrow> queue_state" where
  "store_queue key q s =
     s\<lparr>queues := (if q = [] then hm_remove key (queues s) else hm_insert key q (queues s))\<rparr>"

section \<open>Entries and tokens\<close>

definition remove_queue_entry_from :: "string \<Rightarrow> u64 \<Rightarrow> queue_state \<Rightarrow> bool \<times> queue_state" where
  "remove_queue_entry_from key token s = (case hm_get (queues s) key of
     Some q \<Rightarrow>
       (let q' = filter (\<lambda>t. t \<noteq> token) q in (length q' \<noteq> length q, store_queue key q' s))
   | None \<Rightarrow> (False, s))"

text \<open>\<^verbatim>\<open>Drop for QueueEntryGuard\<close>: an armed guard spawns the removal, if there is a runtime.\<close>

definition drop_entry_guard :: "bool \<Rightarrow> bool \<Rightarrow> string \<Rightarrow> u64 \<Rightarrow> queue_state \<Rightarrow> queue_state" where
  "drop_entry_guard guard_armed runtime key token s =
     (if guard_armed \<and> runtime then snd (remove_queue_entry_from key token s) else s)"

text \<open>The gauge saturates at zero, as \<^verbatim>\<open>dec_pending_tokens\<close> does.\<close>

definition remove_pending_token_from :: "string \<Rightarrow> u64 \<Rightarrow> queue_state \<Rightarrow> queue_state" where
  "remove_pending_token_from key token s = (case hm_get (pending_tokens s) key of
     Some ts \<Rightarrow>
       (let s1 = (if token \<in> ts then s\<lparr>pending_gauge := pending_gauge s - 1\<rparr> else s);
            ts' = ts - {token}
        in s1\<lparr>pending_tokens :=
             (if ts' = {} then hm_remove key (pending_tokens s) else hm_insert key ts' (pending_tokens s))\<rparr>)
   | None \<Rightarrow> s)"

definition promote_pending_token :: "string \<Rightarrow> u64 \<Rightarrow> queue_state \<Rightarrow> queue_state" where
  "promote_pending_token key token s =
     (let ts = (case hm_get (pending_tokens s) key of Some ts \<Rightarrow> ts | None \<Rightarrow> {});
          s1 = s\<lparr>pending_tokens := hm_insert key (insert token ts) (pending_tokens s)\<rparr>
      in if token \<notin> ts then s1\<lparr>pending_gauge := pending_gauge s + 1\<rparr> else s1)"

record permit =
  pm_key :: string
  pm_token :: u64
  pm_released :: bool

definition release_permit :: "permit \<Rightarrow> queue_state \<Rightarrow> permit \<times> queue_state" where
  "release_permit pm s = (if pm_released pm then (pm, s)
     else (pm\<lparr>pm_released := True\<rparr>, remove_pending_token_from (pm_key pm) (pm_token pm) s))"

interpretation queue_permit: once_guard pm_released release_permit
  by unfold_locales (simp_all add: release_permit_def)

section \<open>Waking waiters\<close>

lemma queues_token_ops [simp]:
  "queues (promote_pending_token key token s) = queues s"
  "queues (remove_pending_token_from key token s) = queues s"
  "closed (promote_pending_token key token s) = closed s"
  "closed (remove_pending_token_from key token s) = closed s"
  "delivered (promote_pending_token key token s) = delivered s"
  "delivered (remove_pending_token_from key token s) = delivered s"
  "q_draining (promote_pending_token key token s) = q_draining s"
  "q_draining (remove_pending_token_from key token s) = q_draining s"
  "pending_token_counter (promote_pending_token key token s) = pending_token_counter s"
  "pending_token_counter (remove_pending_token_from key token s) = pending_token_counter s"
  by (auto simp: promote_pending_token_def remove_pending_token_from_def Let_def split: option.splits)

lemma queue_of_token_ops [simp]:
  "queue_of k (promote_pending_token key token s) = queue_of k s"
  "queue_of k (remove_pending_token_from key token s) = queue_of k s"
  by (simp_all add: queue_of_def)

lemma queue_of_store [simp]: "queue_of k (store_queue key q s) = (if k = key then q else queue_of k s)"
  by (simp add: queue_of_def store_queue_def hm_simps)

lemma store_queue_simps [simp]:
  "pending_tokens (store_queue key q s) = pending_tokens s"
  "pending_gauge (store_queue key q s) = pending_gauge s"
  "closed (store_queue key q s) = closed s"
  "delivered (store_queue key q s) = delivered s"
  "q_draining (store_queue key q s) = q_draining s"
  "pending_token_counter (store_queue key q s) = pending_token_counter s"
  by (simp_all add: store_queue_def)

text \<open>
  The loop of \<^verbatim>\<open>notify_queue_by_key\<close>: pop, promote, and try to send; a dropped receiver returns the
  permit, which is released, and the next waiter is tried.
\<close>

function notify_queue_by_key :: "string \<Rightarrow> queue_state \<Rightarrow> bool \<times> queue_state" where
  "notify_queue_by_key key s = (case hm_get (queues s) key of
     None \<Rightarrow> (False, s)
   | Some [] \<Rightarrow> (False, store_queue key [] s)
   | Some (token # rest) \<Rightarrow>
       (let s1 = promote_pending_token key token (store_queue key rest s) in
        if token \<notin> closed s then (True, s1\<lparr>delivered := (key, token) # delivered s1\<rparr>)
        else notify_queue_by_key key (remove_pending_token_from key token s1)))"
  by pat_completeness auto

termination
  by (relation "measure (\<lambda>(key, s). length (queue_of key s))")
    (auto simp: Let_def queue_of_def store_queue_def hm_simps split: if_splits)

declare notify_queue_by_key.simps [simp del]

definition notify_queue :: "string \<Rightarrow> string \<Rightarrow> queue_state \<Rightarrow> bool \<times> queue_state" where
  "notify_queue model_name profile_id s = notify_queue_by_key (model_name @ '':'' @ profile_id) s"

lemma notify_empty: "queue_of key s = [] \<Longrightarrow> notify_queue_by_key key s = (False, store_queue key [] s)"
  by (subst notify_queue_by_key.simps)
    (auto simp: queue_of_def store_queue_def hm_remove_absent split: option.splits)

lemma notify_Cons:
  "queue_of key s = token # rest \<Longrightarrow> notify_queue_by_key key s =
     (let s1 = promote_pending_token key token (store_queue key rest s) in
      if token \<notin> closed s then (True, s1\<lparr>delivered := (key, token) # delivered s1\<rparr>)
      else notify_queue_by_key key (remove_pending_token_from key token s1))"
  by (subst notify_queue_by_key.simps) (auto simp: queue_of_def Let_def split: option.splits)

text \<open>The first waiter that still listens is served; the ones before it are dropped.\<close>

abbreviation listening :: "string \<Rightarrow> queue_state \<Rightarrow> u64 list" where
  "listening key s \<equiv> dropWhile (\<lambda>t. t \<in> closed s) (queue_of key s)"

lemma notify_result:
  "fst (notify_queue_by_key key s) = (listening key s \<noteq> [])
   \<and> queue_of k (snd (notify_queue_by_key key s)) = (if k = key then tl (listening key s) else queue_of k s)
   \<and> closed (snd (notify_queue_by_key key s)) = closed s
   \<and> q_draining (snd (notify_queue_by_key key s)) = q_draining s
   \<and> pending_token_counter (snd (notify_queue_by_key key s)) = pending_token_counter s
   \<and> delivered (snd (notify_queue_by_key key s)) =
       (if listening key s = [] then delivered s else (key, hd (listening key s)) # delivered s)"
proof (induction "queue_of key s" arbitrary: s)
  case Nil
  then have "queue_of key s = []" by simp
  then show ?case by (simp add: notify_empty)
next
  case (Cons token rest)
  then have q: "queue_of key s = token # rest" by simp
  let ?s1 = "promote_pending_token key token (store_queue key rest s)"
  let ?s2 = "remove_pending_token_from key token ?s1"
  have q2: "queue_of key ?s2 = rest" by simp
  show ?case
  proof (cases "token \<in> closed s")
    case True
    then have "notify_queue_by_key key s = notify_queue_by_key key ?s2"
      by (simp add: notify_Cons [OF q] Let_def)
    moreover note Cons.hyps(1) [of ?s2, OF q2 [symmetric]]
    ultimately show ?thesis using True q by simp
  next
    case False
    then have "notify_queue_by_key key s = (True, ?s1\<lparr>delivered := (key, token) # delivered ?s1\<rparr>)"
      by (simp add: notify_Cons [OF q] Let_def)
    moreover have "queue_of k (x\<lparr>delivered := d\<rparr>) = queue_of k x" for k x d by (simp add: queue_of_def)
    ultimately show ?thesis using False q by simp
  qed
qed

section \<open>Waking everyone\<close>

lemma notify_shrinks:
  "fst (notify_queue_by_key key s) \<Longrightarrow>
   length (queue_of key (snd (notify_queue_by_key key s))) < length (queue_of key s)"
proof -
  assume "fst (notify_queue_by_key key s)"
  then have "listening key s \<noteq> []" by (simp add: notify_result)
  moreover have "length (listening key s) \<le> length (queue_of key s)" by (rule length_dropWhile_le)
  ultimately have "length (tl (listening key s)) < length (queue_of key s)"
    by (cases "listening key s") auto
  then show ?thesis by (simp add: notify_result)
qed

text \<open>
  \<^verbatim>\<open>while notify_queue_by_key(key) { if !draining { break } }\<close>
\<close>

function wake_key :: "string \<Rightarrow> queue_state \<Rightarrow> queue_state" where
  "wake_key key s = (let (woken, s') = notify_queue_by_key key s in
     if woken \<and> q_draining s' then wake_key key s' else s')"
  by pat_completeness auto

termination
proof (relation "measure (\<lambda>(key, s). length (queue_of key s))")
  show "((key, s'), key, s) \<in> measure (\<lambda>(key, s). length (queue_of key s))"
    if "x = notify_queue_by_key key s" "(woken, s') = x" "woken \<and> q_draining s'" for key s x woken s'
  proof -
    have "notify_queue_by_key key s = (woken, s')" using that(1,2) by simp
    then show ?thesis using that(3) notify_shrinks [of key s] by simp
  qed
qed simp

declare wake_key.simps [simp del]

definition notify_all_queues :: "queue_state \<Rightarrow> queue_state" where
  "notify_all_queues s = fold wake_key (hm_keys (queues s)) s"

definition begin_shutdown_drain :: "queue_state \<Rightarrow> queue_state" where
  "begin_shutdown_drain s = notify_all_queues (s\<lparr>q_draining := True\<rparr>)"

section \<open>Joining a queue\<close>

definition total_queue_length :: "queue_state \<Rightarrow> nat" where
  "total_queue_length s = sum_list (map length (hm_values (queues s)))"

definition remove_closed_queue_entries :: "u64 set \<Rightarrow> u64 list \<Rightarrow> u64 list" where
  "remove_closed_queue_entries cl q = filter (\<lambda>t. t \<notin> cl) q"

text \<open>
  The enqueue block of \<^verbatim>\<open>get_instance_for_model\<close>, which runs under the lock of the queues. The
  entry of the key exists from \<^verbatim>\<open>or_insert_with\<close> on, also when the request is then rejected.
\<close>

definition enqueue ::
  "node_config \<Rightarrow> profile \<Rightarrow> string \<Rightarrow> queue_state \<Rightarrow> (u64, node_error) result \<times> queue_state" where
  "enqueue cfg p key s =
     (if q_draining s then (Err Draining, s)
      else if 0 < max_total_queue_entries cfg \<and> max_total_queue_entries cfg \<le> total_queue_length s
      then (Err QueueFull, s)
      else
        (let q = remove_closed_queue_entries (closed s) (queue_of key s);
             s1 = s\<lparr>queues := hm_insert key q (queues s)\<rparr>;
             max_queue = effective_max_queue_size p (model_defaults cfg)
         in if 0 < max_queue \<and> max_queue \<le> length q then (Err QueueFull, s1)
            else
              (let token = pending_token_counter s in
               (Ok token, s1\<lparr>queues := hm_insert key (q @ [token]) (queues s1),
                             pending_token_counter := token + 1\<rparr>))))"

definition has_pending_waiters :: "string \<Rightarrow> string \<Rightarrow> queue_state \<Rightarrow> bool" where
  "has_pending_waiters model_name profile_id s =
     (let key = model_name @ '':'' @ profile_id in
      (case hm_get (queues s) key of Some q \<Rightarrow> q \<noteq> [] | None \<Rightarrow> False)
      \<or> (case hm_get (pending_tokens s) key of Some ts \<Rightarrow> ts \<noteq> {} | None \<Rightarrow> False))"

definition pending_token_count :: "string \<Rightarrow> queue_state \<Rightarrow> nat" where
  "pending_token_count key s = (case hm_get (pending_tokens s) key of Some ts \<Rightarrow> card ts | None \<Rightarrow> 0)"

definition effective_queue_timeout :: "profile \<Rightarrow> model_defaults \<Rightarrow> u64 option" where
  "effective_queue_timeout p d =
     (let ms = (case p_max_wait_in_queue_ms p of Some v \<Rightarrow> v | None \<Rightarrow> md_max_wait_in_queue_ms d) in
      if ms = 0 then None else Some ms)"

definition is_idle :: "nat \<Rightarrow> queue_state \<Rightarrow> bool" where
  "is_idle current_requests s = (current_requests = 0 \<and> list_all (\<lambda>q. q = []) (hm_values (queues s)))"

text \<open>\<open>alive\<close> is the outcome of polling each instance's process.\<close>

definition available_ready_slots_for_model ::
  "node_config \<Rightarrow> (llama_instance \<Rightarrow> bool) \<Rightarrow> instances \<Rightarrow> string \<Rightarrow> string \<Rightarrow> nat" where
  "available_ready_slots_for_model cfg alive insts model_name profile_id =
     (let max_concurrent = max_concurrent_requests_per_instance (model_defaults cfg) in
      fold (\<lambda>i available.
        if i_model_name i \<noteq> model_name \<or> i_profile_id i \<noteq> profile_id then available
        else if \<not> alive i \<or> draining i then available
        else if i_status i \<noteq> Ready then available
        else if max_concurrent = 0 then available + 1
        else if in_flight_requests i < max_concurrent
        then available + (max_concurrent - in_flight_requests i)
        else available) (hm_values insts) 0)"

fun wake_up_to :: "nat \<Rightarrow> string \<Rightarrow> queue_state \<Rightarrow> nat \<times> queue_state" where
  "wake_up_to 0 key s = (0, s)"
| "wake_up_to (Suc n) key s = (let (ok, s') = notify_queue_by_key key s in
     if ok then (let (woken, t) = wake_up_to n key s' in (Suc woken, t)) else (0, s'))"

definition notify_waiters_for_available_slots ::
  "node_config \<Rightarrow> (llama_instance \<Rightarrow> bool) \<Rightarrow> instances \<Rightarrow> string \<Rightarrow> string \<Rightarrow> queue_state \<Rightarrow>
   nat \<times> queue_state" where
  "notify_waiters_for_available_slots cfg alive insts model_name profile_id s =
     (let key = model_name @ '':'' @ profile_id;
          available = available_ready_slots_for_model cfg alive insts model_name profile_id
      in if available = 0 then (0, s)
         else (let wake_budget = available - pending_token_count key s in
               if wake_budget = 0 then (0, s) else wake_up_to wake_budget key s))"

section \<open>Waking is first-in first-out and stops only at an empty queue\<close>

text \<open>C12. A wake-up serves the longest-waiting request that is still listening: abandoned waiters in
  front of it are skipped and dropped, it is woken if and only if some waiter of the key listens, the
  others keep their order, and other queues are untouched.\<close>

theorem notify_serves_first_listener:
  "let waiting = dropWhile (\<lambda>t. t \<in> closed s) (queue_of key s); r = notify_queue_by_key key s in
     fst r = (waiting \<noteq> [])
   \<and> queue_of key (snd r) = tl waiting
   \<and> (\<forall>k. k \<noteq> key \<longrightarrow> queue_of k (snd r) = queue_of k s)
   \<and> delivered (snd r) = (if waiting = [] then [] else [(key, hd waiting)]) @ delivered s"
  by (simp add: notify_result Let_def)

theorem notify_serves_first_listener_witness:
  "queue_of ''m:p'' (snd (notify_queue_by_key ''m:p''
     (empty_queues\<lparr>queues := [(''m:p'', [1, 2, 3])], closed := {1}\<rparr>))) = [3]"
  using notify_serves_first_listener [of "empty_queues\<lparr>queues := [(''m:p'', [1, 2, 3])], closed := {1}\<rparr>" "''m:p''"]
  by (simp add: queue_of_def Let_def)

lemma wake_key_result:
  "queue_of k (wake_key key s) =
     (if k = key then (if q_draining s then [] else tl (listening key s)) else queue_of k s)
   \<and> closed (wake_key key s) = closed s \<and> q_draining (wake_key key s) = q_draining s
   \<and> set (delivered (wake_key key s)) = set (delivered s) \<union>
       (if q_draining s then Pair key ` (set (queue_of key s) - closed s)
        else Pair key ` set (take 1 (listening key s)))"
proof (induction key s rule: wake_key.induct)
  case (1 key s)
  obtain woken s' where r: "notify_queue_by_key key s = (woken, s')" by fastforce
  have s': "woken = (listening key s \<noteq> [])" "\<And>k. queue_of k s' = (if k = key then tl (listening key s) else queue_of k s)"
    "closed s' = closed s" "q_draining s' = q_draining s"
    "delivered s' = (if listening key s = [] then delivered s else (key, hd (listening key s)) # delivered s)"
    using notify_result [of key s] r by simp_all
  have split: "set (queue_of key s) - closed s =
      (if listening key s = [] then {} else insert (hd (listening key s)) (set (tl (listening key s)) - closed s))"
  proof -
    have "set (queue_of key s) - closed s = set (listening key s) - closed s"
      by (metis (no_types, lifting) Un_Diff_cancel2 Diff_eq_empty_iff Un_Diff set_append
          set_takeWhileD subsetI sup_bot_left takeWhile_dropWhile_id)
    moreover have "listening key s \<noteq> [] \<Longrightarrow> hd (listening key s) \<notin> closed s"
      using hd_dropWhile by blast
    ultimately show ?thesis by (cases "listening key s") auto
  qed
  define L where "L = listening key s"
  note s' = s' [folded L_def] and split = split [folded L_def]
  show ?case
  proof (cases "woken \<and> q_draining s'")
    case True
    then have "wake_key key s = wake_key key s'" by (simp add: wake_key.simps [of key s] r)
    with 1 [OF r [symmetric] refl True] True s' split show ?thesis unfolding L_def [symmetric] by auto
  next
    case False
    then have "wake_key key s = s'" by (auto simp: wake_key.simps [of key s] r)
    with False s' split show ?thesis unfolding L_def [symmetric] by (cases L) (auto simp: take_Suc)
  qed
qed

lemma wake_keys_draining:
  assumes "q_draining s"
  shows "queue_of k (fold wake_key ks s) = (if k \<in> set ks then [] else queue_of k s)
    \<and> q_draining (fold wake_key ks s) \<and> closed (fold wake_key ks s) = closed s
    \<and> set (delivered (fold wake_key ks s)) = set (delivered s) \<union>
        {(j, t). j \<in> set ks \<and> t \<in> set (queue_of j s) \<and> t \<notin> closed s}"
  using assms
proof (induction ks arbitrary: s)
  case (Cons key ks)
  have step: "queue_of j (wake_key key s) = (if j = key then [] else queue_of j s)"
    "closed (wake_key key s) = closed s" "q_draining (wake_key key s)"
    "set (delivered (wake_key key s)) = set (delivered s) \<union> Pair key ` (set (queue_of key s) - closed s)" for j
    using wake_key_result [of j key s] Cons.prems by simp_all
  show ?case using Cons.IH [OF step(3)] step by (auto split: if_splits)
qed simp

lemma queue_keys: "queue_of k s \<noteq> [] \<Longrightarrow> k \<in> set (hm_keys (queues s))"
  by (auto simp: queue_of_def dest!: map_of_SomeD split: option.splits) (force simp: image_iff)+

lemma store_queue_ok: "hm_ok (queues s) \<Longrightarrow> hm_ok (queues (store_queue key q s))"
  by (simp add: store_queue_def hm_simps)

lemma notify_ok: "hm_ok (queues s) \<Longrightarrow> hm_ok (queues (snd (notify_queue_by_key key s)))"
proof (induction "queue_of key s" arbitrary: s)
  case Nil
  then have "queue_of key s = []" by simp
  then show ?case using Nil.prems by (simp add: notify_empty store_queue_ok)
next
  case (Cons token rest)
  then have q: "queue_of key s = token # rest" by simp
  show ?case
    using Cons.hyps(1) [of "remove_pending_token_from key token (promote_pending_token key token (store_queue key rest s))"]
      Cons.prems
    by (simp add: notify_Cons [OF q] Let_def store_queue_ok)
qed

lemma wake_key_ok: "hm_ok (queues s) \<Longrightarrow> hm_ok (queues (wake_key key s))"
proof (induction key s rule: wake_key.induct)
  case (1 key s)
  obtain woken s' where r: "notify_queue_by_key key s = (woken, s')" by fastforce
  have "hm_ok (queues s')" using notify_ok [OF 1(2), of key] r by simp
  then show ?case using 1(1) [OF r [symmetric] refl] by (simp add: wake_key.simps [of key s] r)
qed

lemma fold_wake_ok: "hm_ok (queues s) \<Longrightarrow> hm_ok (queues (fold wake_key ks s))"
  by (induction ks arbitrary: s) (simp_all add: wake_key_ok)

text \<open>C13. Beginning the shutdown drain leaves no request waiting: every queued request whose client
  still listens is woken, all queues are empty afterwards, so the node can become idle, and every later
  attempt to join a queue is refused as draining.\<close>

theorem shutdown_drain_wakes_everyone:
  assumes "hm_ok (queues s)"
  shows "let s' = begin_shutdown_drain s in
      (\<forall>k. queue_of k s' = [])
    \<and> (\<forall>k t. t \<in> set (queue_of k s) \<and> t \<notin> closed s \<longrightarrow> (k, t) \<in> set (delivered s'))
    \<and> is_idle 0 s'
    \<and> (\<forall>cfg p key. enqueue cfg p key s' = (Err Draining, s'))"
proof -
  let ?d = "s\<lparr>q_draining := True\<rparr>" and ?s' = "begin_shutdown_drain s"
  have same: "queue_of k ?d = queue_of k s" for k by (simp add: queue_of_def)
  note woken = wake_keys_draining [of ?d _ "hm_keys (queues ?d)", folded notify_all_queues_def
      begin_shutdown_drain_def]
  have keys: "k \<in> set (hm_keys (queues ?d))" if "queue_of k s \<noteq> []" for k
    using queue_keys [OF that] by simp
  have empty: "queue_of k ?s' = []" for k
    using woken [of k] keys [of k] same [of k] by (auto simp del: set_map split: if_splits)
  have listeners: "(k, t) \<in> set (delivered ?s')" if "t \<in> set (queue_of k s)" "t \<notin> closed s" for k t
  proof -
    have "k \<in> set (hm_keys (queues ?d))" using that(1) by (intro keys) auto
    then show ?thesis using woken [of k] that same [of k] by (simp del: set_map)
  qed
  have drain: "q_draining ?s'" using woken by simp
  have ok: "hm_ok (queues ?s')"
    using fold_wake_ok [of ?d] assms by (simp add: begin_shutdown_drain_def notify_all_queues_def)
  have "q = []" if "q \<in> set (hm_values (queues ?s'))" for q
  proof -
    from that obtain k where "(k, q) \<in> set (queues ?s')" by auto
    then have "hm_get (queues ?s') k = Some q" using ok by simp
    then show ?thesis using empty [of k] by (simp add: queue_of_def)
  qed
  then have "is_idle 0 ?s'" unfolding is_idle_def list_all_iff by blast
  then show ?thesis using empty listeners drain by (simp add: Let_def enqueue_def)
qed

theorem shutdown_drain_wakes_everyone_witness:
  "(''m:p'', 2) \<in> set (delivered (begin_shutdown_drain
     (empty_queues\<lparr>queues := [(''m:p'', [1, 2])], closed := {1}\<rparr>)))"
  using shutdown_drain_wakes_everyone [of "empty_queues\<lparr>queues := [(''m:p'', [1, 2])], closed := {1}\<rparr>"]
  by (simp add: queue_of_def Let_def)

section \<open>Limits of the queues\<close>

lemma total_insert:
  assumes "hm_ok (queues s)"
  shows "total_queue_length (s\<lparr>queues := hm_insert key q (queues s)\<rparr>) + length (queue_of key s)
    = total_queue_length s + length q"
proof -
  have total: "sum_list (map (length \<circ> snd) m) = sum_mset (image_mset (length \<circ> snd) (mset m))"
    for m :: "(string, u64 list) hashmap"
    by (simp flip: sum_mset_sum_list)
  show ?thesis
  proof (cases "hm_get (queues s) key")
    case None
    then show ?thesis
      using assms by (simp add: total_queue_length_def total mset_hm_insert hm_remove_absent queue_of_def)
  next
    case (Some r)
    then show ?thesis
      using assms mset_hm_remove [OF assms Some]
      by (simp add: total_queue_length_def total mset_hm_insert queue_of_def)
  qed
qed

lemma length_remove_closed: "length (remove_closed_queue_entries cl q) \<le> length q"
  by (simp add: remove_closed_queue_entries_def)



section \<open>Tokens are counted exactly\<close>

definition pending_set :: "queue_state \<Rightarrow> (string \<times> u64) set" where
  "pending_set s = {(k, t). \<exists>ts. hm_get (pending_tokens s) k = Some ts \<and> t \<in> ts}"

lemma pending_set_promote: "pending_set (promote_pending_token key token s) = insert (key, token) (pending_set s)"
  by (auto simp: pending_set_def promote_pending_token_def Let_def hm_simps split: option.splits if_splits)

lemma pending_set_remove: "pending_set (remove_pending_token_from key token s) = pending_set s - {(key, token)}"
  by (auto simp: pending_set_def remove_pending_token_from_def Let_def hm_simps split: option.splits if_splits)

lemma gauge_promote:
  "pending_gauge (promote_pending_token key token s) =
     pending_gauge s + (if (key, token) \<in> pending_set s then 0 else 1)"
  by (auto simp: pending_set_def promote_pending_token_def Let_def split: option.splits)

lemma gauge_remove:
  "pending_gauge (remove_pending_token_from key token s) =
     pending_gauge s - (if (key, token) \<in> pending_set s then 1 else 0)"
  by (auto simp: pending_set_def remove_pending_token_from_def Let_def split: option.splits)

text \<open>
  The invariant: the gauge is the number of pending tokens, no key has an empty queue or an empty
  token set, and a token is never both queued and pending.
\<close>

definition token_inv :: "queue_state \<Rightarrow> bool" where
  "token_inv s \<longleftrightarrow> finite (pending_set s) \<and> pending_gauge s = card (pending_set s)
     \<and> (\<forall>k. hm_get (pending_tokens s) k \<noteq> Some {})
     \<and> (\<forall>k. distinct (queue_of k s))
     \<and> (\<forall>k t. t \<in> set (queue_of k s) \<longrightarrow> (k, t) \<notin> pending_set s \<and> t < pending_token_counter s)
     \<and> (\<forall>(k, t) \<in> pending_set s. t < pending_token_counter s)"

definition queue_inv :: "queue_state \<Rightarrow> bool" where
  "queue_inv s \<longleftrightarrow> hm_ok (queues s) \<and> (\<forall>k. hm_get (queues s) k \<noteq> Some []) \<and> token_inv s"

lemma no_empty_token_sets:
  "(\<forall>k. hm_get (pending_tokens s) k \<noteq> Some {}) \<Longrightarrow>
     (\<forall>k. hm_get (pending_tokens (promote_pending_token key token s)) k \<noteq> Some {})"
  "(\<forall>k. hm_get (pending_tokens s) k \<noteq> Some {}) \<Longrightarrow>
     (\<forall>k. hm_get (pending_tokens (remove_pending_token_from key token s)) k \<noteq> Some {})"
  by (auto simp: promote_pending_token_def remove_pending_token_from_def Let_def hm_simps
      split: option.splits)

lemma token_inv_remove: "token_inv s \<Longrightarrow> token_inv (remove_pending_token_from key token s)"
  using no_empty_token_sets(2)
  by (auto simp: token_inv_def pending_set_remove gauge_remove card_Diff_singleton)

lemma token_inv_pop:
  assumes "token_inv s" "queue_of key s = token # rest"
  shows "token_inv (promote_pending_token key token (store_queue key rest s))"
proof -
  have same: "pending_set (store_queue key rest s) = pending_set s" by (simp add: pending_set_def)
  have fresh: "(key, token) \<notin> pending_set s" "token < pending_token_counter s"
    "distinct (token # rest)" "\<forall>t \<in> set rest. (key, t) \<notin> pending_set s \<and> t < pending_token_counter s"
  proof -
    have "distinct (queue_of key s)"
      "\<forall>t \<in> set (queue_of key s). (key, t) \<notin> pending_set s \<and> t < pending_token_counter s"
      using assms(1) by (auto simp: token_inv_def)
    then show "(key, token) \<notin> pending_set s" "token < pending_token_counter s"
      "distinct (token # rest)" "\<forall>t \<in> set rest. (key, t) \<notin> pending_set s \<and> t < pending_token_counter s"
      by (auto simp: assms(2))
  qed
  show ?thesis
    using assms(1) fresh no_empty_token_sets(1) [of "store_queue key rest s" key token]
    by (auto simp: token_inv_def pending_set_promote gauge_promote same)
qed

lemma token_inv_queue_shrink:
  assumes "token_inv s" "distinct q" "set q \<subseteq> set (queue_of key s)"
  shows "token_inv (store_queue key q s)"
proof -
  have "pending_set (store_queue key q s) = pending_set s" by (simp add: pending_set_def)
  then show ?thesis using assms by (auto simp: token_inv_def subset_iff)
qed

lemma token_inv_delivered [simp]: "token_inv (s\<lparr>delivered := d\<rparr>) = token_inv s"
  by (simp add: token_inv_def pending_set_def queue_of_def)

lemma queue_inv_store: "queue_inv s \<Longrightarrow> distinct q \<Longrightarrow> set q \<subseteq> set (queue_of key s) \<Longrightarrow> queue_inv (store_queue key q s)"
proof -
  assume inv: "queue_inv s" and q: "distinct q" "set q \<subseteq> set (queue_of key s)"
  have "hm_get (queues (store_queue key q s)) k \<noteq> Some []" for k
    using inv unfolding queue_inv_def store_queue_def by (simp add: hm_get_insert hm_get_remove)
  then show ?thesis
    using inv token_inv_queue_shrink [OF _ q] unfolding queue_inv_def by (blast intro: store_queue_ok)
qed

lemma queue_inv_notify: "queue_inv s \<Longrightarrow> queue_inv (snd (notify_queue_by_key key s))"
proof (induction "queue_of key s" arbitrary: s)
  case Nil
  then have "queue_of key s = []" by simp
  then show ?case using Nil.prems by (simp add: notify_empty queue_inv_store)
next
  case (Cons token rest)
  then have q: "queue_of key s = token # rest" by simp
  let ?s1 = "promote_pending_token key token (store_queue key rest s)"
  have d: "distinct (token # rest)" using Cons.prems q unfolding queue_inv_def token_inv_def by metis
  have st: "queue_inv (store_queue key rest s)" using d q by (intro queue_inv_store [OF Cons.prems]) auto
  have inv1: "queue_inv ?s1" using st token_inv_pop [OF _ q] Cons.prems by (simp add: queue_inv_def)
  then have inv2: "queue_inv (remove_pending_token_from key token ?s1)"
    by (simp add: queue_inv_def token_inv_remove)
  show ?case
    using inv1 Cons.hyps(1) [OF _ inv2] by (auto simp: notify_Cons [OF q] Let_def queue_inv_def)
qed

lemma queue_inv_wake: "queue_inv s \<Longrightarrow> queue_inv (wake_key key s)"
proof (induction key s rule: wake_key.induct)
  case (1 key s)
  obtain woken s' where r: "notify_queue_by_key key s = (woken, s')" by fastforce
  have "queue_inv s'" using queue_inv_notify [OF 1(2), of key] r by simp
  then show ?case using 1(1) [OF r [symmetric] refl] by (simp add: wake_key.simps [of key s] r)
qed

lemma queue_inv_wakes: "queue_inv s \<Longrightarrow> queue_inv (fold wake_key ks s)"
  by (induction ks arbitrary: s) (simp_all add: queue_inv_wake)

lemma queue_inv_flags [simp]:
  "queue_inv (s\<lparr>q_draining := b\<rparr>) = queue_inv s" "queue_inv (s\<lparr>closed := c\<rparr>) = queue_inv s"
  by (simp_all add: queue_inv_def token_inv_def pending_set_def queue_of_def)

lemma queue_inv_remove_entry: "queue_inv s \<Longrightarrow> queue_inv (snd (remove_queue_entry_from key token s))"
proof -
  assume inv: "queue_inv s"
  have "distinct (queue_of key s)" using inv by (simp add: queue_inv_def token_inv_def)
  then show ?thesis
    using inv queue_inv_store [OF inv, of "filter (\<lambda>t. t \<noteq> token) (queue_of key s)" key]
    by (auto simp: remove_queue_entry_from_def queue_of_def Let_def split: option.splits)
qed

text \<open>The token counter must not wrap: the node would have to queue two to the 64 requests.\<close>

lemma queue_inv_enqueue:
  assumes inv: "queue_inv s" and wrap: "pending_token_counter s < - 1"
  shows "queue_inv (snd (enqueue cfg p key s))"
proof -
  let ?q = "filter (\<lambda>t. t \<notin> closed s) (queue_of key s)" and ?t = "pending_token_counter s"
  have ok: "hm_ok (queues s)" and ne: "\<And>k. hm_get (queues s) k \<noteq> Some []" and tok: "token_inv s"
    using inv by (auto simp: queue_inv_def)
  have facts: "distinct (queue_of k s)"
    "t \<in> set (queue_of k s) \<Longrightarrow> (k, t) \<notin> pending_set s \<and> t < ?t" for k t
    using tok by (auto simp: token_inv_def)
  have full: "queue_inv (s\<lparr>queues := hm_insert key ?q (queues s)\<rparr>)" if "0 < n" "n \<le> length ?q" for n
  proof -
    have "?q \<noteq> []" using that by (metis length_0_conv not_le)
    then show ?thesis using queue_inv_store [OF inv, of ?q key] facts(1) by (simp add: store_queue_def)
  qed
  have less: "x < ?t \<Longrightarrow> x < ?t + 1" "?t < ?t + 1" for x
    using unat_add_one_less [OF wrap] by (simp_all add: word_less_nat_alt)
  let ?s = "s\<lparr>queues := hm_insert key (?q @ [?t]) (queues s), pending_token_counter := ?t + 1\<rparr>"
  have qs: "queue_of k ?s = (if k = key then ?q @ [?t] else queue_of k s)" for k
    by (simp add: queue_of_def hm_simps)
  have ps: "pending_set ?s = pending_set s" by (simp add: pending_set_def)
  have "token_inv ?s"
    using tok facts less unfolding token_inv_def ps qs by (auto dest: less_imp_neq)
  moreover have "hm_get (queues ?s) k \<noteq> Some []" for k using ne by (simp add: hm_get_insert)
  ultimately have adm: "queue_inv ?s" using ok by (simp add: queue_inv_def hm_ok_insert)
  have twice: "hm_insert key x (hm_insert key y m) = hm_insert key x m"
    for x y and m :: "(string, u64 list) hashmap"
    by (induction m) auto
  show ?thesis
    using inv full adm
    by (auto simp: enqueue_def Let_def twice remove_closed_queue_entries_def)
qed

text \<open>The life of the queues: requests join, leave, disconnect, are woken, and give their permits back.\<close>

inductive queue_step :: "queue_state \<Rightarrow> queue_state \<Rightarrow> bool" where
  q_enqueue: "pending_token_counter s < - 1 \<Longrightarrow> queue_step s (snd (enqueue cfg p key s))"
| q_receiver_dropped: "queue_step s (s\<lparr>closed := insert t (closed s)\<rparr>)"
| q_remove_entry: "queue_step s (snd (remove_queue_entry_from key t s))"
| q_drop_guard: "queue_step s (drop_entry_guard a r key t s)"
| q_release_permit: "queue_step s (snd (release_permit pm s))"
| q_remove_pending: "queue_step s (remove_pending_token_from key t s)"
| q_notify: "queue_step s (snd (notify_queue_by_key key s))"
| q_notify_all: "queue_step s (notify_all_queues s)"
| q_shutdown: "queue_step s (begin_shutdown_drain s)"

lemma queue_inv_remove_token: "queue_inv s \<Longrightarrow> queue_inv (remove_pending_token_from key token s)"
  by (metis queue_inv_def queues_token_ops(2) token_inv_remove)

lemma queue_inv_step: "queue_step s s' \<Longrightarrow> queue_inv s \<Longrightarrow> queue_inv s'"
proof (induction rule: queue_step.induct)
  case (q_remove_pending s key t)
  then show ?case by (rule queue_inv_remove_token)
next
  case (q_release_permit s pm)
  then show ?case by (simp add: release_permit_def queue_inv_remove_token)
next
  case (q_notify_all s)
  then show ?case by (simp add: notify_all_queues_def queue_inv_wakes)
next
  case (q_shutdown s)
  then show ?case by (simp add: begin_shutdown_drain_def notify_all_queues_def queue_inv_wakes)
qed (simp_all add: queue_inv_enqueue queue_inv_remove_entry drop_entry_guard_def queue_inv_notify)

lemma queue_inv_empty: "queue_inv empty_queues"
  by (simp add: empty_queues_def queue_inv_def token_inv_def pending_set_def queue_of_def)



section \<open>The wake budget\<close>

lemma pending_token_count_card: "pending_token_count key s = card {t. (key, t) \<in> pending_set s}"
  by (auto simp: pending_token_count_def pending_set_def split: option.splits)

lemma notify_pending:
  "queue_inv s \<Longrightarrow> pending_set (snd (notify_queue_by_key key s)) =
     (if listening key s = [] then pending_set s else insert (key, hd (listening key s)) (pending_set s))"
proof (induction "queue_of key s" arbitrary: s)
  case Nil
  then have "queue_of key s = []" by simp
  then show ?case by (simp add: notify_empty pending_set_def)
next
  case (Cons token rest)
  then have q: "queue_of key s = token # rest" by simp
  let ?s1 = "promote_pending_token key token (store_queue key rest s)"
  let ?s2 = "remove_pending_token_from key token ?s1"
  have tok: "token_inv s" using Cons.prems by (simp add: queue_inv_def)
  have fresh: "(key, token) \<notin> pending_set s" "distinct (token # rest)"
    using tok q unfolding token_inv_def by (metis list.set_intros(1))+
  have "pending_set (store_queue key rest s) = pending_set s" by (simp add: pending_set_def)
  then have p1: "pending_set ?s1 = insert (key, token) (pending_set s)"
    and p2: "pending_set ?s2 = pending_set s"
    using fresh by (simp_all add: pending_set_promote pending_set_remove)
  have "queue_inv (store_queue key rest s)" using fresh q by (intro queue_inv_store [OF Cons.prems]) auto
  then have "queue_inv ?s1"
    using token_inv_pop [OF tok q] unfolding queue_inv_def by (metis queues_token_ops(1))
  then have inv2: "queue_inv ?s2" by (rule queue_inv_remove_token)
  show ?case
  proof (cases "token \<in> closed s")
    case True
    then show ?thesis
      using Cons.hyps(1) [OF _ inv2] q p2 by (simp add: notify_Cons [OF q] Let_def)
  next
    case False
    moreover have "pending_set (?s1\<lparr>delivered := d\<rparr>) = pending_set ?s1" for d by (simp add: pending_set_def)
    ultimately show ?thesis using q p1 by (simp add: notify_Cons [OF q] Let_def)
  qed
qed

lemma notify_count:
  assumes "queue_inv s"
  shows "pending_token_count key (snd (notify_queue_by_key key s)) =
    pending_token_count key s + (if fst (notify_queue_by_key key s) then 1 else 0)"
proof (cases "listening key s = []")
  case True
  then have "\<not> fst (notify_queue_by_key key s)" using notify_result [of key s] by metis
  then show ?thesis using notify_pending [OF assms, of key] True by (simp add: pending_token_count_card)
next
  case False
  then have woken: "fst (notify_queue_by_key key s)" using notify_result [of key s] by metis
  have "hd (listening key s) \<in> set (queue_of key s)" using False by (meson hd_in_set set_dropWhileD)
  then have fresh: "(key, hd (listening key s)) \<notin> pending_set s" and fin: "finite (pending_set s)"
    using assms by (auto simp: queue_inv_def token_inv_def)
  have "{t. (key, t) \<in> pending_set s} = snd ` (pending_set s \<inter> {key} \<times> UNIV)" by (force simp: image_iff)
  then have "finite {t. (key, t) \<in> pending_set s}" using fin by simp
  moreover have "{t. (key, t) \<in> insert (key, x) (pending_set s)} = insert x {t. (key, t) \<in> pending_set s}" for x
    by auto
  ultimately show ?thesis
    using notify_pending [OF assms, of key] False fresh woken by (simp add: pending_token_count_card)
qed

lemma wake_up_to_count:
  "queue_inv s \<Longrightarrow> fst (wake_up_to n key s) \<le> n
   \<and> pending_token_count key (snd (wake_up_to n key s)) = pending_token_count key s + fst (wake_up_to n key s)
   \<and> (fst (wake_up_to n key s) < n \<longrightarrow> queue_of key (snd (wake_up_to n key s)) = [])"
proof (induction n arbitrary: s)
  case (Suc n)
  obtain ok s' where r: "notify_queue_by_key key s = (ok, s')" by fastforce
  have inv': "queue_inv s'" using queue_inv_notify [OF Suc.prems, of key] r by simp
  have cnt: "pending_token_count key s' = pending_token_count key s + (if ok then 1 else 0)"
    using notify_count [OF Suc.prems, of key] r by simp
  have "\<not> ok \<Longrightarrow> queue_of key s' = []" using notify_result [of key s key] r by (metis fst_conv snd_conv list.sel(2))
  then show ?case using Suc.IH [OF inv'] cnt by (auto simp: r split: prod.splits)
qed simp

text \<open>Waking for free slots never over-commits and never under-serves: the waiters woken raise the
  number of pending tokens of the key to at most the number of available slots (unless it was already
  higher), and if fewer are woken than slots are free, the queue of the key has been emptied.\<close>

theorem wake_budget_respected:
  assumes "queue_inv s"
    and "notify_waiters_for_available_slots cfg alive insts m pid s = (woken, s')"
  shows "pending_token_count (m @ '':'' @ pid) s' = pending_token_count (m @ '':'' @ pid) s + woken
    \<and> pending_token_count (m @ '':'' @ pid) s'
        \<le> max (pending_token_count (m @ '':'' @ pid) s) (available_ready_slots_for_model cfg alive insts m pid)
    \<and> (pending_token_count (m @ '':'' @ pid) s' < available_ready_slots_for_model cfg alive insts m pid
        \<longrightarrow> queue_of (m @ '':'' @ pid) s' = [])"
proof -
  let ?key = "m @ '':'' @ pid" and ?a = "available_ready_slots_for_model cfg alive insts m pid"
  let ?n = "?a - pending_token_count ?key s"
  have wake: "(woken, s') = (if ?a = 0 \<or> ?n = 0 then (0, s) else wake_up_to ?n ?key s)"
    using assms(2) by (auto simp: notify_waiters_for_available_slots_def Let_def split: if_splits)
  show ?thesis
  proof (cases "?a = 0 \<or> ?n = 0")
    case True
    then show ?thesis using wake by auto
  next
    case False
    then have "woken = fst (wake_up_to ?n ?key s)" "s' = snd (wake_up_to ?n ?key s)"
      using wake by (metis fst_conv snd_conv)+
    then show ?thesis using wake_up_to_count [OF assms(1), of ?n ?key] False by auto
  qed
qed

theorem wake_budget_respected_witness:
  "fst (notify_waiters_for_available_slots demo_config (\<lambda>_. True)
     [(''a'', blank_instance\<lparr>i_status := Ready\<rparr>)] ''gpt'' ''default'' empty_queues) = 0
   \<and> queue_of ''gpt:default'' (snd (notify_waiters_for_available_slots demo_config (\<lambda>_. True)
     [(''a'', blank_instance\<lparr>i_status := Ready\<rparr>)] ''gpt'' ''default'' empty_queues)) = []"
proof -
  let ?r = "notify_waiters_for_available_slots demo_config (\<lambda>_. True)
     [(''a'', blank_instance\<lparr>i_status := Ready\<rparr>)] ''gpt'' ''default'' empty_queues"
  have zero: "fst ?r = 0"
    by (simp add: notify_waiters_for_available_slots_def available_ready_slots_for_model_def Let_def
        demo_config_def blank_instance_def pending_token_count_def empty_queues_def
        notify_queue_by_key.simps)
  have a: "available_ready_slots_for_model demo_config (\<lambda>_. True)
      [(''a'', blank_instance\<lparr>i_status := Ready\<rparr>)] ''gpt'' ''default'' = 1"
    by (simp add: available_ready_slots_for_model_def Let_def demo_config_def blank_instance_def)
  have "?r = (0, snd ?r)" using zero by (metis prod.collapse)
  from wake_budget_respected [OF queue_inv_empty this] show ?thesis
    using zero unfolding a by (simp add: pending_token_count_def empty_queues_def)
qed

end
