(* ===== verification/Eviction.thy ===== *)
theory Eviction
  imports Wait_Queue Model_Index
begin

text \<open>
  Draining and eviction in \<^verbatim>\<open>src/node_state/mod.rs\<close>: reconciliation with a reloaded cookbook, the
  drain for a binary update, scheduler drains and their cancellation, the idle sweep, the two
  stages of cold-start recovery, and the release of a request slot. An operation that looks at the
  instances under the read lock and acts under the write lock takes both maps: what happens
  between them is arbitrary.
\<close>

section \<open>Marking instances as draining\<close>

definition force_drain :: "llama_instance \<Rightarrow> llama_instance" where
  "force_drain i = i\<lparr>draining := True, draining_for_competitor := False\<rparr>"

definition forced :: "llama_instance \<Rightarrow> bool" where
  "forced i = (draining i \<and> \<not> draining_for_competitor i)"

definition instance_key :: "llama_instance \<Rightarrow> string" where
  "instance_key i = i_model_name i @ '':'' @ i_profile_id i"

text \<open>Whether the cookbook still has this instance's profile with these arguments.\<close>

definition matches_cookbook ::
  "(string \<Rightarrow> string) \<Rightarrow> (string \<Rightarrow> (string \<times> profile) option) \<Rightarrow> llama_instance \<Rightarrow> bool" where
  "matches_cookbook sha256 look i = (case look (instance_key i) of
     None \<Rightarrow> False | Some (_, p) \<Rightarrow> args_hash_for_profile sha256 p = i_args_hash i)"

definition reconcile_one ::
  "(string \<Rightarrow> string) \<Rightarrow> (string \<Rightarrow> (string \<times> profile) option) \<Rightarrow> llama_instance \<Rightarrow> bool \<times> llama_instance" where
  "reconcile_one sha256 look i =
     (if forced i then (False, i)
      else if \<not> matches_cookbook sha256 look i then (True, force_drain i) else (False, i))"

definition reconcile_instances_with_cookbook ::
  "(string \<Rightarrow> string) \<Rightarrow> (string \<Rightarrow> (string \<times> profile) option) \<Rightarrow> instances \<Rightarrow> nat \<times> instances" where
  "reconcile_instances_with_cookbook sha256 look insts =
     (length (filter (\<lambda>(_, i). fst (reconcile_one sha256 look i)) insts),
      map (\<lambda>(rid, i). (rid, snd (reconcile_one sha256 look i))) insts)"

text \<open>The count decides whether the queues are woken afterwards.\<close>

definition drain_instances_for_binary_update :: "instances \<Rightarrow> queue_state \<Rightarrow> nat \<times> instances \<times> queue_state" where
  "drain_instances_for_binary_update insts qs =
     (let n = length (filter (\<lambda>(_, i). \<not> draining i) insts) in
      (n, map (\<lambda>(rid, i). (rid, force_drain i)) insts, if 0 < n then notify_all_queues qs else qs))"

section \<open>Scheduler drains\<close>

definition has_queued_competitors_needing_eviction :: "string list \<Rightarrow> queue_state \<Rightarrow> string \<Rightarrow> bool" where
  "has_queued_competitors_needing_eviction needs_eviction qs inst_model =
     list_ex (\<lambda>key. hd (split_on CHR '':'' key) \<noteq> inst_model
       \<and> (case hm_get (queues qs) key of Some q \<Rightarrow> q \<noteq> [] | None \<Rightarrow> False)) needs_eviction"

text \<open>
  One candidate of \<^verbatim>\<open>maybe_cancel_drains\<close>, rechecked under the instance's write lock: \<open>snap\<close> is the
  identity seen when the candidates were collected.
\<close>

definition cancel_drain ::
  "string list \<Rightarrow> string \<times> llama_instance \<Rightarrow> instances \<times> queue_state \<Rightarrow> instances \<times> queue_state" where
  "cancel_drain needs_eviction cand st =
     (let (rid, snap) = cand; (insts, qs) = st in
      if has_queued_competitors_needing_eviction needs_eviction qs (i_model_name snap) then (insts, qs)
      else case hm_get insts rid of
        None \<Rightarrow> (insts, qs)
      | Some i \<Rightarrow>
          if i_id i \<noteq> i_id snap \<or> i_model_name i \<noteq> i_model_name snap
             \<or> i_profile_id i \<noteq> i_profile_id snap \<or> \<not> draining_for_competitor i
          then (insts, qs)
          else (hm_insert rid (i\<lparr>draining := False, draining_for_competitor := False\<rparr>) insts,
                snd (notify_queue (i_model_name snap) (i_profile_id snap) qs)))"

definition maybe_cancel_drains :: "string list \<Rightarrow> instances \<Rightarrow> queue_state \<Rightarrow> instances \<times> queue_state" where
  "maybe_cancel_drains needs_eviction insts qs =
     fold (cancel_drain needs_eviction) (filter (\<lambda>(_, i). draining_for_competitor i) insts) (insts, qs)"

section \<open>The idle sweep\<close>

datatype eviction_reason = Idle | Crashed | Drained

definition idle_expired ::
  "(string \<Rightarrow> string) \<Rightarrow> (string \<Rightarrow> (string \<times> profile) option) \<Rightarrow> instant \<Rightarrow> llama_instance \<Rightarrow> bool" where
  "idle_expired sha256 look now i = (case look (instance_key i) of
     None \<Rightarrow> True
   | Some (_, p) \<Rightarrow>
       if args_hash_for_profile sha256 p \<noteq> i_args_hash i then True
       else unat (p_idle_timeout_seconds p) < (now - i_last_activity i) div 1000000000)"

definition eviction_reason_of ::
  "(string \<Rightarrow> string) \<Rightarrow> (string \<Rightarrow> (string \<times> profile) option) \<Rightarrow> instant \<Rightarrow> (string \<Rightarrow> bool) \<Rightarrow>
   string \<Rightarrow> llama_instance \<Rightarrow> eviction_reason option" where
  "eviction_reason_of sha256 look now alive rid i =
     (if \<not> alive rid then Some Crashed
      else if draining i \<and> in_flight_requests i = 0 then Some Drained
      else if in_flight_requests i = 0 \<and> idle_expired sha256 look now i then Some Idle
      else None)"

definition still_eligible :: "eviction_reason \<Rightarrow> llama_instance \<Rightarrow> bool" where
  "still_eligible reason i = (case reason of
     Crashed \<Rightarrow> True
   | Idle \<Rightarrow> in_flight_requests i = 0
   | Drained \<Rightarrow> draining i \<and> in_flight_requests i = 0)"

text \<open>\<open>seen\<close> is the map under the read lock, \<open>insts\<close> the one under the write lock.\<close>

definition check_idle_instances ::
  "(string \<Rightarrow> string) \<Rightarrow> (string \<Rightarrow> (string \<times> profile) option) \<Rightarrow> instant \<Rightarrow> (string \<Rightarrow> bool) \<Rightarrow>
   instances \<Rightarrow> instances \<Rightarrow> (string \<times> eviction_reason) list \<times> instances" where
  "check_idle_instances sha256 look now alive seen insts =
     (let to_evict = concat (map (\<lambda>(rid, i).
            case eviction_reason_of sha256 look now alive rid i of Some r \<Rightarrow> [(rid, r)] | None \<Rightarrow> []) seen);
          confirmed = filter (\<lambda>(rid, r).
            case hm_get insts rid of Some i \<Rightarrow> still_eligible r i | None \<Rightarrow> False) to_evict
      in (confirmed, fold (\<lambda>(rid, _). hm_remove rid) confirmed insts))"

section \<open>Cold-start recovery and shutdown\<close>

definition evict_all_idle_instances :: "instances \<Rightarrow> instances \<Rightarrow> string list \<times> instances" where
  "evict_all_idle_instances seen insts =
     (let to_remove = map fst (filter (\<lambda>(_, i). in_flight_requests i = 0 \<and> \<not> has_failed i \<and> \<not> draining i) seen);
          verified = filter (\<lambda>rid. case hm_get insts rid of
            Some i \<Rightarrow> in_flight_requests i = 0 | None \<Rightarrow> False) to_remove
      in (verified, fold hm_remove verified insts))"

text \<open>Stage two: all instances drain, and after the wait the ones seen then are removed.\<close>

definition mark_all_draining :: "instances \<Rightarrow> instances" where
  "mark_all_draining insts = map (\<lambda>(rid, i). (rid, force_drain i)) insts"

definition remove_drained :: "instances \<Rightarrow> instances \<Rightarrow> string list \<times> instances" where
  "remove_drained seen insts =
     (filter (\<lambda>rid. hm_get insts rid \<noteq> None) (hm_keys seen), fold hm_remove (hm_keys seen) insts)"

definition shutdown_all_instances :: "instances \<Rightarrow> llama_instance list \<times> instances" where
  "shutdown_all_instances insts = (hm_values insts, [])"

text \<open>Ports of retired instances return to the pool while the instances map is still locked.\<close>

definition retire_ports :: "llama_instance list \<Rightarrow> port_pool \<Rightarrow> port_pool" where
  "retire_ports removed p = fold (\<lambda>i. release_port (i_port i)) removed p"

section \<open>Slots\<close>

text \<open>
  \<^verbatim>\<open>Drop for SlotReleaseGuard\<close> once the load has ended: the slot of \<open>i\<close> is given back; an instance that
  became idle may cancel drains and wakes all queues, otherwise its own queue is woken. The instance
  may have left the map by then.
\<close>

definition release_slot ::
  "bool \<Rightarrow> string list \<Rightarrow> string \<Rightarrow> llama_instance \<Rightarrow> instances \<times> queue_state \<Rightarrow>
   llama_instance \<times> instances \<times> queue_state" where
  "release_slot detached needs_eviction rid i st =
     (if detached then (i, st)
      else let (insts, qs) = st;
               i' = i\<lparr>in_flight_requests := in_flight_requests i - 1\<rparr>;
               insts' = (if hm_get insts rid = Some i then hm_insert rid i' insts else insts)
           in if in_flight_requests i' = 0
              then (let (insts2, qs2) = maybe_cancel_drains needs_eviction insts' qs
                    in (i', insts2, notify_all_queues qs2))
              else (i', insts', snd (notify_queue (i_model_name i') (i_profile_id i') qs)))"

definition has_pending_for_model :: "string \<Rightarrow> string \<Rightarrow> queue_state \<Rightarrow> bool" where
  "has_pending_for_model model_name profile_id qs =
     (let key = model_name @ '':'' @ profile_id;
          has_queue = (case hm_get (queues qs) key of Some q \<Rightarrow> q \<noteq> [] | None \<Rightarrow> False)
      in if has_queue then True
         else (case hm_get (pending_tokens qs) key of Some ts \<Rightarrow> ts \<noteq> {} | None \<Rightarrow> False))"

text \<open>
  The clean-up after a response of \<^verbatim>\<open>src/router.rs\<close>: the slot is given back, and if a competing
  model waits for an eviction and this instance has served its tenure or has nothing left to do, it
  starts draining for the competitor.
\<close>

definition drain_due :: "string list \<Rightarrow> queue_state \<Rightarrow> instant \<Rightarrow> llama_instance \<Rightarrow> bool" where
  "drain_due needs_eviction qs now i =
     (\<not> draining i
      \<and> has_queued_competitors_needing_eviction needs_eviction qs (i_model_name i)
      \<and> ((case evictable_after i of Some t \<Rightarrow> t \<le> now | None \<Rightarrow> False)
         \<or> in_flight_requests i = 0 \<and> \<not> has_pending_for_model (i_model_name i) (i_profile_id i) qs))"

definition complete_request ::
  "string list \<Rightarrow> instant \<Rightarrow> string \<Rightarrow> llama_instance \<Rightarrow> instances \<times> queue_state \<Rightarrow> instances \<times> queue_state" where
  "complete_request needs_eviction now rid i st =
     (let (insts, qs) = st;
          i' = i\<lparr>in_flight_requests := in_flight_requests i - 1\<rparr>;
          insts1 = (if hm_get insts rid = Some i then hm_insert rid i' insts else insts);
          insts2 = (if drain_due needs_eviction qs now i' then
              (case hm_get insts1 rid of
                 Some j \<Rightarrow> if i_id j = i_id i' \<and> \<not> draining j
                   then hm_insert rid (j\<lparr>draining := True, draining_for_competitor := True\<rparr>) insts1
                   else insts1
               | None \<Rightarrow> insts1)
            else insts1)
      in if in_flight_requests i' = 0
         then (let (insts3, qs3) = maybe_cancel_drains needs_eviction insts2 qs
               in (insts3, notify_all_queues qs3))
         else (insts2, snd (notify_queue (i_model_name i') (i_profile_id i') qs)))"

section \<open>What a sweep may remove\<close>

lemma hm_get_removes: "hm_get (fold hm_remove ks m) k = (if k \<in> set ks then None else hm_get m k)"
  by (induction ks arbitrary: m) (auto simp: hm_get_remove)

lemma hm_get_removes_pair:
  "hm_get (fold (\<lambda>(rid, _). hm_remove rid) ps m) k = (if k \<in> fst ` set ps then None else hm_get m k)"
  by (induction ps arbitrary: m) (auto simp: hm_get_remove)



section \<open>Forced drains are permanent\<close>

text \<open>What a cancellation may do to one instance.\<close>

definition cancelled :: "llama_instance option \<Rightarrow> llama_instance option \<Rightarrow> bool" where
  "cancelled a b = (b = a \<or> (\<exists>i. a = Some i \<and> draining_for_competitor i
     \<and> b = Some (i\<lparr>draining := False, draining_for_competitor := False\<rparr>)))"

lemma cancel_drain_get:
  "cancel_drain needs cand (insts, qs) = (insts', qs') \<Longrightarrow> cancelled (hm_get insts rid) (hm_get insts' rid)"
  by (auto simp: cancelled_def cancel_drain_def Let_def hm_get_insert
      split: prod.splits option.splits if_splits)

lemma cancel_drains_get:
  "fold (cancel_drain needs) cs (insts, qs) = (insts', qs') \<Longrightarrow> cancelled (hm_get insts rid) (hm_get insts' rid)"
proof (induction cs arbitrary: insts qs)
  case (Cons c cs)
  obtain insts1 qs1 where step: "cancel_drain needs c (insts, qs) = (insts1, qs1)" by fastforce
  have "cancelled (hm_get insts1 rid) (hm_get insts' rid)"
    using Cons.IH [of insts1 qs1] Cons.prems by (simp add: step)
  with cancel_drain_get [OF step, of rid] show ?case unfolding cancelled_def by (elim disjE exE) auto
qed (simp add: cancelled_def)

lemma hm_get_map_value: "hm_get (map (\<lambda>(rid, i). (rid, f i)) m) k = map_option f (hm_get m k)"
  by (induction m) auto

text \<open>The operations that change draining flags, on the map of instances.\<close>

inductive drain_step ::
  "(string \<Rightarrow> string) \<Rightarrow> instances \<times> queue_state \<Rightarrow> instances \<times> queue_state \<Rightarrow> bool" for sha256 where
  ds_reconcile: "drain_step sha256 (insts, qs)
     (snd (reconcile_instances_with_cookbook sha256 look insts), qs)"
| ds_binary_update: "drain_step sha256 (insts, qs) (snd (drain_instances_for_binary_update insts qs))"
| ds_cancel: "drain_step sha256 (insts, qs) (maybe_cancel_drains needs insts qs)"
| ds_mark_all: "drain_step sha256 (insts, qs) (mark_all_draining insts, qs)"
| ds_complete: "drain_step sha256 (insts, qs) (complete_request needs now rid i (insts, qs))"
| ds_release: "drain_step sha256 (insts, qs) (snd (release_slot detached needs rid i (insts, qs)))"
| ds_sweep: "drain_step sha256 (insts, qs) (snd (check_idle_instances sha256 look now alive seen insts), qs)"
| ds_evict_idle: "drain_step sha256 (insts, qs) (snd (evict_all_idle_instances seen insts), qs)"

text \<open>No step adds an instance, and none clears a forced drain.\<close>

definition kept_forced :: "llama_instance option \<Rightarrow> llama_instance option \<Rightarrow> bool" where
  "kept_forced a b = (\<forall>j. b = Some j \<longrightarrow> (\<exists>i. a = Some i \<and> (forced i \<longrightarrow> forced j)))"

lemma kept_forced_refl [simp]: "kept_forced a a"
  by (simp add: kept_forced_def)

lemma kept_forced_trans: "kept_forced a b \<Longrightarrow> kept_forced b c \<Longrightarrow> kept_forced a c"
  by (fastforce simp: kept_forced_def)

lemma kept_forced_if:
  "kept_forced a (hm_get x rid) \<Longrightarrow> kept_forced a (hm_get y rid) \<Longrightarrow> kept_forced a (hm_get (if c then x else y) rid)"
  by simp

lemma cancel_keeps_forced:
  "kept_forced (hm_get insts rid) (hm_get (fst (maybe_cancel_drains needs insts qs)) rid)"
proof -
  have "cancelled (hm_get insts rid) (hm_get (fst (maybe_cancel_drains needs insts qs)) rid)"
    using cancel_drains_get [OF surjective_pairing] by (simp add: maybe_cancel_drains_def)
  then show ?thesis by (auto simp: kept_forced_def cancelled_def forced_def)
qed

lemma slot_keeps_forced:
  "kept_forced (hm_get insts rid) (hm_get (if hm_get insts r = Some i
     then hm_insert r (i\<lparr>in_flight_requests := n\<rparr>) insts else insts) rid)"
  by (auto simp: kept_forced_def hm_get_insert forced_def)

lemma complete_keeps_forced:
  "kept_forced (hm_get insts rid) (hm_get (fst (complete_request needs now r i (insts, qs))) rid)"
proof -
  let ?i = "i\<lparr>in_flight_requests := in_flight_requests i - 1\<rparr>"
  let ?a = "if hm_get insts r = Some i then hm_insert r ?i insts else insts"
  let ?b = "if drain_due needs qs now ?i then
      (case hm_get ?a r of
         Some j \<Rightarrow> if i_id j = i_id ?i \<and> \<not> draining j
           then hm_insert r (j\<lparr>draining := True, draining_for_competitor := True\<rparr>) ?a else ?a
       | None \<Rightarrow> ?a)
    else ?a"
  have "kept_forced (hm_get m rid) (hm_get (if c then
      (case hm_get m r of
         Some j \<Rightarrow> if i_id j = k \<and> \<not> draining j
           then hm_insert r (j\<lparr>draining := True, draining_for_competitor := True\<rparr>) m else m
       | None \<Rightarrow> m)
    else m) rid)" for m c k
    by (auto simp: kept_forced_def hm_get_insert forced_def split: option.splits)
  with slot_keeps_forced have ab: "kept_forced (hm_get insts rid) (hm_get ?b rid)"
    by (rule kept_forced_trans)
  have eq: "fst (complete_request needs now r i (insts, qs)) =
      (if in_flight_requests ?i = 0 then fst (maybe_cancel_drains needs ?b qs) else ?b)"
    unfolding complete_request_def Let_def by (simp split: prod.splits)
  show ?thesis unfolding eq by (rule kept_forced_if [OF kept_forced_trans [OF ab cancel_keeps_forced] ab])
qed

lemma release_keeps_forced:
  "kept_forced (hm_get insts rid) (hm_get (fst (snd (release_slot detached needs r i (insts, qs)))) rid)"
proof -
  let ?i = "i\<lparr>in_flight_requests := in_flight_requests i - 1\<rparr>"
  let ?a = "if hm_get insts r = Some i then hm_insert r ?i insts else insts"
  have ia: "kept_forced (hm_get insts rid) (hm_get ?a rid)" by (rule slot_keeps_forced)
  have eq: "fst (snd (release_slot detached needs r i (insts, qs))) = (if detached then insts
      else if in_flight_requests ?i = 0 then fst (maybe_cancel_drains needs ?a qs) else ?a)"
    unfolding release_slot_def Let_def by (simp split: prod.splits)
  show ?thesis unfolding eq
    by (intro kept_forced_if kept_forced_trans [OF ia cancel_keeps_forced] ia kept_forced_refl)
qed

lemma drain_step_keeps_forced:
  assumes "drain_step sha256 st st'"
  shows "kept_forced (hm_get (fst st) rid) (hm_get (fst st') rid)"
  using assms
proof (induction rule: drain_step.induct)
  case (ds_reconcile insts qs look)
  show ?case
    by (auto simp: kept_forced_def reconcile_instances_with_cookbook_def hm_get_map_value reconcile_one_def)
next
  case (ds_binary_update insts qs)
  show ?case
    by (auto simp: kept_forced_def drain_instances_for_binary_update_def Let_def hm_get_map_value
        forced_def force_drain_def)
next
  case (ds_cancel insts qs needs)
  show ?case by (simp add: cancel_keeps_forced)
next
  case (ds_mark_all insts qs)
  show ?case
    by (auto simp: kept_forced_def mark_all_draining_def hm_get_map_value forced_def force_drain_def)
next
  case (ds_complete insts qs needs now r i)
  show ?case by (simp add: complete_keeps_forced)
next
  case (ds_release insts qs detached needs r i)
  show ?case by (simp add: release_keeps_forced)
next
  case (ds_sweep insts qs look now alive seen)
  show ?case by (auto simp: kept_forced_def check_idle_instances_def Let_def hm_get_removes_pair)
next
  case (ds_evict_idle insts qs seen)
  show ?case by (auto simp: kept_forced_def evict_all_idle_instances_def Let_def hm_get_removes)
qed

text \<open>A forced drain is never undone: once an instance drains because the cookbook or the binary changed
  or the node recovers from exhausted memory, no sequence of scheduling, cancellation, reconciliation and
  eviction steps makes it available again; as long as it is in the map, it keeps draining.\<close>

theorem forced_drain_is_permanent:
  assumes "(drain_step sha256)\<^sup>*\<^sup>* st st'"
    and "hm_get (fst st) rid = Some i" "forced i"
    and "hm_get (fst st') rid = Some i'"
  shows "forced i'"
proof -
  have "kept_forced (hm_get (fst st) rid) (hm_get (fst st') rid)"
    using assms(1)
  proof (induction rule: rtranclp_induct)
    case base
    show ?case by (simp add: kept_forced_def)
  next
    case (step y z)
    then show ?case using drain_step_keeps_forced [OF step(2), of rid] by (fastforce simp: kept_forced_def)
  qed
  then show ?thesis using assms(2-4) by (auto simp: kept_forced_def)
qed

theorem forced_drain_is_permanent_witness:
  "forced (the (hm_get (fst (maybe_cancel_drains [] [(''a'', force_drain blank_instance)] empty_queues)) ''a''))"
proof -
  let ?st = "([(''a'', force_drain blank_instance)], empty_queues)"
  have run: "(drain_step (\<lambda>_. []))\<^sup>*\<^sup>* ?st (maybe_cancel_drains [] (fst ?st) (snd ?st))"
    using ds_cancel by auto
  have same: "maybe_cancel_drains [] (fst ?st) (snd ?st) = ?st"
    by (simp add: maybe_cancel_drains_def force_drain_def blank_instance_def)
  have "hm_get (fst ?st) ''a'' = Some (force_drain blank_instance)" "forced (force_drain blank_instance)"
    by (simp_all add: forced_def force_drain_def)
  from forced_drain_is_permanent [OF run this, of "force_drain blank_instance"] same show ?thesis by simp
qed

text \<open>After a reload the map agrees with the cookbook: every instance is either draining for good or runs
  exactly the profile and arguments its name resolves to now, the instances that agree are untouched, and
  the returned number counts the newly drained ones.\<close>

theorem reconcile_leaves_only_matching:
  "let r = reconcile_instances_with_cookbook sha256 look insts in
   (\<forall>(rid, i) \<in> set (snd r). forced i \<or> matches_cookbook sha256 look i)
   \<and> (\<forall>rid i. hm_get insts rid = Some i \<and> matches_cookbook sha256 look i \<longrightarrow> hm_get (snd r) rid = Some i)
   \<and> fst r = length (filter (\<lambda>(_, i). \<not> forced i \<and> \<not> matches_cookbook sha256 look i) insts)
   \<and> hm_keys (snd r) = hm_keys insts"
proof -
  have count: "(\<lambda>(_, i). fst (reconcile_one sha256 look i)) =
      (\<lambda>(_ :: string, i). \<not> forced i \<and> \<not> matches_cookbook sha256 look i)"
    by (auto simp: reconcile_one_def)
  show ?thesis
    unfolding reconcile_instances_with_cookbook_def Let_def fst_conv snd_conv count hm_get_map_value
    by (auto simp: reconcile_one_def forced_def force_drain_def split: if_splits)
qed

theorem reconcile_leaves_only_matching_witness:
  "forced (the (hm_get (snd (reconcile_instances_with_cookbook (\<lambda>_. []) (\<lambda>_. None)
     [(''a'', blank_instance)])) ''a''))"
proof -
  let ?r = "snd (reconcile_instances_with_cookbook (\<lambda>_. []) (\<lambda>_. None) [(''a'', blank_instance)])"
  have "\<forall>(rid, i) \<in> set ?r. forced i \<or> matches_cookbook (\<lambda>_. []) (\<lambda>_. None) i"
    using reconcile_leaves_only_matching [of "\<lambda>_. []" "\<lambda>_. None" "[(''a'', blank_instance)]"]
    by (simp add: Let_def)
  then show ?thesis
    by (simp add: matches_cookbook_def reconcile_instances_with_cookbook_def)
qed

end
