(* ===== verification/Routing.thy ===== *)
theory Routing
  imports Eviction Complex_Main "HOL-Library.Product_Lexorder"
begin

text \<open>
  Choice of a node for a request: the peer state of \<^verbatim>\<open>src/node_state/peer_state.rs\<close> and the routing
  functions of \<^verbatim>\<open>src/node_state/mod.rs\<close>. Scores are rational numbers in place of \<^verbatim>\<open>f64\<close>. The time, the
  circuits and the state of their lock are the record \<open>route_env\<close>.
\<close>

section \<open>Peers\<close>

record peer_model_stats =
  tps :: rat
  queue_len :: nat
  stats_vram_mb :: u64
  stats_sysmem_mb :: u64
  instance_count :: nat

record peer_state =
  ps_node_id :: string
  ps_address :: string
  address_from_source :: bool
  ps_version :: string
  ps_llama_cpp_version :: string
  last_seen :: u64
  started_at_unix :: u64
  gossip_epoch :: u64
  gossip_seq :: u64
  supported_models :: "string list"
  model_stats :: "(string, peer_model_stats) hashmap"
  ps_active_instances :: nat
  ps_max_instances :: nat
  current_requests :: u64
  available_vram :: u64
  available_sysmem :: u64
  ps_llamesh_vram_mb :: u64
  ps_llamesh_sysmem_mb :: u64
  ps_external_vram_mb :: u64
  ps_device_vram_used_mb :: u64
  ps_device_vram_total_mb :: u64
  ps_gpu_telemetry_available :: bool
  max_vram :: u64
  max_sysmem :: u64
  ps_total_queue_length :: nat
  ps_ready :: bool
  loaded_models :: "string list"

type_synonym peers = "(string, peer_state) hashmap"

text \<open>The part of \<^verbatim>\<open>get_self_peer_state\<close> that advertises the cookbook, and the loaded models.\<close>

definition advertised_name :: "model \<Rightarrow> profile \<Rightarrow> string" where
  "advertised_name m p = (if p_id p = ''default'' then m_name m else m_name m @ '':'' @ p_id p)"

definition advertised_models :: "model_defaults \<Rightarrow> cookbook \<Rightarrow> string list" where
  "advertised_models d cb = concat (map (\<lambda>m. concat (map (\<lambda>p.
     if \<not> p_enabled p then [] else if effective_max_instances p d = 0 then []
     else [advertised_name m p]) (profiles m))) (filter m_enabled (models cb)))"

definition loaded_keys :: "instances \<Rightarrow> string list" where
  "loaded_keys insts = map instance_key (filter (\<lambda>i. i_status i = Ready) (hm_values insts))"

definition peer_supports_profile :: "peer_state \<Rightarrow> string \<Rightarrow> string \<Rightarrow> bool" where
  "peer_supports_profile peer model_name profile_id =
     (let requested = model_name @ '':'' @ profile_id in
      list_ex (\<lambda>entry. eq_ignore_ascii_case entry requested
        \<or> eq_ignore_ascii_case entry model_name \<and> eq_ignore_ascii_case profile_id ''default'')
        (supported_models peer))"

section \<open>Scores\<close>

definition div_ceil :: "nat \<Rightarrow> nat \<Rightarrow> nat" where
  "div_ceil a b = (a + b - 1) div b"

definition eviction_estimate :: "peer_state \<Rightarrow> u64 \<Rightarrow> u64 \<Rightarrow> nat" where
  "eviction_estimate peer vram_required sysmem_required =
     (let vram_deficit = unat (sat_sub vram_required (available_vram peer));
          sysmem_deficit = unat (sat_sub sysmem_required (available_sysmem peer))
      in if ps_active_instances peer = 0 then 1
         else
           (let used_vram = unat (sat_sub (max_vram peer) (available_vram peer));
                used_sysmem = unat (sat_sub (max_sysmem peer) (available_sysmem peer));
                avg_vram = (if 0 < used_vram then used_vram div ps_active_instances peer else 1);
                avg_sysmem = (if 0 < used_sysmem then used_sysmem div ps_active_instances peer else 1);
                vram_evictions = (if 0 < avg_vram \<and> 0 < vram_deficit then div_ceil vram_deficit avg_vram else 0);
                sysmem_evictions = (if 0 < avg_sysmem \<and> 0 < sysmem_deficit then div_ceil sysmem_deficit avg_sysmem else 0)
            in max (max vram_evictions sysmem_evictions) 1))"

definition calculate_cold_start_cost :: "peer_state \<Rightarrow> u64 \<Rightarrow> u64 \<Rightarrow> rat" where
  "calculate_cold_start_cost peer vram_required sysmem_required =
     (if vram_required = 0 \<and> sysmem_required = 0 then 30
      else if (vram_required = 0 \<or> vram_required \<le> available_vram peer)
            \<and> (sysmem_required = 0 \<or> sysmem_required \<le> available_sysmem peer) then 30
      else if \<not> (vram_required = 0 \<or> vram_required \<le> max_vram peer)
            \<or> \<not> (sysmem_required = 0 \<or> sysmem_required \<le> max_sysmem peer) then 10000
      else 500 + of_nat (min (eviction_estimate peer vram_required sysmem_required) (ps_active_instances peer)) * 200)"

definition calculate_node_score :: "peer_state \<Rightarrow> string \<Rightarrow> u64 \<times> u64 \<Rightarrow> u64 \<Rightarrow> rat" where
  "calculate_node_score peer model_key local_memory_estimate effective_current =
     (let stats = hm_get (model_stats peer) model_key;
          speed = (case stats of Some s \<Rightarrow> tps s | None \<Rightarrow> 0);
          (vram_required, sysmem_required) =
            (case stats of
               Some s \<Rightarrow> if 0 < stats_vram_mb s \<or> 0 < stats_sysmem_mb s
                         then (stats_vram_mb s, stats_sysmem_mb s) else local_memory_estimate
             | None \<Rightarrow> local_memory_estimate);
          model_loaded = list_ex (\<lambda>m. m = model_key) (loaded_models peer);
          load_score = of_nat (ps_total_queue_length peer) * 50 + of_nat (unat effective_current) * 50;
          cold_start_cost = (if model_loaded then 0
            else calculate_cold_start_cost peer vram_required sysmem_required);
          tps_bonus = min speed 200 * 5;
          headroom_bonus = min (of_nat (ps_max_instances peer - ps_active_instances peer)) 4 * 50
      in load_score + cold_start_cost - tps_bonus - headroom_bonus)"

section \<open>Forwards in flight\<close>

text \<open>
  The counters are \<^verbatim>\<open>AtomicUsize\<close>, whose additions and subtractions wrap. An entry of the map is
  never removed, so the counter a guard holds is the one of its peer's entry.
\<close>
type_synonym forwards = "(string, u64) hashmap"

record forward_guard =
  fg_peer :: string
  fg_released :: bool

definition track_peer_forward :: "string \<Rightarrow> forwards \<Rightarrow> forward_guard \<times> forwards" where
  "track_peer_forward peer_id fw =
     (\<lparr>fg_peer = peer_id, fg_released = False\<rparr>,
      hm_insert peer_id ((case hm_get fw peer_id of Some n \<Rightarrow> n | None \<Rightarrow> 0) + 1) fw)"

definition release_forward :: "forward_guard \<Rightarrow> forwards \<Rightarrow> forward_guard \<times> forwards" where
  "release_forward g fw = (if fg_released g then (g, fw)
     else (g\<lparr>fg_released := True\<rparr>,
           case hm_get fw (fg_peer g) of Some n \<Rightarrow> hm_insert (fg_peer g) (n - 1) fw | None \<Rightarrow> fw))"

interpretation forward_guard: once_guard fg_released release_forward
  by unfold_locales (simp_all add: release_forward_def)

section \<open>Choosing a node\<close>

record route_env =
  re_config :: node_config
  re_circuits :: circuits
  re_lock_free :: bool
  re_instant :: instant
  re_unix_now :: u64

definition staleness_timeout :: "node_config \<Rightarrow> u64" where
  "staleness_timeout cfg = max (sat_mul (gossip_interval_seconds (cluster cfg)) 3) 15"

definition fresh :: "route_env \<Rightarrow> peer_state \<Rightarrow> bool" where
  "fresh env p = (sat_sub (re_unix_now env) (last_seen p) \<le> staleness_timeout (re_config env))"

definition circuit_allows :: "route_env \<Rightarrow> peer_state \<Rightarrow> bool" where
  "circuit_allows env p = should_allow_sync (circuit_breaker (cluster (re_config env)))
     (re_lock_free env) (re_instant env) (ps_node_id p) (re_circuits env)"

definition split_request :: "string \<Rightarrow> string \<times> string" where
  "split_request model_name =
     (let parts = split_on CHR '':'' model_name in
      (parts ! 0, if length parts > 1 then parts ! 1 else ''default''))"

definition any_peer_advertises_model :: "route_env \<Rightarrow> peers \<Rightarrow> string \<Rightarrow> bool" where
  "any_peer_advertises_model env ps model_name =
     (let (base_model, profile_id) = split_request model_name in
      list_ex (\<lambda>p. fresh env p \<and> peer_supports_profile p base_model profile_id) (hm_values ps))"

definition has_forwarding_target :: "route_env \<Rightarrow> peers \<Rightarrow> bool" where
  "has_forwarding_target env ps =
     list_ex (\<lambda>p. ps_node_id p \<noteq> node_id (re_config env) \<and> fresh env p \<and> ps_ready p
       \<and> supported_models p \<noteq> [] \<and> circuit_allows env p) (hm_values ps)"

definition find_peer_for_model :: "route_env \<Rightarrow> peers \<Rightarrow> string \<Rightarrow> string set \<Rightarrow> peer_state option" where
  "find_peer_for_model env ps model_name excluded =
     (let (base_model, profile_id) = split_request model_name;
          candidates = filter (\<lambda>p. fresh env p \<and> ps_ready p \<and> circuit_allows env p
            \<and> ps_node_id p \<notin> excluded \<and> peer_supports_profile p base_model profile_id) (hm_values ps);
          requested_key = to_lowercase (base_model @ '':'' @ profile_id);
          loaded = (\<lambda>p. list_ex (\<lambda>m. to_lowercase m = requested_key) (loaded_models p))
      in case sort_key (\<lambda>p. (\<not> loaded p, ps_total_queue_length p)) candidates of
           [] \<Rightarrow> None | p # _ \<Rightarrow> Some p)"

text \<open>The peers that may be chosen for a request.\<close>

definition admissible :: "route_env \<Rightarrow> string \<Rightarrow> string \<Rightarrow> string set \<Rightarrow> peer_state \<Rightarrow> bool" where
  "admissible env model_name profile_id excluded p =
     (fresh env p \<and> ps_max_instances p \<noteq> 0 \<and> ps_ready p \<and> circuit_allows env p
      \<and> ps_node_id p \<notin> excluded \<and> peer_supports_profile p model_name profile_id)"

definition effective_current :: "node_config \<Rightarrow> forwards \<Rightarrow> peer_state \<Rightarrow> u64" where
  "effective_current cfg pending c =
     (if ps_node_id c = node_id cfg
      then sat_sub (current_requests c) (sum_list (hm_values pending))
      else sat_add (current_requests c)
        (case hm_get pending (ps_node_id c) of Some n \<Rightarrow> n | None \<Rightarrow> 0))"

definition select_best_node ::
  "route_env \<Rightarrow> bool \<Rightarrow> peer_state \<Rightarrow> peers \<Rightarrow> forwards \<Rightarrow> u64 \<times> u64 \<Rightarrow> string \<Rightarrow> string \<Rightarrow> bool \<Rightarrow> string set \<Rightarrow>
   peer_state option" where
  "select_best_node env can_serve self_peer ps pending estimate model_name profile_id prefer_local excluded =
     (let self_ok = can_serve \<and> peer_supports_profile self_peer model_name profile_id in
      if self_ok \<and> prefer_local then Some self_peer
      else
        (let requested_key = model_name @ '':'' @ profile_id;
             candidates = (if self_ok then [self_peer] else [])
               @ filter (admissible env model_name profile_id excluded) (hm_values ps);
             scored = map (\<lambda>c. (c, calculate_node_score c requested_key estimate
               (effective_current (re_config env) pending c))) candidates
         in case sort_key snd scored of [] \<Rightarrow> None | (c, _) # _ \<Rightarrow> Some c))"

section \<open>The choice is sound, complete and best\<close>

lemma sort_key_first:
  assumes "sort_key f xs = y # ys"
  shows "y \<in> set xs" and "x \<in> set xs \<Longrightarrow> f y \<le> f x"
proof -
  from assms have s: "set xs = set (y # ys)" by (metis set_sort)
  then show "y \<in> set xs" by simp
  have "sorted (map f (y # ys))" by (metis assms sorted_sort_key)
  then show "f y \<le> f x" if "x \<in> set xs" using that s by auto
qed

lemma sort_key_empty_iff: "sort_key f xs = [] \<longleftrightarrow> xs = []"
  by (metis set_empty set_sort)

text \<open>Who may serve a request: the node itself, if it serves and supports it, or an admissible peer.\<close>

definition eligible ::
  "route_env \<Rightarrow> bool \<Rightarrow> peer_state \<Rightarrow> peers \<Rightarrow> string \<Rightarrow> string \<Rightarrow> string set \<Rightarrow> peer_state \<Rightarrow> bool" where
  "eligible env can_serve self_peer ps model_name profile_id excluded c =
     (c = self_peer \<and> can_serve \<and> peer_supports_profile self_peer model_name profile_id
      \<or> c \<in> set (hm_values ps) \<and> admissible env model_name profile_id excluded c)"

definition node_score ::
  "route_env \<Rightarrow> forwards \<Rightarrow> u64 \<times> u64 \<Rightarrow> string \<Rightarrow> string \<Rightarrow> peer_state \<Rightarrow> rat" where
  "node_score env pending estimate model_name profile_id c =
     calculate_node_score c (model_name @ '':'' @ profile_id) estimate
       (effective_current (re_config env) pending c)"

lemma candidates_eligible:
  "set ((if can_serve \<and> peer_supports_profile self_peer model_name profile_id then [self_peer] else [])
     @ filter (admissible env model_name profile_id excluded) (hm_values ps))
   = Collect (eligible env can_serve self_peer ps model_name profile_id excluded)"
  by (rule set_eqI) (simp only: set_append set_filter mem_Collect_eq Un_iff eligible_def split: if_splits, simp, blast)

lemma select_by_score:
  "select_best_node env can_serve self_peer ps pending estimate model_name profile_id prefer_local excluded =
     (if can_serve \<and> peer_supports_profile self_peer model_name profile_id \<and> prefer_local
      then Some self_peer
      else case sort_key snd (map (\<lambda>c. (c, node_score env pending estimate model_name profile_id c))
        ((if can_serve \<and> peer_supports_profile self_peer model_name profile_id then [self_peer] else [])
         @ filter (admissible env model_name profile_id excluded) (hm_values ps)))
        of [] \<Rightarrow> None | (c, _) # _ \<Rightarrow> Some c)"
  by (simp add: select_best_node_def node_score_def Let_def)

lemma best_of_list:
  assumes "(case sort_key snd (map (\<lambda>c. (c, g c)) cs) of [] \<Rightarrow> None | (c, _) # _ \<Rightarrow> Some c) = Some b"
  shows "b \<in> set cs" and "c \<in> set cs \<Longrightarrow> (g c :: rat) \<ge> g b"
proof -
  obtain s rest where *: "sort_key snd (map (\<lambda>c. (c, g c)) cs) = (b, s) # rest"
    using assms by (auto split: list.splits)
  from sort_key_first(1) [OF *] have b: "b \<in> set cs" "s = g b" by auto
  then show "b \<in> set cs" by simp
  show "g b \<le> g c" if "c \<in> set cs"
    using sort_key_first(2) [OF *, of "(c, g c)"] b that by auto
qed

lemma best_of_list_None:
  "(case sort_key snd (map (\<lambda>c. (c, g c)) cs) of [] \<Rightarrow> None | (c, _) # _ \<Rightarrow> Some c) = None \<longleftrightarrow> cs = []"
proof -
  have "sort_key snd (map (\<lambda>c. (c, g c)) cs) = [] \<longleftrightarrow> cs = []" by (simp add: sort_key_empty_iff)
  then show ?thesis by (auto split: list.splits)
qed

text \<open>C11. Routing returns an eligible node and finds one whenever there is one. A request that was
  already forwarded stays on this node if this node can serve it. Every other request goes to an
  eligible node with the lowest score.\<close>

theorem select_best_node_spec:
  "case select_best_node env can_serve self_peer ps pending estimate model_name profile_id prefer_local excluded of
     None \<Rightarrow> (\<forall>c. \<not> eligible env can_serve self_peer ps model_name profile_id excluded c)
   | Some b \<Rightarrow> eligible env can_serve self_peer ps model_name profile_id excluded b
       \<and> (if prefer_local \<and> can_serve \<and> peer_supports_profile self_peer model_name profile_id then b = self_peer
          else \<forall>c. eligible env can_serve self_peer ps model_name profile_id excluded c
            \<longrightarrow> node_score env pending estimate model_name profile_id b
                \<le> node_score env pending estimate model_name profile_id c)"
  (is "case ?choice of None \<Rightarrow> \<forall>c. \<not> ?elig c | Some b \<Rightarrow> ?elig b \<and> _ b")
proof -
  let ?score = "node_score env pending estimate model_name profile_id"
  let ?self_ok = "can_serve \<and> peer_supports_profile self_peer model_name profile_id"
  let ?cs = "(if ?self_ok then [self_peer] else [])
    @ filter (admissible env model_name profile_id excluded) (hm_values ps)"
  let ?best = "case sort_key snd (map (\<lambda>c. (c, ?score c)) ?cs) of [] \<Rightarrow> None | (c, _) # _ \<Rightarrow> Some c"
  have elig: "c \<in> set ?cs \<longleftrightarrow> ?elig c" for c
    by (simp only: candidates_eligible mem_Collect_eq)
  show ?thesis
  proof (cases "?self_ok \<and> prefer_local")
    case True
    then show ?thesis by (simp add: select_by_score eligible_def)
  next
    case False
    then have choice: "?choice = ?best" by (simp only: select_by_score) auto
    show ?thesis
    proof (cases ?best)
      case None
      then have "?cs = []" by (simp only: best_of_list_None)
      then have "c \<notin> set ?cs" for c by simp
      with elig choice None show ?thesis by simp
    next
      case (Some b)
      from best_of_list [OF Some] elig False choice Some show ?thesis by auto
    qed
  qed
qed

text \<open>A small peer for concrete checks.\<close>

definition demo_peer :: "string \<Rightarrow> string list \<Rightarrow> nat \<Rightarrow> peer_state" where
  "demo_peer name served queued =
     \<lparr>ps_node_id = name, ps_address = ''a'', address_from_source = False, ps_version = ''1'',
      ps_llama_cpp_version = ''1'', last_seen = 100, started_at_unix = 0, gossip_epoch = 0,
      gossip_seq = 0, supported_models = served, model_stats = [], ps_active_instances = 1,
      ps_max_instances = 2, current_requests = 0, available_vram = 0, available_sysmem = 0,
      ps_llamesh_vram_mb = 0, ps_llamesh_sysmem_mb = 0, ps_external_vram_mb = 0,
      ps_device_vram_used_mb = 0, ps_device_vram_total_mb = 0, ps_gpu_telemetry_available = False,
      max_vram = 1000, max_sysmem = 1000, ps_total_queue_length = queued, ps_ready = True,
      loaded_models = []\<rparr>"

definition demo_env :: route_env where
  "demo_env = \<lparr>re_config = demo_config, re_circuits = [], re_lock_free = True, re_instant = 0,
     re_unix_now = 110\<rparr>"

lemmas demo_route_simps = demo_peer_def demo_env_def demo_config_def node_score_def
  calculate_node_score_def effective_current_def calculate_cold_start_cost_def
  peer_supports_profile_def eq_ignore_ascii_case_def to_lowercase_def ascii_lower_def

theorem select_best_node_spec_witness:
  "select_best_node demo_env True (demo_peer ''n1'' [''m''] 3) [(''n2'', demo_peer ''n2'' [''m''] 0)] []
     (0, 0) ''m'' ''default'' False {} = Some (demo_peer ''n2'' [''m''] 0)
   \<and> eligible demo_env True (demo_peer ''n1'' [''m''] 3) [(''n2'', demo_peer ''n2'' [''m''] 0)]
       ''m'' ''default'' {} (demo_peer ''n2'' [''m''] 0)"
proof -
  have "select_best_node demo_env True (demo_peer ''n1'' [''m''] 3) [(''n2'', demo_peer ''n2'' [''m''] 0)] []
     (0, 0) ''m'' ''default'' False {} = Some (demo_peer ''n2'' [''m''] 0)"
  proof -
    have "admissible demo_env ''m'' ''default'' {} (demo_peer ''n2'' [''m''] 0)"
      by (simp add: admissible_def fresh_def staleness_timeout_def circuit_allows_def should_allow_sync_def
          sat_sub_def sat_mul_def demo_route_simps)
    moreover have "peer_supports_profile (demo_peer ''n1'' [''m''] 3) ''m'' ''default''"
      by (simp add: demo_route_simps)
    moreover have "node_score demo_env [] (0, 0) ''m'' ''default'' (demo_peer ''n2'' [''m''] 0) = - 20"
      by (simp add: demo_route_simps sat_add_def)
    moreover have "node_score demo_env [] (0, 0) ''m'' ''default'' (demo_peer ''n1'' [''m''] 3) = 130"
      by (simp add: demo_route_simps sat_sub_def)
    ultimately show ?thesis by (simp add: select_by_score)
  qed
  with select_best_node_spec [where env = demo_env and can_serve = True
      and self_peer = "demo_peer ''n1'' [''m''] 3" and ps = "[(''n2'', demo_peer ''n2'' [''m''] 0)]"
      and pending = "[]" and estimate = "(0, 0)" and model_name = "''m''" and profile_id = "''default''"
      and prefer_local = False and excluded = "{}"]
  show ?thesis by simp
qed

section \<open>Advertised models\<close>

text \<open>What a node offers: the enabled pairs that may have at least one instance.\<close>

definition offered_pairs :: "model_defaults \<Rightarrow> cookbook \<Rightarrow> (model \<times> profile) list" where
  "offered_pairs d cb = filter (\<lambda>mp. effective_max_instances (snd mp) d \<noteq> 0) (enabled_pairs cb)"

lemma set_enabled_pairs:
  "mp \<in> set (enabled_pairs cb) \<longleftrightarrow>
   fst mp \<in> set (models cb) \<and> snd mp \<in> set (profiles (fst mp)) \<and> m_enabled (fst mp) \<and> p_enabled (snd mp)"
  by (cases mp) (auto simp: enabled_pairs_def cookbook_pairs_def pair_enabled_def)

lemma set_advertised_models:
  "set (advertised_models d cb) = (\<lambda>mp. advertised_name (fst mp) (snd mp)) ` set (offered_pairs d cb)"
proof -
  have "n \<in> set (advertised_models d cb) \<longleftrightarrow>
      (\<exists>m p. m \<in> set (models cb) \<and> m_enabled m \<and> p \<in> set (profiles m) \<and> p_enabled p
        \<and> effective_max_instances p d \<noteq> 0 \<and> n = advertised_name m p)" for n
    by (auto simp: advertised_models_def split: if_splits)
  moreover have "n \<in> (\<lambda>mp. advertised_name (fst mp) (snd mp)) ` set (offered_pairs d cb) \<longleftrightarrow>
      (\<exists>m p. m \<in> set (models cb) \<and> m_enabled m \<and> p \<in> set (profiles m) \<and> p_enabled p
        \<and> effective_max_instances p d \<noteq> 0 \<and> n = advertised_name m p)" for n
    by (auto simp: offered_pairs_def set_enabled_pairs image_iff)
  ultimately show ?thesis by blast
qed

lemma colon_split_eq:
  "CHR '':'' \<notin> set a \<Longrightarrow> CHR '':'' \<notin> set b \<Longrightarrow> a @ CHR '':'' # x = b @ CHR '':'' # y \<longleftrightarrow> a = b \<and> x = y"
  by (metis append_same_eq append_eq_append_conv split_on_append split_once_append option.inject prod.inject)

lemma supports_advertised:
  assumes "CHR '':'' \<notin> set (m_name m)" "CHR '':'' \<notin> set n"
  shows "eq_ignore_ascii_case (advertised_name m p) (n @ '':'' @ pid)
       \<or> eq_ignore_ascii_case (advertised_name m p) n \<and> eq_ignore_ascii_case pid ''default''
     \<longleftrightarrow> eq_ignore_ascii_case (m_name m) n \<and> eq_ignore_ascii_case (p_id p) pid"
proof -
  have no: "CHR '':'' \<notin> set (to_lowercase (m_name m))" "CHR '':'' \<notin> set (to_lowercase n)"
    using assms by simp_all
  have bare: "to_lowercase (m_name m) \<noteq> to_lowercase n @ CHR '':'' # x" for x
    using no by (metis in_set_conv_decomp)
  have full: "to_lowercase (m_name m) @ CHR '':'' # x \<noteq> to_lowercase n" for x
    using no by (metis in_set_conv_decomp)
  show ?thesis
    by (auto simp: advertised_name_def eq_ignore_ascii_case_def bare full colon_split_eq [OF no])
qed

text \<open>A peer that runs a validated cookbook and gossips its advertised models is found to
  support a request exactly if the cookbook offers the requested model and profile, in any case.\<close>

lemma advertised_models_supported:
  assumes "validate_cookbook cb = Ok ()" and "supported_models peer = advertised_models d cb"
    and "CHR '':'' \<notin> set n"
  shows "peer_supports_profile peer n pid \<longleftrightarrow>
    list_ex (\<lambda>mp. eq_ignore_ascii_case (m_name (fst mp)) n \<and> eq_ignore_ascii_case (p_id (snd mp)) pid)
      (offered_pairs d cb)"
proof -
  have plain: "CHR '':'' \<notin> set (m_name (fst mp))" if "mp \<in> set (offered_pairs d cb)" for mp
    using that validated_pairs(1) [OF assms(1), of mp] by (simp add: offered_pairs_def pair_plain_def)
  have "peer_supports_profile peer n pid \<longleftrightarrow> (\<exists>mp \<in> set (offered_pairs d cb).
      eq_ignore_ascii_case (advertised_name (fst mp) (snd mp)) (n @ '':'' @ pid)
      \<or> eq_ignore_ascii_case (advertised_name (fst mp) (snd mp)) n \<and> eq_ignore_ascii_case pid ''default'')"
    by (simp add: peer_supports_profile_def assms(2) list_ex_iff set_advertised_models)
  also have "\<dots> \<longleftrightarrow> (\<exists>mp \<in> set (offered_pairs d cb).
      eq_ignore_ascii_case (m_name (fst mp)) n \<and> eq_ignore_ascii_case (p_id (snd mp)) pid)"
    using supports_advertised [OF plain assms(3)] by (intro bex_cong refl)
  finally show ?thesis by (simp add: list_ex_iff)
qed

section \<open>Costs and counters\<close>

text \<open>
  The cost of a cold start lies on three levels that never overlap: it fits, it needs evictions, it
  never fits. The eviction level grows with the deficit but never beyond the running instances.
\<close>

lemma cold_start_levels:
  "calculate_cold_start_cost peer v s \<in> {30, 10000}
   \<or> (\<exists>k \<le> ps_active_instances peer. calculate_cold_start_cost peer v s = 500 + of_nat k * 200)"
  by (auto simp: calculate_cold_start_cost_def intro!: exI [of _ "min _ _"])

text \<open>
  A node without instances that is short of memory is charged no eviction: the estimate of one is
  capped at the number of running instances.
\<close>

lemma cold_start_cost_no_instances:
  "ps_active_instances peer = 0 \<Longrightarrow> calculate_cold_start_cost peer v s \<in> {30, 500, 10000}"
  by (auto simp: calculate_cold_start_cost_def)

text \<open>Forwards and their guards: the guards handed out and the counters.\<close>

inductive forward_step :: "forward_guard list \<times> forwards \<Rightarrow> forward_guard list \<times> forwards \<Rightarrow> bool" where
  track: "track_peer_forward p fw = (g, fw') \<Longrightarrow> forward_step (gs, fw) (g # gs, fw')"
| release: "n < length gs \<Longrightarrow> release_forward (gs ! n) fw = (g, fw') \<Longrightarrow>
    forward_step (gs, fw) (gs[n := g], fw')"

definition live_forwards :: "string \<Rightarrow> forward_guard list \<Rightarrow> nat" where
  "live_forwards p gs = length (filter (\<lambda>g. fg_peer g = p \<and> \<not> fg_released g) gs)"

definition pending_forwards :: "forwards \<Rightarrow> string \<Rightarrow> u64" where
  "pending_forwards fw p = (case hm_get fw p of Some n \<Rightarrow> n | None \<Rightarrow> 0)"

definition forward_inv :: "forward_guard list \<times> forwards \<Rightarrow> bool" where
  "forward_inv st = (\<forall>p. (hm_get (snd st) p = None \<longrightarrow> live_forwards p (fst st) = 0)
     \<and> pending_forwards (snd st) p = of_nat (live_forwards p (fst st)))"

lemma live_forwards_update:
  "n < length gs \<Longrightarrow> \<not> fg_released (gs ! n) \<Longrightarrow> live_forwards p gs =
    live_forwards p (gs[n := (gs ! n)\<lparr>fg_released := True\<rparr>]) + (if fg_peer (gs ! n) = p then 1 else 0)"
proof (induction gs arbitrary: n)
  case (Cons g gs)
  then show ?case by (cases n) (auto simp: live_forwards_def)
qed simp

lemma forward_step_inv: "forward_step s t \<Longrightarrow> forward_inv s \<Longrightarrow> forward_inv t"
proof (induction rule: forward_step.induct)
  case (track p fw g fw' gs)
  then have g: "g = \<lparr>fg_peer = p, fg_released = False\<rparr>" and fw': "fw' = hm_insert p (pending_forwards fw p + 1) fw"
    by (auto simp: track_peer_forward_def pending_forwards_def)
  show ?case
    using track.prems by (auto simp: forward_inv_def g fw' hm_simps live_forwards_def pending_forwards_def)
next
  case (release n gs fw g fw')
  show ?case
  proof (cases "fg_released (gs ! n)")
    case True
    then have "g = gs ! n" "fw' = fw" using release.hyps(2) by (simp_all add: release_forward_def)
    then show ?thesis using release.prems by simp
  next
    case False
    note upd = live_forwards_update [OF release.hyps(1) False]
    have g: "g = (gs ! n)\<lparr>fg_released := True\<rparr>" using release.hyps(2) False by (auto simp: release_forward_def)
    have "live_forwards (fg_peer (gs ! n)) gs \<noteq> 0" using upd by simp
    then obtain k where k: "hm_get fw (fg_peer (gs ! n)) = Some k"
      using release.prems by (fastforce simp: forward_inv_def)
    then have fw': "fw' = hm_insert (fg_peer (gs ! n)) (k - 1) fw"
      using release.hyps(2) False by (auto simp: release_forward_def)
    have inv: "(hm_get fw p = None \<longrightarrow> live_forwards p gs = 0)
        \<and> pending_forwards fw p = of_nat (live_forwards p gs)" for p
      using release.prems by (simp add: forward_inv_def)
    have "(hm_get fw' p = None \<longrightarrow> live_forwards p (gs[n := g]) = 0)
        \<and> pending_forwards fw' p = of_nat (live_forwards p (gs[n := g]))" for p
      using inv [of p] upd [of p] k by (auto simp: g fw' hm_simps pending_forwards_def split: if_splits)
    then show ?thesis by (simp add: forward_inv_def)
  qed
qed

text \<open>Whatever the order of forwards and releases, the counter of a peer is the number of its
  guards that have not been released (modulo the word size), so it never runs below zero; and each
  further forward to a peer raises the peer's score by 50 until the count saturates, which spreads a burst.\<close>

theorem forward_counters_exact:
  assumes "forward_step\<^sup>*\<^sup>* ([], []) (gs, fw)"
  shows "pending_forwards fw p = of_nat (live_forwards p gs)
    \<and> (ps_node_id c = p \<and> p \<noteq> node_id cfg
        \<and> unat (current_requests c) + unat (pending_forwards fw p) + 1 < 2 ^ 64
      \<longrightarrow> calculate_node_score c key est (effective_current cfg (snd (track_peer_forward p fw)) c)
          = calculate_node_score c key est (effective_current cfg fw c) + 50)"
proof -
  have "forward_inv (gs, fw)"
    using assms
  proof (induction rule: rtranclp_induct)
    case base
    then show ?case by (simp add: forward_inv_def live_forwards_def pending_forwards_def)
  next
    case (step y z)
    then show ?case by (blast intro: forward_step_inv)
  qed
  moreover have "calculate_node_score c key est (effective_current cfg (snd (track_peer_forward p fw)) c)
          = calculate_node_score c key est (effective_current cfg fw c) + 50"
    if "ps_node_id c = p" "p \<noteq> node_id cfg"
      "unat (current_requests c) + unat (pending_forwards fw p) + 1 < 2 ^ 64"
  proof -
    let ?k = "pending_forwards fw p"
    have "unat (?k + 1) = unat ?k + 1"
      using that(3) by (subst unat_word_ariths) simp
    then have "unat (effective_current cfg (snd (track_peer_forward p fw)) c) = unat (effective_current cfg fw c) + 1"
      using that by (simp add: effective_current_def track_peer_forward_def hm_simps pending_forwards_def unat_sat_add
          split: option.splits)
    then show ?thesis by (simp add: calculate_node_score_def Let_def split: prod.splits)
  qed
  ultimately show ?thesis by (simp add: forward_inv_def)
qed

theorem forward_counters_exact_witness:
  "pending_forwards [(''n2'', 1)] ''n2'' = of_nat (live_forwards ''n2'' [\<lparr>fg_peer = ''n2'', fg_released = False\<rparr>])
   \<and> calculate_node_score (demo_peer ''n2'' [''m''] 0) ''m:default'' (0, 0)
       (effective_current demo_config (snd (track_peer_forward ''n2'' [(''n2'', 1)])) (demo_peer ''n2'' [''m''] 0))
     = calculate_node_score (demo_peer ''n2'' [''m''] 0) ''m:default'' (0, 0)
       (effective_current demo_config [(''n2'', 1)] (demo_peer ''n2'' [''m''] 0)) + 50"
proof -
  have "forward_step ([], []) ([\<lparr>fg_peer = ''n2'', fg_released = False\<rparr>], [(''n2'', 1)])"
    by (rule track) (simp add: track_peer_forward_def)
  then have "forward_step\<^sup>*\<^sup>* ([], []) ([\<lparr>fg_peer = ''n2'', fg_released = False\<rparr>], [(''n2'', 1)])" by blast
  from forward_counters_exact [OF this, of "''n2''" "demo_peer ''n2'' [''m''] 0" demo_config "''m:default''" "(0, 0)"]
  show ?thesis by (simp add: demo_peer_def demo_config_def pending_forwards_def)
qed

section \<open>Models this node does not know\<close>

text \<open>Who may get a request for a model that is not in the local cookbook, and how such peers rank.\<close>

definition forwardable :: "route_env \<Rightarrow> string \<Rightarrow> string set \<Rightarrow> peer_state \<Rightarrow> bool" where
  "forwardable env model_name excluded p =
     (fresh env p \<and> ps_ready p \<and> circuit_allows env p \<and> ps_node_id p \<notin> excluded
      \<and> peer_supports_profile p (fst (split_request model_name)) (snd (split_request model_name)))"

definition has_loaded :: "string \<Rightarrow> peer_state \<Rightarrow> bool" where
  "has_loaded model_name p = list_ex (\<lambda>m. to_lowercase m =
     to_lowercase (fst (split_request model_name) @ '':'' @ snd (split_request model_name))) (loaded_models p)"

lemma find_peer_for_model_eq:
  "find_peer_for_model env ps model_name excluded =
     (case sort_key (\<lambda>p. (\<not> has_loaded model_name p, ps_total_queue_length p))
        (filter (forwardable env model_name excluded) (hm_values ps)) of [] \<Rightarrow> None | p # _ \<Rightarrow> Some p)"
  by (simp add: find_peer_for_model_def forwardable_def [abs_def] has_loaded_def [abs_def] split_beta Let_def)

text \<open>For a model outside the local cookbook a peer is found exactly if one may take the request;
  one that has the model loaded wins, and among equals the one with the shortest queue. A peer that
  was found also counts as an advertiser of the model.\<close>

theorem find_peer_for_model_spec:
  "case find_peer_for_model env ps model_name excluded of
     None \<Rightarrow> \<not> list_ex (forwardable env model_name excluded) (hm_values ps)
   | Some p \<Rightarrow> p \<in> set (hm_values ps) \<and> forwardable env model_name excluded p
       \<and> any_peer_advertises_model env ps model_name
       \<and> list_all (\<lambda>q. if has_loaded model_name p = has_loaded model_name q
             then ps_total_queue_length p \<le> ps_total_queue_length q else has_loaded model_name p)
           (filter (forwardable env model_name excluded) (hm_values ps))"
proof -
  let ?key = "\<lambda>p. (\<not> has_loaded model_name p, ps_total_queue_length p)"
  let ?cs = "filter (forwardable env model_name excluded) (hm_values ps)"
  show ?thesis
  proof (cases "sort_key ?key ?cs")
    case Nil
    then have "?cs = []" by (simp only: sort_key_empty_iff)
    then show ?thesis by (auto simp: find_peer_for_model_eq Nil list_ex_iff filter_empty_conv)
  next
    case (Cons p rest)
    have p: "p \<in> set ?cs" by (rule sort_key_first(1) [OF Cons])
    have best: "?key p \<le> ?key q" if "q \<in> set ?cs" for q
      using that by (rule sort_key_first(2) [OF Cons])
    have "any_peer_advertises_model env ps model_name"
      using p by (auto simp: any_peer_advertises_model_def forwardable_def list_ex_iff split_beta Let_def)
    moreover have "if has_loaded model_name p = has_loaded model_name q
             then ps_total_queue_length p \<le> ps_total_queue_length q else has_loaded model_name p"
      if "q \<in> set ?cs" for q
      using best [OF that] by (auto simp: less_eq_prod_def)
    ultimately show ?thesis using p
      unfolding find_peer_for_model_eq Cons list_all_iff by (auto simp del: set_map)
  qed
qed

end
