(* ===== verification/Peer_Forward.thy ===== *)
theory Peer_Forward
  imports Relay Routing
begin

text \<open>
  Forwarding a request to a peer: \<^verbatim>\<open>attempt_peer_forward\<close> of \<^verbatim>\<open>src/router.rs\<close> with the admission by the circuit
  breaker, the classification of the reply, and what is recorded about the peer. The reply is an argument; so
  is what others did to the circuits while the peer was working.
\<close>

section \<open>Replies and outcomes\<close>

record 'h buffered_response =
  br_status :: nat
  br_headers :: 'h
  br_body :: string

text \<open>A body is whole, or reading it failed with an error, over HTTP or over Noise.\<close>

datatype reply_body = WholeBody string | LostHttpBody string | LostNoiseBody string

datatype 'h peer_reply = SendFailed app_error | PeerReply nat 'h reply_body

datatype 'h forward_outcome =
    Surface "'h buffered_response"
  | StreamingSurface nat 'h
  | Heal string "'h buffered_response"
  | PeerDraining
  | Transport app_error
  | ProbeDenied

definition is_success :: "nat \<Rightarrow> bool" where
  "is_success status = (200 \<le> status \<and> status < 300)"

definition is_client_error :: "nat \<Rightarrow> bool" where
  "is_client_error status = (400 \<le> status \<and> status < 500)"

definition is_server_error :: "nat \<Rightarrow> bool" where
  "is_server_error status = (500 \<le> status \<and> status < 600)"

definition peer_status_is_failure :: "nat \<Rightarrow> bool" where
  "peer_status_is_failure status = (is_server_error status \<or> status = 401 \<or> status = 403)"

text \<open>The flag tells that routing loops that wait for capacity are woken.\<close>

definition record_peer_status ::
  "circuit_config \<Rightarrow> instant \<Rightarrow> string \<Rightarrow> nat \<Rightarrow> bool \<Rightarrow> circuits \<Rightarrow> bool \<times> circuits" where
  "record_peer_status cc now peer status ticket m =
     (if peer_status_is_failure status then (False, record_failure cc now peer ticket m)
      else record_success cc now peer ticket m)"

definition HEALABLE_PEER_ERROR_TYPES :: "string list" where
  "HEALABLE_PEER_ERROR_TYPES = [''queue_timeout'', ''queue_full'', ''no_capacity'', ''insufficient_resources'',
     ''peer_unavailable_retry'', ''spawn_failures_exhausted'']"

section \<open>Classification\<close>

definition reply_error :: "'j json_ops \<Rightarrow> nat \<Rightarrow> string \<Rightarrow> 'j option" where
  "reply_error J status body =
     (if is_server_error status then Option.bind (jo_parse J body) (\<lambda>v. jo_get J v ''error'') else None)"

definition error_field :: "'j json_ops \<Rightarrow> string \<Rightarrow> 'j option \<Rightarrow> string option" where
  "error_field J name e = Option.bind e (\<lambda>v. Option.bind (jo_get J v name) (jo_str J))"

definition classify_buffered_peer_response ::
  "'j json_ops \<Rightarrow> circuit_config \<Rightarrow> instant \<Rightarrow> string \<Rightarrow> bool \<Rightarrow> 'h buffered_response \<Rightarrow> circuits \<Rightarrow>
   'h forward_outcome \<times> bool \<times> circuits" where
  "classify_buffered_peer_response J cc now peer ticket resp m =
     (let err = reply_error J (br_status resp) (br_body resp);
          error_type = error_field J ''type'' err
      in if br_status resp = 503 \<and> error_type = Some ''draining'' then
           (if error_field J ''origin_node_id'' err = Some peer then PeerDraining else Surface resp, False, m)
         else
           (let (wake, m') = record_peer_status cc now peer (br_status resp) ticket m in
            case error_type of
              Some t \<Rightarrow>
                if is_server_error (br_status resp) \<and> t \<in> set HEALABLE_PEER_ERROR_TYPES
                then (Heal t resp, wake, m') else (Surface resp, wake, m')
            | None \<Rightarrow> (Surface resp, wake, m')))"

definition classify_peer_response ::
  "'j json_ops \<Rightarrow> circuit_config \<Rightarrow> instant \<Rightarrow> string \<Rightarrow> bool \<Rightarrow> bool \<Rightarrow> nat \<Rightarrow> 'h \<Rightarrow> reply_body \<Rightarrow> circuits \<Rightarrow>
   'h forward_outcome \<times> bool \<times> circuits" where
  "classify_peer_response J cc now peer ticket response_streaming status headers body m =
     (if response_streaming \<and> is_success status then
        (let (wake, m') = record_peer_status cc now peer status False m in (StreamingSurface status headers, wake, m'))
      else case body of
        LostHttpBody e \<Rightarrow>
          (Transport (new_app_error 502 (''Failed to read peer response body from '' @ peer @ '': '' @ e) ''peer_body_read_failed''),
           False, record_failure cc now peer ticket m)
      | LostNoiseBody e \<Rightarrow>
          (Transport (new_app_error 502 (''Failed to read Noise peer response body from '' @ peer @ '': '' @ e) ''peer_body_read_failed''),
           False, record_failure cc now peer ticket m)
      | WholeBody bytes \<Rightarrow> classify_buffered_peer_response J cc now peer ticket
          \<lparr>br_status = status, br_headers = headers, br_body = bytes\<rparr> m)"

definition forward_result ::
  "'j json_ops \<Rightarrow> circuit_config \<Rightarrow> instant \<Rightarrow> string \<Rightarrow> bool \<Rightarrow> bool \<Rightarrow> 'h peer_reply \<Rightarrow> circuits \<Rightarrow>
   'h forward_outcome \<times> bool \<times> circuits" where
  "forward_result J cc now peer ticket response_streaming reply m = (case reply of
     SendFailed e \<Rightarrow> (Transport e, False, record_failure cc now peer ticket m)
   | PeerReply status headers body \<Rightarrow>
       classify_peer_response J cc now peer ticket response_streaming status headers body m)"

text \<open>\<open>locked\<close>: whether the circuits could be read at once; \<open>meanwhile\<close>: what others did to them.\<close>

definition attempt_peer_forward ::
  "'j json_ops \<Rightarrow> circuit_config \<Rightarrow> bool \<Rightarrow> instant \<Rightarrow> instant \<Rightarrow> (circuits \<Rightarrow> circuits) \<Rightarrow> string \<Rightarrow> bool \<Rightarrow> 'h peer_reply \<Rightarrow>
   circuits \<Rightarrow> 'h forward_outcome \<times> bool \<times> circuits" where
  "attempt_peer_forward J cc locked now later meanwhile peer response_streaming reply m =
     (case try_claim_dispatch_sync cc locked now peer m of
        (Deny, m') \<Rightarrow> (ProbeDenied, False, m')
      | (Admit ticket, m') \<Rightarrow>
          forward_result J cc later peer ticket response_streaming reply (meanwhile m'))"

section \<open>Recovery needs a complete reply\<close>

lemma failure_keeps_open: "cb_state c \<noteq> Closed \<Longrightarrow> cb_state (failure_circuit cfg now ticket c) \<noteq> Closed"
  by (cases "cb_state c") (auto simp: circuit_defs reset_probe_def Let_def)

lemma success_needs_ticket: "cb_state c \<noteq> Closed \<Longrightarrow> cb_state (snd (success_circuit cfg now False c)) \<noteq> Closed"
  by (cases "cb_state c") (auto simp: circuit_defs)

lemma not_closed_entry: "get_state peer m \<noteq> Closed \<Longrightarrow> cb_state (entry_or_default now peer m) \<noteq> Closed"
  by (auto simp: get_state_def entry_or_default_def split: option.splits)

lemma record_failure_keeps_open:
  "get_state peer m \<noteq> Closed \<Longrightarrow> get_state peer (record_failure cc now peer ticket m) \<noteq> Closed"
  using failure_keeps_open [OF not_closed_entry, of peer m]
  by (auto simp: record_failure_def get_state_def hm_simps)

lemma record_success_needs_ticket:
  "get_state peer m \<noteq> Closed \<Longrightarrow> get_state peer (snd (record_success cc now peer False m)) \<noteq> Closed"
  using success_needs_ticket [OF not_closed_entry, of peer m]
  by (auto simp: record_success_def get_state_def hm_simps case_prod_beta)

text \<open>C27. A dispatch closes a circuit that was not closed only if it held the probe ticket and the peer sent a
  complete reply that is neither a failure nor a drain notice: a failed send, a body that breaks off, an
  error of the server, and the head of a stream alone never take a peer back into service.\<close>

theorem only_full_replies_close_a_circuit:
  assumes "get_state peer m \<noteq> Closed"
    and "get_state peer (snd (snd (forward_result J cc now peer ticket response_streaming reply m))) = Closed"
  shows "ticket \<and> (\<exists>status headers body. reply = PeerReply status headers (WholeBody body)
    \<and> \<not> peer_status_is_failure status \<and> \<not> (response_streaming \<and> is_success status))"
proof (cases reply)
  case (SendFailed e)
  then show ?thesis using assms record_failure_keeps_open by (simp add: forward_result_def)
next
  case (PeerReply status headers body)
  have rec: "get_state peer (snd (record_peer_status cc now peer status ticket m)) = Closed \<Longrightarrow> ticket \<and> \<not> peer_status_is_failure status"
    for ticket
    using assms(1) record_failure_keeps_open record_success_needs_ticket
    by (cases ticket) (auto simp: record_peer_status_def split: if_splits)
  show ?thesis
  proof (cases "response_streaming \<and> is_success status")
    case True
    then show ?thesis using assms(2) PeerReply rec [of False] by (auto simp: forward_result_def classify_peer_response_def split: prod.splits)
  next
    case False
    show ?thesis
    proof (cases body)
      case (WholeBody bytes)
      then have "get_state peer (snd (record_peer_status cc now peer status ticket m)) = Closed"
        using assms False PeerReply
        by (auto simp: forward_result_def classify_peer_response_def classify_buffered_peer_response_def Let_def
            split: if_splits prod.splits option.splits)
      then show ?thesis using rec False PeerReply WholeBody by blast
    qed (use assms False PeerReply record_failure_keeps_open in \<open>auto simp: forward_result_def classify_peer_response_def\<close>)
  qed
qed


theorem only_full_replies_close_a_circuit_witness:
  "True \<and> (\<exists>status headers body. PeerReply 200 () (WholeBody ''ok'') = PeerReply status headers (WholeBody body)
    \<and> \<not> peer_status_is_failure status \<and> \<not> (False \<and> is_success status))"
proof (rule only_full_replies_close_a_circuit)
  let ?m = "[(''b'', (default_circuit 0)\<lparr>cb_state := HalfOpen, success_count := 5\<rparr>)]"
  show "get_state ''b'' ?m \<noteq> Closed" by (simp add: get_state_def)
  show "get_state ''b'' (snd (snd (forward_result digit_json default_circuit_config 7 ''b'' True False (PeerReply 200 () (WholeBody ''ok'')) ?m))) = Closed"
    by (simp add: forward_result_def classify_peer_response_def classify_buffered_peer_response_def record_peer_status_def
        peer_status_is_failure_def is_server_error_def reply_error_def error_field_def record_success_def success_circuit_def
        default_circuit_config_def default_circuit_def entry_or_default_def get_state_def close_after_recovery_def reset_probe_def Let_def)
qed

end
