(* ===== verification/Route.thy ===== *)
theory Route
  imports Peer_Forward
begin

text \<open>
  The routing loop of \<^verbatim>\<open>route_request\<close> in \<^verbatim>\<open>src/router.rs\<close>, for a model of the local cookbook and for one that only
  peers have, with the fallback to peers after failed starts. One turn of the loop is a function; what
  the turn sees of the world (the readings of the flags and of the clock, the peers, the reply, how a wait
  ended) is its argument. Of the counters, the state keeps this request's own part: whether it is counted as
  current, the slot and the forward guards it holds, and the errors it has counted.
\<close>

section \<open>State\<close>

record route_state =
  ro_circuits :: circuits
  ro_drained :: "string set"
  ro_exclude :: "string option"
  ro_last_denied :: "string option"
  ro_model_found :: bool
  ro_fallback :: bool
  ro_current :: nat
  ro_slot :: bool
  ro_errors :: nat
  ro_guards :: "forward_guard list"

definition route_start :: "circuits \<Rightarrow> route_state" where
  "route_start m = \<lparr>ro_circuits = m, ro_drained = {}, ro_exclude = None, ro_last_denied = None, ro_model_found = False,
     ro_fallback = False, ro_current = 1, ro_slot = False, ro_errors = 0, ro_guards = []\<rparr>"

text \<open>What the request is: its model as written, its local resolution, and whether it came from a peer.\<close>

record job =
  jb_model :: string
  jb_local :: "(string \<times> profile) option"
  jb_hops :: nat
  jb_streaming :: bool

record flags =
  fl_draining :: bool
  fl_expired :: bool
  fl_gone :: bool

datatype wait_end = Woken | WaitExpired | WaitGone

text \<open>How the local part of a turn went; the text of an error is that of its cause.\<close>

datatype local_end =
    AcquireGone
  | AcquireFailed node_error string
  | BadApiKey
  | GenerationGone
  | LocalSendFailed string
  | LocalServed
  | LocalBodyLost

record 'h turn =
  tn_route :: route_env
  tn_peers :: peers
  tn_pending :: forwards
  tn_self :: peer_state
  tn_can_serve :: bool
  tn_estimate :: "u64 \<times> u64"
  tn_known :: bool
  tn_top :: flags
  tn_chosen :: flags
  tn_dispatch :: flags
  tn_gone :: bool
  tn_later :: instant
  tn_meanwhile :: "circuits \<Rightarrow> circuits"
  tn_reply :: "'h peer_reply"
  tn_draining_before :: bool
  tn_wait :: wait_end
  tn_draining_after :: bool
  tn_local :: local_end

text \<open>The answers: an error of this node, a reply of a peer with its status, or the answer of an instance.\<close>

datatype answer = Fails app_error | Relays nat | ServesLocally bool

section \<open>Guards and counters\<close>

definition open_forward :: "string \<Rightarrow> route_state \<Rightarrow> route_state" where
  "open_forward peer st = st\<lparr>ro_guards := \<lparr>fg_peer = peer, fg_released = False\<rparr> # ro_guards st\<rparr>"

definition drop_forward :: "route_state \<Rightarrow> route_state" where
  "drop_forward st = st\<lparr>ro_guards := (case ro_guards st of [] \<Rightarrow> [] | g # gs \<Rightarrow> g\<lparr>fg_released := True\<rparr> # gs)\<rparr>"

text \<open>\<^verbatim>\<open>Drop for RequestGuard\<close>, and the clean-up that takes over from a completed guard.\<close>

definition drop_request :: "route_state \<Rightarrow> route_state" where
  "drop_request st = st\<lparr>ro_current := ro_current st - 1, ro_slot := False\<rparr>"

definition run_cleanup :: "route_state \<Rightarrow> route_state" where
  "run_cleanup st = drop_forward (drop_request st)"

definition count_error :: "route_state \<Rightarrow> route_state" where
  "count_error st = st\<lparr>ro_errors := ro_errors st + 1\<rparr>"

definition fail_with :: "app_error \<Rightarrow> route_state \<Rightarrow> answer option \<times> route_state" where
  "fail_with e st = (Some (Fails e), drop_forward (drop_request st))"

abbreviation fail_counted :: "app_error \<Rightarrow> route_state \<Rightarrow> answer option \<times> route_state" where
  "fail_counted e st \<equiv> fail_with e (count_error st)"

definition routing_preflight ::
  "string \<Rightarrow> flags \<Rightarrow> route_state \<Rightarrow> (route_state \<Rightarrow> answer option \<times> route_state) \<Rightarrow> answer option \<times> route_state" where
  "routing_preflight nid f st go =
     (if fl_draining f then fail_counted (node_draining nid) st
      else if fl_expired f then fail_counted (node_error_to_app_error [] QueueTimeout nid) st
      else if fl_gone f then fail_with client_disconnected st
      else go st)"

definition wait_for_capacity ::
  "string \<Rightarrow> wait_end \<Rightarrow> route_state \<Rightarrow> (route_state \<Rightarrow> answer option \<times> route_state) \<Rightarrow> answer option \<times> route_state" where
  "wait_for_capacity nid w st go = (case w of
     Woken \<Rightarrow> go st
   | WaitExpired \<Rightarrow> fail_counted (node_error_to_app_error [] QueueTimeout nid) st
   | WaitGone \<Rightarrow> fail_with client_disconnected st)"

section \<open>Dispatch to a peer\<close>

abbreviation turn_config :: "'h turn \<Rightarrow> node_config" where
  "turn_config t \<equiv> re_config (tn_route t)"

definition turn_env :: "'h turn \<Rightarrow> route_state \<Rightarrow> route_env" where
  "turn_env t st = (tn_route t)\<lparr>re_circuits := ro_circuits st\<rparr>"

text \<open>
  Track the forward, check once more, and send; \<open>react\<close> handles the outcome. A client that goes away while
  the peer works takes the attempt with it, after the claim of the circuit.
\<close>

definition dispatch ::
  "'j json_ops \<Rightarrow> 'h turn \<Rightarrow> bool \<Rightarrow> string \<Rightarrow> route_state \<Rightarrow>
   ('h forward_outcome \<Rightarrow> route_state \<Rightarrow> answer option \<times> route_state) \<Rightarrow> answer option \<times> route_state" where
  "dispatch J t streaming peer st react =
     (let cc = circuit_breaker (cluster (turn_config t)); locked = re_lock_free (tn_route t); now = re_instant (tn_route t)
      in routing_preflight (node_id (turn_config t)) (tn_dispatch t) (open_forward peer st)
        (\<lambda>st. if tn_gone t
          then fail_with client_disconnected
            (st\<lparr>ro_circuits := tn_meanwhile t (snd (try_claim_dispatch_sync cc locked now peer (ro_circuits st)))\<rparr>)
          else case attempt_peer_forward J cc locked now (tn_later t) (tn_meanwhile t) peer streaming (tn_reply t) (ro_circuits st) of
            (outcome, _, m) \<Rightarrow> react outcome (st\<lparr>ro_circuits := m\<rparr>)))"

definition note_denied :: "string \<Rightarrow> route_state \<Rightarrow> route_state" where
  "note_denied peer st = st\<lparr>ro_last_denied := Some peer, ro_exclude := Some peer\<rparr>"

definition not_found_error :: "string \<Rightarrow> app_error" where
  "not_found_error requested =
     model_not_found (quoted_model requested @ '' not found in local cookbook or any peer'')"

abbreviation go_on :: "route_state \<Rightarrow> answer option \<times> route_state" where
  "go_on st \<equiv> (None, st)"

section \<open>A model that only peers have\<close>

definition react_unknown ::
  "'h turn \<Rightarrow> string \<Rightarrow> 'h forward_outcome \<Rightarrow> route_state \<Rightarrow> answer option \<times> route_state" where
  "react_unknown t peer outcome st =
     (let nid = node_id (turn_config t);
          wait_then = (\<lambda>st. if tn_draining_before t then fail_counted (node_draining nid) st
            else wait_for_capacity nid (tn_wait t) st go_on)
      in case outcome of
           StreamingSurface status _ \<Rightarrow> (Some (Relays status), st)
         | Surface r \<Rightarrow> (Some (Relays (br_status r)), st)
         | PeerDraining \<Rightarrow> go_on ((drop_forward st)\<lparr>ro_drained := insert peer (ro_drained st)\<rparr>)
         | Heal _ _ \<Rightarrow> wait_then (drop_forward st)
         | Transport _ \<Rightarrow> wait_then (drop_forward st)
         | ProbeDenied \<Rightarrow>
             (if ro_last_denied st = Some peer then wait_then (note_denied peer (drop_forward st))
              else go_on (note_denied peer (drop_forward st))))"

definition excluded_now :: "route_state \<Rightarrow> string set" where
  "excluded_now st = ro_drained st \<union> set_option (ro_exclude st)"

definition unknown_turn :: "'j json_ops \<Rightarrow> job \<Rightarrow> 'h turn \<Rightarrow> route_state \<Rightarrow> answer option \<times> route_state" where
  "unknown_turn J jb t st0 =
     (let nid = node_id (turn_config t) in
      routing_preflight nid (tn_top t) st0 (\<lambda>st0.
        let st = st0\<lparr>ro_exclude := None\<rparr> in
        case find_peer_for_model (turn_env t st0) (tn_peers t) (jb_model jb) (excluded_now st0) of
          None \<Rightarrow>
            if tn_draining_before t then fail_counted (node_draining nid) st
            else if \<not> ro_model_found st \<and> \<not> any_peer_advertises_model (turn_env t st0) (tn_peers t) (jb_model jb)
            then fail_counted (not_found_error (jb_model jb)) st
            else wait_for_capacity nid (tn_wait t) st go_on
        | Some peer \<Rightarrow>
            dispatch J t (jb_streaming jb) (ps_node_id peer) (st\<lparr>ro_model_found := True\<rparr>) (react_unknown t (ps_node_id peer))))"

section \<open>A model of the local cookbook\<close>

definition react_remote ::
  "'h turn \<Rightarrow> string \<Rightarrow> 'h forward_outcome \<Rightarrow> route_state \<Rightarrow> answer option \<times> route_state" where
  "react_remote t peer outcome st =
     (let nid = node_id (turn_config t);
          retry = (\<lambda>skip st. if tn_draining_before t then fail_counted (node_draining nid) st
            else (if skip then (\<lambda>go. go st) else wait_for_capacity nid (tn_wait t) st)
              (\<lambda>st. if tn_draining_after t then fail_counted (node_draining nid) st else go_on st))
      in case outcome of
           StreamingSurface status _ \<Rightarrow> (Some (Relays status), st)
         | Surface r \<Rightarrow> (Some (Relays (br_status r)), st)
         | PeerDraining \<Rightarrow> retry True ((drop_forward st)\<lparr>ro_drained := insert peer (ro_drained st)\<rparr>)
         | Heal _ _ \<Rightarrow> retry False (drop_forward st)
         | Transport _ \<Rightarrow> retry False (drop_forward st)
         | ProbeDenied \<Rightarrow> retry (ro_last_denied st \<noteq> Some peer) (note_denied peer (drop_forward st)))"

text \<open>The request got a slot and lost it, or is served, or could not get one.\<close>

definition bad_api_key :: app_error where
  "bad_api_key = internal_server_error ''Invalid API key configuration for backend instance''"

definition serve_locally :: "string \<Rightarrow> local_end \<Rightarrow> route_state \<Rightarrow> answer option \<times> route_state" where
  "serve_locally nid l st = (let held = st\<lparr>ro_slot := True\<rparr> in case l of
     AcquireGone \<Rightarrow> fail_with client_disconnected st
   | AcquireFailed e inner \<Rightarrow>
       (if e = SpawnFailuresExhausted then go_on (st\<lparr>ro_fallback := True\<rparr>)
        else fail_counted (node_error_to_app_error inner e nid) st)
   | BadApiKey \<Rightarrow> fail_with bad_api_key held
   | GenerationGone \<Rightarrow> fail_with client_disconnected held
   | LocalSendFailed detail \<Rightarrow> fail_counted (upstream_error (''Upstream error: '' @ detail)) held
   | LocalServed \<Rightarrow> (Some (ServesLocally True), held)
   | LocalBodyLost \<Rightarrow> (Some (ServesLocally False), count_error held))"

definition local_turn ::
  "'j json_ops \<Rightarrow> job \<Rightarrow> string \<Rightarrow> profile \<Rightarrow> 'h turn \<Rightarrow> route_state \<Rightarrow> answer option \<times> route_state" where
  "local_turn J jb model_name p t st0 =
     (let nid = node_id (turn_config t) in
      routing_preflight nid (tn_top t) st0 (\<lambda>st0.
        let st = st0\<lparr>ro_exclude := None\<rparr> in
        case select_best_node (turn_env t st0) (tn_can_serve t) (tn_self t) (tn_peers t) (tn_pending t) (tn_estimate t)
               model_name (p_id p) (0 < jb_hops jb) (excluded_now st0) of
          None \<Rightarrow>
            if \<not> tn_known t then fail_counted (not_found_error (jb_model jb)) st
            else if tn_draining_before t then fail_counted (node_draining nid) st
            else wait_for_capacity nid (tn_wait t) st go_on
        | Some node \<Rightarrow>
            routing_preflight nid (tn_chosen t) st (\<lambda>st.
              if ps_node_id node = nid then serve_locally nid (tn_local t) st
              else dispatch J t (jb_streaming jb) (ps_node_id node) st (react_remote t (ps_node_id node)))))"

section \<open>Falling back to peers\<close>

definition give_up :: "string \<Rightarrow> route_state \<Rightarrow> answer option \<times> route_state" where
  "give_up nid st = fail_counted (node_error_to_app_error [] SpawnFailuresExhausted nid) st"

definition relay_counted :: "nat \<Rightarrow> route_state \<Rightarrow> answer option \<times> route_state" where
  "relay_counted status st =
     (Some (Relays status), if is_client_error status \<or> is_server_error status then count_error st else st)"

definition react_fallback ::
  "'h turn \<Rightarrow> string \<Rightarrow> 'h forward_outcome \<Rightarrow> route_state \<Rightarrow> answer option \<times> route_state" where
  "react_fallback t peer outcome st = (case outcome of
     PeerDraining \<Rightarrow> go_on ((drop_forward st)\<lparr>ro_drained := insert peer (ro_drained st)\<rparr>)
   | ProbeDenied \<Rightarrow> give_up (node_id (turn_config t)) st
   | Transport e \<Rightarrow>
       (if er_type (ap_error e) = ''peer_body_read_failed'' then fail_counted (upstream_error (er_message (ap_error e))) st
        else give_up (node_id (turn_config t)) st)
   | StreamingSurface status _ \<Rightarrow> relay_counted status st
   | Surface r \<Rightarrow> relay_counted (br_status r) st
   | Heal _ r \<Rightarrow> relay_counted (br_status r) st)"

definition fallback_turn :: "'j json_ops \<Rightarrow> job \<Rightarrow> 'h turn \<Rightarrow> route_state \<Rightarrow> answer option \<times> route_state" where
  "fallback_turn J jb t st =
     (let nid = node_id (turn_config t) in
      routing_preflight nid (tn_top t) st (\<lambda>st.
        case find_peer_for_model (turn_env t st) (tn_peers t) (jb_model jb) (ro_drained st) of
          None \<Rightarrow> give_up nid st
        | Some peer \<Rightarrow> dispatch J t (jb_streaming jb) (ps_node_id peer) st (react_fallback t (ps_node_id peer))))"

section \<open>The loop\<close>

definition route_turn :: "'j json_ops \<Rightarrow> job \<Rightarrow> 'h turn \<Rightarrow> route_state \<Rightarrow> answer option \<times> route_state" where
  "route_turn J jb t st = (case jb_local jb of
     None \<Rightarrow> unknown_turn J jb t st
   | Some (model_name, p) \<Rightarrow> if ro_fallback st then fallback_turn J jb t st else local_turn J jb model_name p t st)"

fun route_run :: "'j json_ops \<Rightarrow> job \<Rightarrow> 'h turn list \<Rightarrow> route_state \<Rightarrow> answer option \<times> route_state" where
  "route_run J jb [] st = (None, st)"
| "route_run J jb (t # ts) st = (case route_turn J jb t st of
     (None, st') \<Rightarrow> route_run J jb ts st' | (Some a, st') \<Rightarrow> (Some a, st'))"


text \<open>
  The handler: the checks on arrival, the local resolution of the name, the checks of the profile, and the
  loop. The state is \<open>None\<close> for a request that is refused before it is counted; the answer is \<open>None\<close> while the
  request is still in the loop after the given turns.
\<close>

definition begin_job ::
  "(profile \<Rightarrow> string option) \<Rightarrow> routed \<Rightarrow> (string \<times> profile) option \<Rightarrow> (job, app_error) result" where
  "begin_job args_hash r found =
     (let jb = \<lparr>jb_model = rt_model r, jb_local = found, jb_hops = rt_hops r, jb_streaming = rt_streaming r\<rparr>
      in case found of
           None \<Rightarrow> Ok jb
         | Some (_, p) \<Rightarrow> (case ensure_profile_supports_endpoint p (rt_endpoint r) (rt_model r) of
             Inl e \<Rightarrow> Err e
           | Inr _ \<Rightarrow> (case args_hash p of
               None \<Rightarrow> Err (internal_server_error ''Failed to compute args_hash'')
             | Some _ \<Rightarrow> Ok jb)))"

definition route_request ::
  "'h header_ops \<Rightarrow> 'j json_ops \<Rightarrow> node_config \<Rightarrow> bool \<Rightarrow> (string \<Rightarrow> (string \<times> profile) option) \<Rightarrow> (profile \<Rightarrow> string option) \<Rightarrow>
   'h ingress \<Rightarrow> 'h turn list \<Rightarrow> circuits \<Rightarrow> answer option \<times> route_state option" where
  "route_request H J cfg is_draining resolve_model args_hash req turns m =
     (case admit_request H J cfg is_draining req of
        Inl e \<Rightarrow> (Some (Fails e), None)
      | Inr r \<Rightarrow> (case begin_job args_hash r (resolve_model (rt_model r)) of
          Inl e \<Rightarrow> (Some (Fails e), None)
        | Inr jb \<Rightarrow> (case route_run J jb turns (route_start m) of (a, st) \<Rightarrow> (a, Some st))))"

section \<open>The books of a request\<close>

definition all_released :: "forward_guard list \<Rightarrow> bool" where
  "all_released gs = list_all fg_released gs"

text \<open>Between turns; during a turn, when only the newest guard may be live; and after the end.\<close>

definition running :: "route_state \<Rightarrow> bool" where
  "running st \<longleftrightarrow> ro_current st = 1 \<and> \<not> ro_slot st \<and> ro_errors st = 0 \<and> all_released (ro_guards st)"

definition sending :: "route_state \<Rightarrow> bool" where
  "sending st \<longleftrightarrow> ro_current st = 1 \<and> ro_errors st = 0 \<and> all_released (tl (ro_guards st))"

definition settled :: "route_state \<Rightarrow> bool" where
  "settled st \<longleftrightarrow> ro_current st = 0 \<and> \<not> ro_slot st \<and> all_released (ro_guards st)"

definition after_answer :: "answer \<Rightarrow> route_state \<Rightarrow> route_state" where
  "after_answer a st = (case a of Fails _ \<Rightarrow> st | _ \<Rightarrow> run_cleanup st)"

text \<open>
  How many errors an answer has to be counted as: an error of this node counts once, except that a client
  that went away is none; a reply relayed from a peer counts only after the fallback, by its status.
\<close>

definition errors_match :: "bool \<Rightarrow> answer \<Rightarrow> nat \<Rightarrow> bool" where
  "errors_match fallback a n = (case a of
     Fails e \<Rightarrow> n \<le> 1 \<and> (ap_status e = 499 \<longrightarrow> n = 0) \<and> (ap_status e \<noteq> 499 \<and> e \<noteq> bad_api_key \<longrightarrow> n = 1)
   | Relays status \<Rightarrow> n = (if fallback \<and> (is_client_error status \<or> is_server_error status) then 1 else 0)
   | ServesLocally whole \<Rightarrow> n = (if whole then 0 else 1))"

definition books_ok :: "answer option \<times> route_state \<Rightarrow> bool" where
  "books_ok r = (case fst r of
     None \<Rightarrow> running (snd r)
   | Some a \<Rightarrow> settled (after_answer a (snd r)) \<and> errors_match (ro_fallback (snd r)) a (ro_errors (snd r)))"

lemma app_error_status [simp]:
  "ap_status (new_app_error s m y) = s" "ap_status (with_header n v e) = ap_status e" "ap_status (with_param q e) = ap_status e"
  by (simp_all add: new_app_error_def with_header_def with_param_def)

lemma node_draining_status [simp]: "ap_status (node_draining nid) = 503"
  by (simp add: node_draining_def service_unavailable_def Let_def)

lemma node_error_status: "ap_status (node_error_to_app_error inner e nid) \<noteq> 499"
  by (cases e) (simp_all add: node_error_to_app_error_def model_not_found_def service_unavailable_def internal_server_error_def)

lemma fail_with_books:
  "sending st \<Longrightarrow> ap_status e = 499 \<or> e = bad_api_key \<Longrightarrow> books_ok (fail_with e st)"
  by (cases "ro_guards st")
    (auto simp: books_ok_def fail_with_def after_answer_def settled_def sending_def errors_match_def drop_forward_def
      drop_request_def all_released_def bad_api_key_def internal_server_error_def)

lemma fail_counted_books: "sending st \<Longrightarrow> ap_status e \<noteq> 499 \<Longrightarrow> books_ok (fail_counted e st)"
  by (cases "ro_guards st")
    (auto simp: books_ok_def fail_with_def count_error_def after_answer_def settled_def sending_def errors_match_def
      drop_forward_def drop_request_def all_released_def)

lemma running_sending: "running st \<Longrightarrow> sending st"
  by (cases "ro_guards st") (auto simp: running_def sending_def all_released_def)

lemma preflight_books: "sending st \<Longrightarrow> books_ok (go st) \<Longrightarrow> books_ok (routing_preflight nid f st go)"
  by (simp add: routing_preflight_def fail_counted_books fail_with_books node_error_status client_disconnected_def)

lemma wait_books: "running st \<Longrightarrow> books_ok (go st) \<Longrightarrow> books_ok (wait_for_capacity nid w st go)"
  by (cases w) (simp_all add: wait_for_capacity_def fail_counted_books fail_with_books node_error_status client_disconnected_def
      running_sending)

lemma go_on_books: "running st \<Longrightarrow> books_ok (go_on st)"
  by (simp add: books_ok_def)

text \<open>A guard that was just opened and one that is dropped again.\<close>

lemma open_sending: "running st \<Longrightarrow> sending (open_forward peer st) \<and> \<not> ro_slot (open_forward peer st)"
  by (simp add: running_def sending_def open_forward_def)

lemma drop_running: "sending st \<Longrightarrow> \<not> ro_slot st \<Longrightarrow> running (drop_forward st)"
  by (cases "ro_guards st") (auto simp: running_def sending_def drop_forward_def all_released_def)

lemma running_fields [simp]:
  "running (st\<lparr>ro_drained := d\<rparr>) = running st" "running (st\<lparr>ro_exclude := x\<rparr>) = running st"
  "running (st\<lparr>ro_model_found := b\<rparr>) = running st" "running (st\<lparr>ro_fallback := b\<rparr>) = running st"
  "running (note_denied peer st) = running st" "sending (st\<lparr>ro_circuits := m\<rparr>) = sending st"
  by (simp_all add: running_def sending_def note_denied_def)

lemma dispatch_books:
  assumes "running st" "\<And>outcome s. sending s \<Longrightarrow> \<not> ro_slot s \<Longrightarrow> ro_fallback s = ro_fallback st \<Longrightarrow> books_ok (react outcome s)"
  shows "books_ok (dispatch J t streaming peer st react)"
  unfolding dispatch_def Let_def
proof (rule preflight_books)
  note opened = open_sending [OF assms(1), of peer]
  then show "sending (open_forward peer st)" by simp
  have fb: "ro_fallback (open_forward peer st) = ro_fallback st" by (simp add: open_forward_def)
  obtain outcome w m where a: "attempt_peer_forward J (circuit_breaker (cluster (turn_config t))) (re_lock_free (tn_route t))
      (re_instant (tn_route t)) (tn_later t) (tn_meanwhile t) peer streaming (tn_reply t) (ro_circuits (open_forward peer st)) = (outcome, w, m)"
    by (rule prod_cases3)
  show "books_ok (if tn_gone t
    then fail_with client_disconnected ((open_forward peer st)\<lparr>ro_circuits := tn_meanwhile t (snd
      (try_claim_dispatch_sync (circuit_breaker (cluster (turn_config t))) (re_lock_free (tn_route t)) (re_instant (tn_route t)) peer
        (ro_circuits (open_forward peer st))))\<rparr>)
    else case attempt_peer_forward J (circuit_breaker (cluster (turn_config t))) (re_lock_free (tn_route t))
      (re_instant (tn_route t)) (tn_later t) (tn_meanwhile t) peer streaming (tn_reply t) (ro_circuits (open_forward peer st)) of
      (outcome, _, m) \<Rightarrow> react outcome ((open_forward peer st)\<lparr>ro_circuits := m\<rparr>))"
    using opened fb assms(2) [of "(open_forward peer st)\<lparr>ro_circuits := m\<rparr>" outcome] a
    by (simp add: fail_with_books client_disconnected_def)
qed

lemma relay_books: "sending st \<Longrightarrow> \<not> ro_slot st \<Longrightarrow> \<not> ro_fallback st \<Longrightarrow> books_ok (Some (Relays status), st)"
  by (cases "ro_guards st") (auto simp: books_ok_def after_answer_def run_cleanup_def settled_def sending_def errors_match_def
      drop_forward_def drop_request_def all_released_def)

lemma relay_counted_books: "sending st \<Longrightarrow> \<not> ro_slot st \<Longrightarrow> ro_fallback st \<Longrightarrow> books_ok (relay_counted status st)"
  by (cases "ro_guards st") (auto simp: books_ok_def relay_counted_def count_error_def after_answer_def run_cleanup_def settled_def
      sending_def errors_match_def drop_forward_def drop_request_def all_released_def)

lemma react_unknown_books: "sending st \<Longrightarrow> \<not> ro_slot st \<Longrightarrow> \<not> ro_fallback st \<Longrightarrow> books_ok (react_unknown t peer outcome st)"
  by (cases outcome) (simp_all add: react_unknown_def Let_def relay_books drop_running go_on_books wait_books fail_counted_books
      running_sending)

lemma react_remote_books: "sending st \<Longrightarrow> \<not> ro_slot st \<Longrightarrow> \<not> ro_fallback st \<Longrightarrow> books_ok (react_remote t peer outcome st)"
  by (cases outcome) (simp_all add: react_remote_def Let_def relay_books drop_running go_on_books wait_books fail_counted_books
      running_sending)

lemma react_fallback_books: "sending st \<Longrightarrow> \<not> ro_slot st \<Longrightarrow> ro_fallback st \<Longrightarrow> books_ok (react_fallback t peer outcome st)"
  by (cases outcome) (simp_all add: react_fallback_def give_up_def relay_counted_books drop_running go_on_books fail_counted_books
      node_error_status upstream_error_def)

lemma local_answer_books:
  "running st \<Longrightarrow> books_ok (Some (ServesLocally True), st\<lparr>ro_slot := True\<rparr>)"
  "running st \<Longrightarrow> books_ok (Some (ServesLocally False), count_error (st\<lparr>ro_slot := True\<rparr>))"
  by (cases "ro_guards st"; simp add: books_ok_def after_answer_def run_cleanup_def settled_def running_def errors_match_def
      count_error_def drop_forward_def drop_request_def all_released_def; fail)+

lemma slot_sending: "running st \<Longrightarrow> sending (st\<lparr>ro_slot := True\<rparr>)"
  using running_sending by (simp add: sending_def)

lemma serve_books: "running st \<Longrightarrow> books_ok (serve_locally nid l st)"
  by (cases l) (simp_all add: serve_locally_def Let_def fail_with_books fail_counted_books node_error_status running_sending go_on_books
      slot_sending local_answer_books client_disconnected_def upstream_error_def)

lemma unknown_books:
  assumes "running st" "\<not> ro_fallback st"
  shows "books_ok (unknown_turn J jb t st)"
  unfolding unknown_turn_def Let_def
  using assms
  by (intro preflight_books)
    (auto simp: running_sending wait_books go_on_books fail_counted_books not_found_error_def model_not_found_def
      intro!: dispatch_books react_unknown_books split: option.split)

lemma fallback_books:
  assumes "running st" "ro_fallback st"
  shows "books_ok (fallback_turn J jb t st)"
  unfolding fallback_turn_def Let_def
  using assms
  by (intro preflight_books)
    (auto simp: running_sending give_up_def fail_counted_books node_error_status
      intro!: dispatch_books react_fallback_books split: option.split)

lemma local_books:
  assumes "running st" "\<not> ro_fallback st"
  shows "books_ok (local_turn J jb model_name p t st)"
  unfolding local_turn_def Let_def
  using assms
  by (intro preflight_books)
    (auto simp: running_sending wait_books go_on_books fail_counted_books not_found_error_def model_not_found_def serve_books
      intro!: preflight_books dispatch_books react_remote_books split: option.split)

lemma keeps_fallback:
  assumes "jb_local jb = None" "fst (route_turn J jb t st) = None"
  shows "ro_fallback (snd (route_turn J jb t st)) = ro_fallback st"
  using assms
  by (auto simp: route_turn_def unknown_turn_def routing_preflight_def wait_for_capacity_def dispatch_def react_unknown_def fail_with_def
      open_forward_def drop_forward_def note_denied_def Let_def split: if_splits option.splits wait_end.splits prod.splits forward_outcome.splits)


lemma turn_books:
  assumes "running st" "jb_local jb = None \<longrightarrow> \<not> ro_fallback st"
  shows "books_ok (route_turn J jb t st)"
  using assms unknown_books fallback_books local_books by (auto simp: route_turn_def split: option.split)

lemma run_books:
  "running st \<Longrightarrow> (jb_local jb = None \<longrightarrow> \<not> ro_fallback st) \<Longrightarrow> books_ok (route_run J jb ts st)"
proof (induction ts arbitrary: st)
  case Nil
  then show ?case by (simp add: go_on_books)
next
  case (Cons t ts)
  obtain r st' where rt: "route_turn J jb t st = (r, st')" by fastforce
  have ok: "books_ok (r, st')" using turn_books [OF Cons.prems, of J t] rt by simp
  show ?case
  proof (cases r)
    case None
    then have "running st'" using ok by (simp add: books_ok_def)
    moreover have "jb_local jb = None \<longrightarrow> \<not> ro_fallback st'"
      using keeps_fallback [of jb J t st] rt None Cons.prems(2) by auto
    ultimately show ?thesis using Cons.IH [of st'] rt None by simp
  qed (use ok rt in simp)
qed


section \<open>Peers that are draining\<close>

lemma find_peer_not_excluded: "find_peer_for_model env ps m excluded = Some p \<Longrightarrow> ps_node_id p \<notin> excluded"
  unfolding find_peer_for_model_eq
proof -
  assume a: "(case sort_key (\<lambda>p. (\<not> has_loaded m p, ps_total_queue_length p)) (filter (forwardable env m excluded) (hm_values ps)) of
    [] \<Rightarrow> None | p # _ \<Rightarrow> Some p) = Some p"
  then obtain ys where "sort_key (\<lambda>p. (\<not> has_loaded m p, ps_total_queue_length p)) (filter (forwardable env m excluded) (hm_values ps)) = p # ys"
    by (auto split: list.splits)
  from sort_key_first(1) [OF this] show ?thesis by (simp add: forwardable_def)
qed

lemma select_not_excluded:
  assumes "select_best_node env can_serve self_peer ps pending estimate m q prefer_local excluded = Some p"
  shows "p = self_peer \<or> ps_node_id p \<notin> excluded"
proof (cases "can_serve \<and> peer_supports_profile self_peer m q \<and> prefer_local")
  case True
  then show ?thesis using assms by (simp add: select_best_node_def Let_def)
next
  case False
  let ?cs = "(if can_serve \<and> peer_supports_profile self_peer m q then [self_peer] else [])
    @ filter (admissible env m q excluded) (hm_values ps)"
  let ?sc = "map (\<lambda>c. (c, calculate_node_score c (m @ '':'' @ q) estimate (effective_current (re_config env) pending c))) ?cs"
  obtain s ys where "sort_key snd ?sc = (p, s) # ys"
    using assms False by (auto simp: select_best_node_def Let_def split: list.splits if_splits)
  from sort_key_first(1) [OF this] have "p \<in> set ?cs" by auto
  then show ?thesis by (auto simp: admissible_def split: if_splits)
qed

definition asked :: "route_state \<Rightarrow> string list" where
  "asked st = map fg_peer (ro_guards st)"

text \<open>What a turn does to the peers asked and to those known to drain.\<close>

definition respects_drains :: "route_state \<Rightarrow> route_state \<Rightarrow> bool" where
  "respects_drains st st' \<longleftrightarrow> ro_drained st \<subseteq> ro_drained st' \<and>
     (\<exists>new. asked st' = new @ asked st \<and> set new \<inter> ro_drained st = {})"

lemma respects_same: "asked st' = asked st \<Longrightarrow> ro_drained st \<subseteq> ro_drained st' \<Longrightarrow> respects_drains st st'"
  by (auto simp: respects_drains_def)

lemma respects_trans: "respects_drains a b \<Longrightarrow> respects_drains b c \<Longrightarrow> respects_drains a c"
  unfolding respects_drains_def
proof (elim conjE exE)
  fix x y
  assume "ro_drained a \<subseteq> ro_drained b" "asked b = x @ asked a" "set x \<inter> ro_drained a = {}"
    "ro_drained b \<subseteq> ro_drained c" "asked c = y @ asked b" "set y \<inter> ro_drained b = {}"
  then have "asked c = (y @ x) @ asked a" "set (y @ x) \<inter> ro_drained a = {}" "ro_drained a \<subseteq> ro_drained c" by auto
  then show "ro_drained a \<subseteq> ro_drained c \<and> (\<exists>new. asked c = new @ asked a \<and> set new \<inter> ro_drained a = {})" by blast
qed

lemma asked_fields [simp]:
  "asked (drop_forward st) = asked st" "asked (drop_request st) = asked st" "asked (count_error st) = asked st"
  "asked (note_denied peer st) = asked st" "asked (st\<lparr>ro_circuits := m\<rparr>) = asked st" "asked (st\<lparr>ro_drained := d\<rparr>) = asked st"
  "asked (st\<lparr>ro_exclude := x\<rparr>) = asked st" "asked (st\<lparr>ro_model_found := b\<rparr>) = asked st" "asked (st\<lparr>ro_fallback := b\<rparr>) = asked st"
  "asked (st\<lparr>ro_slot := b\<rparr>) = asked st" "asked (open_forward peer st) = peer # asked st"
  by (auto simp: asked_def drop_forward_def drop_request_def count_error_def note_denied_def open_forward_def split: list.split)

lemma drained_fields [simp]:
  "ro_drained (drop_forward st) = ro_drained st" "ro_drained (drop_request st) = ro_drained st"
  "ro_drained (count_error st) = ro_drained st" "ro_drained (note_denied peer st) = ro_drained st"
  "ro_drained (open_forward peer st) = ro_drained st"
  by (simp_all add: drop_forward_def drop_request_def count_error_def note_denied_def open_forward_def)

lemma fail_respects [simp]: "respects_drains st (snd (fail_with e st)) "
  by (rule respects_same) (simp_all add: fail_with_def)


lemma fail_counted_respects [simp]: "respects_drains st (snd (fail_counted e st))"
  by (rule respects_same) (simp_all add: fail_with_def)

lemma preflight_respects: "respects_drains st (snd (go st)) \<Longrightarrow> respects_drains st (snd (routing_preflight nid f st go))"
  by (simp add: routing_preflight_def)

lemma wait_respects: "respects_drains st (snd (go st)) \<Longrightarrow> respects_drains st (snd (wait_for_capacity nid w st go))"
  by (cases w) (simp_all add: wait_for_capacity_def)

lemma respects_through:
  "asked s = asked st \<Longrightarrow> ro_drained st \<subseteq> ro_drained s \<Longrightarrow> respects_drains s s' \<Longrightarrow> respects_drains st s'"
  by (rule respects_trans [OF respects_same])

lemma respects_refl [simp]: "respects_drains st st"
  by (rule respects_same) simp_all

lemma dispatch_respects:
  assumes "peer \<notin> ro_drained st" "\<And>outcome s. respects_drains s (snd (react outcome s))"
  shows "respects_drains st (snd (dispatch J t streaming peer st react))"
proof (rule respects_trans)
  show "respects_drains st (open_forward peer st)" using assms(1) by (simp add: respects_drains_def)
  have react: "respects_drains (open_forward peer st) (snd (react outcome ((open_forward peer st)\<lparr>ro_circuits := m\<rparr>)))" for outcome m
    by (rule respects_through [OF _ _ assms(2)]) simp_all
  have fail: "respects_drains (open_forward peer st) (snd (fail_with e ((open_forward peer st)\<lparr>ro_circuits := m\<rparr>)))" for e m
    by (rule respects_through [OF _ _ fail_respects]) simp_all
  show "respects_drains (open_forward peer st) (snd (dispatch J t streaming peer st react))"
    unfolding dispatch_def Let_def
    by (rule preflight_respects) (simp add: react fail split: prod.split)
qed

lemma react_respects:
  "respects_drains s (snd (react_unknown t peer outcome s))"
  "respects_drains s (snd (react_remote t peer outcome s))"
  "respects_drains s (snd (react_fallback t peer outcome s))"
proof -
  have drained: "respects_drains s ((drop_forward s)\<lparr>ro_drained := insert peer (ro_drained s)\<rparr>)"
    by (rule respects_same) auto
  have via: "respects_drains x s' \<Longrightarrow> respects_drains s s'"
    if "x \<in> {drop_forward s, note_denied peer (drop_forward s), (drop_forward s)\<lparr>ro_drained := insert peer (ro_drained s)\<rparr>}" for x s'
    using that by (intro respects_through [of x s s']) auto
  have w: "respects_drains x (snd (wait_for_capacity nid wt x (\<lambda>st. if b then fail_counted e st else go_on st)))"
    "respects_drains x (snd (wait_for_capacity nid wt x go_on))" for x nid wt b e
    by (rule wait_respects; simp)+
  note rules = via [OF _ w(1)] via [OF _ w(2)] via [OF _ fail_counted_respects] via [OF _ respects_refl]
  show "respects_drains s (snd (react_unknown t peer outcome s))"
    by (cases outcome) (simp_all add: react_unknown_def Let_def drained rules)
  show "respects_drains s (snd (react_remote t peer outcome s))"
    by (cases outcome) (simp_all add: react_remote_def Let_def drained rules)
  show "respects_drains s (snd (react_fallback t peer outcome s))"
    by (cases outcome) (auto simp: react_fallback_def give_up_def relay_counted_def drained intro: respects_same)
qed

lemma turn_respects:
  assumes "ps_node_id (tn_self t) = node_id (turn_config t)"
  shows "respects_drains st (snd (route_turn J jb t st))"
proof -
  have same: "respects_drains st s" if "respects_drains (st\<lparr>ro_exclude := None\<rparr>) s \<or> respects_drains (st\<lparr>ro_exclude := None, ro_model_found := True\<rparr>) s" for s
    using that by (elim disjE) (rule respects_through [rotated 2], assumption, simp, simp)+
  have w: "respects_drains x (snd (wait_for_capacity nid wt x go_on))" for x nid wt
    by (rule wait_respects) simp
  have unknown: "respects_drains st (snd (unknown_turn J jb t st))"
    unfolding unknown_turn_def Let_def
    by (rule preflight_respects, rule same)
      (auto simp: w excluded_now_def dest: find_peer_not_excluded intro!: dispatch_respects react_respects split: option.split)
  have fallback: "respects_drains st (snd (fallback_turn J jb t st))"
    unfolding fallback_turn_def Let_def
    by (rule preflight_respects)
      (auto simp: give_up_def dest: find_peer_not_excluded intro!: dispatch_respects react_respects split: option.split)
  have serve: "respects_drains s (snd (serve_locally nid l s))" for nid l s
    by (cases l) (auto simp: serve_locally_def Let_def fail_with_def intro: respects_same)
  have local: "respects_drains st (snd (local_turn J jb m p t st))" for m p
    unfolding local_turn_def Let_def
    by (rule preflight_respects, rule same)
      (auto simp: w serve excluded_now_def assms dest!: select_not_excluded
        intro!: preflight_respects dispatch_respects react_respects split: option.split)
  show ?thesis using unknown fallback local by (auto simp: route_turn_def split: option.split)
qed


lemma run_respects:
  "\<forall>t\<in>set ts. ps_node_id (tn_self t) = node_id (turn_config t) \<Longrightarrow> respects_drains st (snd (route_run J jb ts st))"
proof (induction ts arbitrary: st)
  case (Cons t ts)
  obtain r st' where rt: "route_turn J jb t st = (r, st')" by fastforce
  then have "respects_drains st st'" using turn_respects [of t st J jb] Cons.prems by simp
  then show ?case using rt Cons.IH [of st'] Cons.prems respects_trans by (cases r) auto
qed simp


section \<open>A run\<close>

text \<open>The peer \<^verbatim>\<open>n2\<close> drains; the request goes on to \<^verbatim>\<open>n3\<close>, which answers it.\<close>

definition echo_json :: "string json_ops" where
  "echo_json = \<lparr>jo_parse = Some, jo_get = (\<lambda>v key. Some (if key = ''type'' then ''draining'' else v)), jo_str = Some,
     jo_u64 = (\<lambda>_. None), jo_bool = (\<lambda>_. None), jo_array = (\<lambda>_. None), jo_without = (\<lambda>_ _. None), jo_print = (\<lambda>_. None)\<rparr>"

definition demo_job :: job where
  "demo_job = \<lparr>jb_model = ''m'', jb_local = None, jb_hops = 0, jb_streaming = False\<rparr>"

definition calm :: flags where
  "calm = \<lparr>fl_draining = False, fl_expired = False, fl_gone = False\<rparr>"

definition demo_turn :: "header_list peer_reply \<Rightarrow> header_list turn" where
  "demo_turn reply = \<lparr>tn_route = demo_env,
     tn_peers = [(''n2'', demo_peer ''n2'' [''m''] 0), (''n3'', demo_peer ''n3'' [''m''] 1)], tn_pending = [],
     tn_self = demo_peer ''n1'' [] 0, tn_can_serve = False, tn_estimate = (0, 0), tn_known = False,
     tn_top = calm, tn_chosen = calm, tn_dispatch = calm, tn_gone = False, tn_later = 1, tn_meanwhile = id,
     tn_reply = reply, tn_draining_before = False, tn_wait = Woken, tn_draining_after = False, tn_local = LocalServed\<rparr>"

definition drained_turn :: "header_list turn" where
  "drained_turn = demo_turn (PeerReply 503 [] (WholeBody ''n2''))"

definition served_turn :: "header_list turn" where
  "served_turn = demo_turn (PeerReply 200 [] (WholeBody ''ok''))"

lemma demo_forwardable [simp]:
  "forwardable (demo_env\<lparr>re_circuits := []\<rparr>) ''m'' ex (demo_peer x [''m''] k) = (x \<notin> ex)"
  by (simp add: forwardable_def fresh_def staleness_timeout_def sat_sub_def sat_mul_def circuit_allows_def
      should_allow_sync_def split_request_def demo_route_simps)

lemma demo_choice:
  "find_peer_for_model (demo_env\<lparr>re_circuits := []\<rparr>) [(''n2'', demo_peer ''n2'' [''m''] 0), (''n3'', demo_peer ''n3'' [''m''] 1)]
     ''m'' {} = Some (demo_peer ''n2'' [''m''] 0)"
  "find_peer_for_model (demo_env\<lparr>re_circuits := []\<rparr>) [(''n2'', demo_peer ''n2'' [''m''] 0), (''n3'', demo_peer ''n3'' [''m''] 1)]
     ''m'' {''n2''} = Some (demo_peer ''n3'' [''m''] 1)"
  by (simp_all add: find_peer_for_model_eq has_loaded_def)
     (simp_all add: demo_peer_def)

lemma demo_peer_name [simp]: "ps_node_id (demo_peer x served k) = x"
  by (simp add: demo_peer_def)

lemmas demo_turn_simps = route_turn_def unknown_turn_def routing_preflight_def dispatch_def demo_turn_def demo_job_def calm_def turn_env_def
  route_start_def excluded_now_def open_forward_def react_unknown_def drop_forward_def attempt_peer_forward_def try_claim_dispatch_sync_def
  forward_result_def classify_peer_response_def classify_buffered_peer_response_def reply_error_def error_field_def echo_json_def is_server_error_def

lemma drained_run:
  "route_run echo_json demo_job [drained_turn] (route_start []) = (None, (route_start [])\<lparr>ro_model_found := True, ro_drained := {''n2''},
     ro_guards := [\<lparr>fg_peer = ''n2'', fg_released = True\<rparr>]\<rparr>)"
  using demo_choice(1) by (simp add: demo_turn_simps drained_turn_def Let_def)

lemma route_run_append:
  "route_run J jb ts st = (None, st') \<Longrightarrow> route_run J jb (ts @ us) st = route_run J jb us st'"
  by (induction ts arbitrary: st) (auto split: prod.splits option.splits)

lemma served_run: "fst (route_run echo_json demo_job ([drained_turn] @ [served_turn]) (route_start [])) = Some (Relays 200)"
  unfolding route_run_append [OF drained_run]
  using demo_choice(2)
  by (simp add: served_turn_def demo_turn_simps Let_def record_peer_status_def peer_status_is_failure_def split: prod.splits)

definition demo_ingress :: "header_list ingress" where
  "demo_ingress = \<lparr>in_path = ''/v1/completions'', in_headers = [(''x-api-key'', ''k'')], in_body = BodyRead ''m'', in_fresh_id = ''r''\<rparr>"

lemma demo_admitted:
  "route_request wire_headers echo_json demo_config False (\<lambda>_. None) (\<lambda>_. None) demo_ingress turns m =
     (case route_run echo_json demo_job turns (route_start m) of (a, st) \<Rightarrow> (a, Some st))"
  by (simp add: route_request_def admit_request_def admit_body_def begin_job_def demo_ingress_def demo_job_def echo_json_def
      wire_headers_def current_hops_def ho_get_def read_body_for_def resolve_requested_model_def response_streaming_for_endpoint_def
      check_api_key_auth_def get_header_value_def header_to_str_def allowed_key_matches_def constant_time_eq_def
      demo_config_def Let_def)



end
