(* ===== verification/Trust.thy ===== *)
theory Trust
  imports Config Std_Text
begin

text \<open>
  Which peers a node trusts: \<^verbatim>\<open>src/noise/known_peers.rs\<close>. The time of the first contact is a number;
  its RFC 3339 form is produced and read by a library and given by \<open>time_codec\<close>. Whether writing the
  file succeeded is an argument of the operations that save it.
\<close>

section \<open>Known peers\<close>

record known_peer =
  kp_node_id :: string
  kp_public_key :: string
  kp_first_seen :: nat

type_synonym known_peers_map = "(string, known_peer) hashmap"

datatype trust_decision =
    Trusted
  | TofuAccepted
  | Rejected
  | KeyMismatch string

record time_codec =
  to_rfc3339 :: "nat \<Rightarrow> string"
  parse_time :: "string \<Rightarrow> nat option"

definition normalize_public_key :: "string \<Rightarrow> string" where
  "normalize_public_key key = (case strip_prefix key ''ed25519:'' of
     Some v \<Rightarrow> ''noise25519:'' @ v | None \<Rightarrow> key)"

section \<open>The file\<close>

definition parse_known_line :: "time_codec \<Rightarrow> nat \<Rightarrow> string \<Rightarrow> known_peers_map \<Rightarrow> known_peers_map" where
  "parse_known_line tc now raw m =
     (let line = trim raw in
      if line = [] \<or> starts_with line ''#'' then m
      else
        (let parts = split_whitespace line in
         if length parts < 3 then m
         else hm_insert (parts ! 0)
           \<lparr>kp_node_id = parts ! 0, kp_public_key = parts ! 1,
            kp_first_seen = (case parse_time tc (parts ! 2) of Some t \<Rightarrow> t | None \<Rightarrow> now)\<rparr> m))"

definition parse_known_file :: "time_codec \<Rightarrow> nat \<Rightarrow> string \<Rightarrow> known_peers_map" where
  "parse_known_file tc now content = fold (parse_known_line tc now) (str_lines content) []"

definition known_line :: "time_codec \<Rightarrow> known_peer \<Rightarrow> string" where
  "known_line tc p = kp_node_id p @ '' '' @ kp_public_key p @ '' '' @ to_rfc3339 tc (kp_first_seen p) @ [newline]"

definition save_known :: "time_codec \<Rightarrow> known_peers_map \<Rightarrow> string" where
  "save_known tc m = ''# node_id pubkey first_seen'' @ [newline] @ concat (map (known_line tc) (hm_values m))"

section \<open>Trust decisions\<close>

definition check_peer :: "string \<Rightarrow> string \<Rightarrow> bool \<Rightarrow> string list \<Rightarrow> known_peers_map \<Rightarrow> trust_decision" where
  "check_peer nid public_key tofu_enabled keys m =
     (let presented = normalize_public_key public_key in
      if keys \<noteq> [] \<and> \<not> list_ex (\<lambda>k. normalize_public_key k = presented) keys then Rejected
      else case hm_get m nid of
        Some known \<Rightarrow>
          if normalize_public_key (kp_public_key known) = presented then Trusted
          else KeyMismatch (kp_public_key known)
      | None \<Rightarrow>
          if keys \<noteq> [] then TofuAccepted
          else if tofu_enabled then TofuAccepted else Rejected)"

datatype noise_trust_error =
    PeerNotAllowed string string
  | PeerKeyMismatch string string string
  | SaveFailed

text \<open>The peer is in the map even when the file cannot be written.\<close>

definition add_peer ::
  "bool \<Rightarrow> nat \<Rightarrow> string \<Rightarrow> string \<Rightarrow> known_peers_map \<Rightarrow> (unit, noise_trust_error) result \<times> known_peers_map" where
  "add_peer saved now nid public_key m =
     ((if saved then Ok () else Err SaveFailed),
      hm_insert nid \<lparr>kp_node_id = nid, kp_public_key = public_key, kp_first_seen = now\<rparr> m)"

definition remove_peer ::
  "bool \<Rightarrow> string \<Rightarrow> known_peers_map \<Rightarrow> (bool, noise_trust_error) result \<times> known_peers_map" where
  "remove_peer saved nid m =
     (let removed = (hm_get m nid \<noteq> None) in
      (if removed \<and> \<not> saved then Err SaveFailed else Ok removed, hm_remove nid m))"

definition verify_peer ::
  "cluster_noise_config \<Rightarrow> bool \<Rightarrow> nat \<Rightarrow> string \<Rightarrow> string \<Rightarrow> known_peers_map \<Rightarrow>
   (unit, noise_trust_error) result \<times> known_peers_map" where
  "verify_peer cfg saved now nid public_key m =
     (case check_peer nid public_key (tofu cfg) (noise_allowed_keys cfg) m of
        Trusted \<Rightarrow> (Ok (), m)
      | TofuAccepted \<Rightarrow> add_peer saved now nid public_key m
      | Rejected \<Rightarrow> (Err (PeerNotAllowed nid public_key), m)
      | KeyMismatch known \<Rightarrow> (Err (PeerKeyMismatch nid public_key known), m))"

section \<open>A name stays with its key\<close>

definition bound_key :: "known_peers_map \<Rightarrow> string \<Rightarrow> string option" where
  "bound_key m nid = map_option (\<lambda>k. normalize_public_key (kp_public_key k)) (hm_get m nid)"

definition pinned :: "cluster_noise_config \<Rightarrow> string \<Rightarrow> bool" where
  "pinned cfg key = list_ex (\<lambda>k. normalize_public_key k = normalize_public_key key) (noise_allowed_keys cfg)"

record contact =
  ct_saved :: bool
  ct_now :: nat
  ct_node_id :: string
  ct_key :: string

definition verify_all :: "cluster_noise_config \<Rightarrow> contact list \<Rightarrow> known_peers_map \<Rightarrow> known_peers_map" where
  "verify_all cfg cs m = fold (\<lambda>c m. snd (verify_peer cfg (ct_saved c) (ct_now c) (ct_node_id c) (ct_key c) m)) cs m"

lemma verify_binds:
  "bound_key (snd (verify_peer cfg saved now nid key m)) k =
     (if k = nid \<and> check_peer nid key (tofu cfg) (noise_allowed_keys cfg) m = TofuAccepted
      then Some (normalize_public_key key) else bound_key m k)"
  by (simp add: verify_peer_def add_peer_def bound_key_def hm_simps split: trust_decision.split)

lemma accepts_unbound:
  "check_peer nid key tf ks m = TofuAccepted \<Longrightarrow> bound_key m nid = None"
  by (auto simp: check_peer_def bound_key_def Let_def split: if_splits option.splits)

lemma verify_ok_iff:
  "fst (verify_peer cfg saved now nid key m) = Ok () \<longleftrightarrow>
     (noise_allowed_keys cfg \<noteq> [] \<longrightarrow> pinned cfg key)
     \<and> (case bound_key m nid of
          Some k \<Rightarrow> k = normalize_public_key key
        | None \<Rightarrow> saved \<and> (noise_allowed_keys cfg \<noteq> [] \<or> tofu cfg))"
  by (auto simp: verify_peer_def check_peer_def add_peer_def bound_key_def pinned_def Let_def split: option.splits)


definition demo_noise :: cluster_noise_config where
  "demo_noise = noise (cluster demo_config)"


section \<open>Saving and loading\<close>

text \<open>Names and keys the file format can represent, and times the codec reads back.\<close>

definition storable :: "time_codec \<Rightarrow> known_peer \<Rightarrow> bool" where
  "storable tc p = (plain_word (kp_node_id p) \<and> hd (kp_node_id p) \<noteq> CHR ''#'' \<and> plain_word (kp_public_key p)
     \<and> plain_word (to_rfc3339 tc (kp_first_seen p))
     \<and> parse_time tc (to_rfc3339 tc (kp_first_seen p)) = Some (kp_first_seen p))"

lemma plain_word_ends:
  assumes "plain_word w"
  shows "w \<noteq> []" "\<not> is_white (hd w)" "\<not> is_white (last w)" "newline \<notin> set w"
  using assms by (auto simp: plain_word_def list_all_iff)

definition line_text :: "time_codec \<Rightarrow> known_peer \<Rightarrow> string" where
  "line_text tc p = kp_node_id p @ '' '' @ kp_public_key p @ '' '' @ to_rfc3339 tc (kp_first_seen p)"

lemma parse_line_text:
  assumes "storable tc p"
  shows "parse_known_line tc now (line_text tc p) m = hm_insert (kp_node_id p) p m"
    and "newline \<notin> set (line_text tc p)" and "strip_cr (line_text tc p) = line_text tc p"
proof -
  note ends = plain_word_ends [of "kp_node_id p"] plain_word_ends [of "kp_public_key p"]
    plain_word_ends [of "to_rfc3339 tc (kp_first_seen p)"]
  have s: "plain_word (kp_node_id p)" "plain_word (kp_public_key p)" "plain_word (to_rfc3339 tc (kp_first_seen p))"
    "hd (kp_node_id p) \<noteq> CHR ''#''" using assms by (simp_all add: storable_def)
  have lst: "last (line_text tc p) = last (to_rfc3339 tc (kp_first_seen p))"
    using ends(9) s(3) by (simp add: line_text_def)
  have "trim (line_text tc p) = line_text tc p"
    using ends s lst by (intro trim_id) (auto simp: line_text_def)
  moreover have "split_whitespace (line_text tc p) = [kp_node_id p, kp_public_key p, to_rfc3339 tc (kp_first_seen p)]"
    using s by (simp add: line_text_def split_words_Cons split_words_single)
  moreover have "\<not> starts_with (line_text tc p) ''#''" "line_text tc p \<noteq> []"
    using ends(1) s by (cases "kp_node_id p"; auto simp: line_text_def starts_with_def)+
  ultimately show "parse_known_line tc now (line_text tc p) m = hm_insert (kp_node_id p) p m"
    using assms by (cases p) (simp add: parse_known_line_def storable_def)
  show "newline \<notin> set (line_text tc p)" using ends s by (auto simp: line_text_def)
  show "strip_cr (line_text tc p) = line_text tc p"
  proof (rule strip_cr_plain)
    show "line_text tc p = [] \<or> last (line_text tc p) \<noteq> carriage" using ends(11) s(3) lst by auto
  qed
qed

lemma parse_saved_lines:
  "list_all (storable tc) ps \<Longrightarrow>
   fold (parse_known_line tc now) (str_lines (concat (map (known_line tc) ps))) m
     = fold (\<lambda>p. hm_insert (kp_node_id p) p) ps m"
proof (induction ps arbitrary: m)
  case (Cons p ps)
  have "known_line tc p = line_text tc p @ [newline]" by (simp add: known_line_def line_text_def)
  with Cons show ?case by (simp add: str_lines_Cons parse_line_text)
qed simp

lemma fold_insert_values:
  "hm_ok m \<Longrightarrow> \<forall>(k, p) \<in> set m. kp_node_id p = k \<Longrightarrow>
   hm_get (fold (\<lambda>p. hm_insert (kp_node_id p) p) (hm_values m) acc) k =
     (case hm_get m k of Some p \<Rightarrow> Some p | None \<Rightarrow> hm_get acc k)"
proof (induction m arbitrary: acc)
  case (Cons kp m)
  obtain k0 p where kp: "kp = (k0, p)" by fastforce
  have "hm_get m k0 = None" using Cons.prems(1) kp by (auto simp: map_of_eq_None_iff)
  with Cons kp show ?case by (auto simp: hm_simps split: option.splits)
qed simp

text \<open>A store of known peers survives a restart: if every name and key is a single word and no
  name starts with the comment sign, the file that is saved is read back to the same peers.\<close>

theorem known_peers_roundtrip:
  assumes "hm_ok m" "list_all (\<lambda>(k, p). kp_node_id p = k \<and> storable tc p) m"
  shows "hm_get (parse_known_file tc now (save_known tc m)) = hm_get m"
proof -
  let ?head = "''# node_id pubkey first_seen''"
  have "str_lines (save_known tc m) = ?head # str_lines (concat (map (known_line tc) (hm_values m)))"
  proof -
    have "strip_cr ?head = ?head" by (simp add: strip_cr_def)
    moreover have "newline \<notin> set ?head" by simp
    ultimately show ?thesis
      using str_lines_Cons [of ?head "concat (map (known_line tc) (hm_values m))"] by (simp add: save_known_def)
  qed
  moreover have "parse_known_line tc now ?head [] = []"
  proof -
    have "trim ?head = ?head" by (rule trim_id) (simp_all add: is_white_def)
    then show ?thesis by (simp add: parse_known_line_def starts_with_def)
  qed
  moreover have "list_all (storable tc) (hm_values m)" using assms(2) by (auto simp: list_all_iff)
  ultimately have "parse_known_file tc now (save_known tc m) = fold (\<lambda>p. hm_insert (kp_node_id p) p) (hm_values m) []"
    by (simp add: parse_known_file_def parse_saved_lines del: map_map)
  moreover have "\<forall>(k, p) \<in> set m. kp_node_id p = k" using assms(2) by (auto simp: list_all_iff)
  ultimately show ?thesis
    using fold_insert_values [OF assms(1)] by (auto simp: fun_eq_iff split: option.split)
qed

definition demo_codec :: time_codec where
  "demo_codec = \<lparr>to_rfc3339 = (\<lambda>n. replicate (Suc n) CHR ''t''), parse_time = (\<lambda>s. Some (length s - 1))\<rparr>"

theorem known_peers_roundtrip_witness:
  "hm_get (parse_known_file demo_codec 0 (save_known demo_codec
      [(''b'', \<lparr>kp_node_id = ''b'', kp_public_key = ''K1'', kp_first_seen = 1\<rparr>)])) ''b''
   = Some \<lparr>kp_node_id = ''b'', kp_public_key = ''K1'', kp_first_seen = 1\<rparr>"
proof -
  have "list_all (\<lambda>(k, p). kp_node_id p = k \<and> storable demo_codec p)
      [(''b'', \<lparr>kp_node_id = ''b'', kp_public_key = ''K1'', kp_first_seen = 1\<rparr>)]"
    by (simp add: storable_def demo_codec_def plain_word_def is_white_def)
  from known_peers_roundtrip [OF _ this, of 0] show ?thesis by simp
qed

text \<open>
  The name of a peer comes from its handshake and is written as it is. A name with a line feed adds a
  line of its own: after a restart another name is bound to the key of the peer that sent it.
\<close>

lemma saved_name_binds_other_name:
  assumes "plain_word t" "\<And>n. to_rfc3339 tc n = t"
  shows "\<exists>nid m. bound_key m ''victim'' = None
    \<and> bound_key (parse_known_file tc 0 (save_known tc (snd (add_peer True 0 nid ''EVIL'' m)))) ''victim'' = Some ''EVIL''"
proof (intro exI conjI)
  let ?nid = "''x k t'' @ [newline] @ ''victim''"
  show "bound_key [] ''victim'' = None" by (simp add: bound_key_def)
  have w: "plain_word ''victim''" "plain_word ''EVIL''" by (simp_all add: plain_word_def is_white_def)
  have "save_known tc (snd (add_peer True 0 ?nid ''EVIL'' []))
      = ''# node_id pubkey first_seen'' @ newline # ''x k t'' @ newline # (''victim EVIL '' @ t) @ newline # []"
    by (simp add: save_known_def add_peer_def known_line_def assms(2))
  moreover have "newline \<notin> set t" "last (''victim EVIL '' @ t) \<noteq> carriage" "t \<noteq> []" "\<not> is_white (last t)"
    using plain_word_ends [OF assms(1)] by auto
  ultimately have l: "str_lines (save_known tc (snd (add_peer True 0 ?nid ''EVIL'' [])))
      = [''# node_id pubkey first_seen'', ''x k t'', ''victim EVIL '' @ t]"
    by (simp add: str_lines_Cons [of "''# node_id pubkey first_seen''", simplified]
        str_lines_Cons [of "''x k t''", simplified] str_lines_Cons [of "''victim EVIL '' @ t", simplified] strip_cr_def)
  have "split_whitespace (''victim EVIL '' @ t) = [''victim'', ''EVIL'', t]"
    using split_words_Cons [OF w(1), of "''EVIL '' @ t"] split_words_Cons [OF w(2), of t]
      split_words_single [OF assms(1)] by simp
  moreover have "trim (''victim EVIL '' @ t) = ''victim EVIL '' @ t"
    using plain_word_ends [OF assms(1)] by (intro trim_id) (auto simp: is_white_def)
  ultimately show "bound_key (parse_known_file tc 0 (save_known tc (snd (add_peer True 0 ?nid ''EVIL'' [])))) ''victim'' = Some ''EVIL''"
    unfolding parse_known_file_def l
    by (simp add: parse_known_line_def [of _ _ "''victim EVIL '' @ t", simplified] starts_with_def bound_key_def hm_simps
        normalize_public_key_def strip_prefix_def)
qed

text \<open>
  The check and the insertion are two steps. Two first contacts under the same name with different
  keys that are both checked before either is stored are both accepted, and the later one stays.
\<close>

lemma tofu_race:
  assumes "noise_allowed_keys cfg = []" "tofu cfg" "hm_get m nid = None"
  shows "check_peer nid k1 (tofu cfg) [] m = TofuAccepted \<and> check_peer nid k2 (tofu cfg) [] m = TofuAccepted
    \<and> bound_key (snd (add_peer True now nid k2 (snd (add_peer True now nid k1 m)))) nid = Some (normalize_public_key k2)"
  using assms by (simp add: check_peer_def add_peer_def bound_key_def hm_simps Let_def)

end
