(* ===== verification/Gossip.thy ===== *)
theory Gossip
  imports Routing Net_Addr
begin

text \<open>
  The gossip protocol of \<^verbatim>\<open>src/cluster.rs\<close> and the snapshot a node sends of itself
  (\<^verbatim>\<open>get_self_peer_state\<close>, \<^verbatim>\<open>get_gossip_peer_state\<close> in \<^verbatim>\<open>src/node_state/mod.rs\<close>). Sets of URLs are
  duplicate-free lists in an arbitrary order. What the transport did with a message is an argument.
\<close>

section \<open>Messages\<close>

record peer_info =
  pi_node_id :: string
  pi_address :: string

record gossip_message =
  origin :: peer_state
  known_peers :: "peer_info list"

section \<open>Circuits keyed by URL\<close>

definition gossip_url_circuit_keys ::
  "string list \<Rightarrow> string list \<Rightarrow> (string, string) hashmap \<Rightarrow> string list \<Rightarrow> string \<Rightarrow> string list \<times> string list" where
  "gossip_url_circuit_keys tracked targets url_to_node_id known_node_ids own_address =
     (let current = filter (\<lambda>u. u \<noteq> own_address \<and> hm_get url_to_node_id u = None) targets;
          stale = filter (\<lambda>k. k \<notin> set current \<and> k \<notin> set known_node_ids) tracked
      in (current, stale))"

definition reconcile_gossip_url_circuits ::
  "string list \<Rightarrow> string list \<Rightarrow> (string, string) hashmap \<Rightarrow> string list \<Rightarrow> string \<Rightarrow> circuits \<Rightarrow>
   string list \<times> circuits" where
  "reconcile_gossip_url_circuits tracked targets url_to_node_id known_node_ids own_address m =
     (let (current, stale) = gossip_url_circuit_keys tracked targets url_to_node_id known_node_ids own_address
      in (remdups (tracked @ current), snd (forget stale m)))"

section \<open>One round of the loop\<close>

definition mdns_url :: "string \<Rightarrow> string" where
  "mdns_url addr = (if contains_str addr ''://'' then addr else ''http://'' @ addr)"

definition gossip_targets :: "node_config \<Rightarrow> string list \<Rightarrow> peers \<Rightarrow> string list" where
  "gossip_targets cfg found ps =
     remdups (cluster_peers (cluster cfg) @ map mdns_url found @ map ps_address (hm_values ps))"

definition url_to_node_id_of :: "peers \<Rightarrow> (string, string) hashmap" where
  "url_to_node_id_of ps = fold (\<lambda>p. hm_insert (ps_address p) (ps_node_id p)) (hm_values ps) []"

definition known_peers_of :: "peers \<Rightarrow> peer_info list" where
  "known_peers_of ps = map (\<lambda>p. \<lparr>pi_node_id = ps_node_id p, pi_address = ps_address p\<rparr>) (hm_values ps)"

text \<open>A send in flight: its target, circuit key, the node id expected there, and its probe ticket.\<close>

record gossip_send =
  gs_url :: string
  gs_cb_key :: string
  gs_expected :: "string option"
  gs_ticket :: bool
  gs_message :: gossip_message

record gossip_env =
  ge_config :: node_config
  ge_locked :: bool
  ge_instant :: instant
  ge_mdns :: "string list"
  ge_permit :: "string \<Rightarrow> bool"
  ge_announces_drain :: bool

text \<open>
  The body of the loop over the targets. \<open>ge_permit\<close> says for which targets a permit was granted in
  time; the round that announces the drain takes none.
\<close>

fun send_all ::
  "gossip_env \<Rightarrow> gossip_message \<Rightarrow> (string, string) hashmap \<Rightarrow> string list \<Rightarrow> circuits \<Rightarrow>
   gossip_send list \<times> circuits" where
  "send_all env msg url_map [] m = ([], m)"
| "send_all env msg url_map (u # us) m =
     (if u = ps_address (origin msg) then send_all env msg url_map us m
      else if \<not> ge_announces_drain env \<and> \<not> ge_permit env u then send_all env msg url_map us m
      else
        (let cb_key = (case hm_get url_map u of Some n \<Rightarrow> n | None \<Rightarrow> u);
             (d, m1) = try_claim_dispatch_sync (circuit_breaker (cluster (ge_config env)))
                         (ge_locked env) (ge_instant env) cb_key m;
             send = \<lparr>gs_url = u, gs_cb_key = cb_key, gs_expected = hm_get url_map u,
                     gs_ticket = (d = Admit True), gs_message = msg\<rparr>;
             (sends, m2) = send_all env msg url_map us m1
         in (send # sends, m2)))"

definition gossip_round ::
  "gossip_env \<Rightarrow> peer_state \<Rightarrow> peers \<Rightarrow> string list \<Rightarrow> circuits \<Rightarrow>
   gossip_send list \<times> string list \<times> circuits" where
  "gossip_round env my_state ps tracked m =
     (let targets = gossip_targets (ge_config env) (ge_mdns env) ps;
          url_map = url_to_node_id_of ps;
          ids = map ps_node_id (hm_values ps);
          (tracked', m1) = reconcile_gossip_url_circuits tracked targets url_map ids (ps_address my_state) m;
          msg = \<lparr>origin = my_state, known_peers = known_peers_of ps\<rparr>;
          (sends, m2) = send_all env msg url_map targets m1
      in (sends, tracked', m2))"

text \<open>
  How a send ends: over Noise with a status and whether the body could be drained, over HTTP with a
  status, or with an error of the transport or of serialisation.
\<close>

datatype gossip_outcome =
    NoiseAnswer u16 bool
  | HttpAnswer u16
  | SendError

definition exchange_ok :: "gossip_outcome \<Rightarrow> bool" where
  "exchange_ok r = (case r of
     NoiseAnswer status drained \<Rightarrow> 200 \<le> status \<and> status < 300 \<and> drained
   | HttpAnswer status \<Rightarrow> 200 \<le> status \<and> status < 300
   | SendError \<Rightarrow> False)"

text \<open>The boolean says whether waiters for capacity are woken.\<close>

definition finish_send :: "node_config \<Rightarrow> instant \<Rightarrow> gossip_send \<Rightarrow> gossip_outcome \<Rightarrow> circuits \<Rightarrow> bool \<times> circuits" where
  "finish_send cfg now s r m =
     (let cb = circuit_breaker (cluster cfg) in
      if exchange_ok r then record_success cb now (gs_cb_key s) (gs_ticket s) m
      else (False, record_failure cb now (gs_cb_key s) (gs_ticket s) m))"

section \<open>Receiving\<close>

datatype gossip_reject =
    NoiseRequired
  | ClientCertRequired
  | CnMismatch string string
  | CnMissing
  | MutualTlsRequired

record peer_identity =
  id_node_id :: "string option"
  id_authenticated :: bool

definition cluster_tls_on :: "node_config \<Rightarrow> bool" where
  "cluster_tls_on cfg = (case cluster_tls cfg of Some t \<Rightarrow> cluster_tls_enabled t | None \<Rightarrow> False)"

text \<open>The checks of \<^verbatim>\<open>handle_gossip\<close>, the handler for gossip that does not come over Noise.\<close>

definition gossip_check ::
  "node_config \<Rightarrow> peer_identity option \<Rightarrow> gossip_message \<Rightarrow> (unit, gossip_reject) result" where
  "gossip_check cfg maybe_identity msg =
     (if noise_enabled (noise (cluster cfg)) \<and> \<not> cluster_tls_on cfg then Err NoiseRequired
      else if cluster_tls_on cfg then
        (case maybe_identity of
           Some identity \<Rightarrow>
             if \<not> id_authenticated identity then Err ClientCertRequired
             else (case id_node_id identity of
                 Some cn \<Rightarrow> if cn \<noteq> ps_node_id (origin msg) then Err (CnMismatch cn (ps_node_id (origin msg)))
                            else Ok ()
               | None \<Rightarrow> Err CnMissing)
         | None \<Rightarrow> Err MutualTlsRequired)
      else Ok ())"

text \<open>Log a mismatch once per peer and version.\<close>

definition note_version_mismatch_for_logging ::
  "string \<Rightarrow> string \<Rightarrow> (string, string) hashmap \<Rightarrow> bool \<times> (string, string) hashmap" where
  "note_version_mismatch_for_logging nid peer_version logged =
     (if hm_get logged nid = Some peer_version then (False, logged)
      else (True, hm_insert nid peer_version logged))"

definition version_rejected :: "string \<Rightarrow> string \<Rightarrow> string \<Rightarrow> bool" where
  "version_rejected action local_version peer_version =
     (if action = ''reject_any'' then True
      else if action = ''reject_major''
      then hd (split_on CHR ''.'' local_version) \<noteq> hd (split_on CHR ''.'' peer_version)
      else False)"

definition ordered_state :: "peer_state \<Rightarrow> bool" where
  "ordered_state p = (gossip_epoch p \<noteq> 0 \<and> gossip_seq p \<noteq> 0)"

definition newer :: "peer_state \<Rightarrow> peer_state \<Rightarrow> bool" where
  "newer old_state new_state =
     (\<not> ordered_state old_state
      \<or> ordered_state new_state
        \<and> (if gossip_epoch new_state = gossip_epoch old_state
           then gossip_seq old_state < gossip_seq new_state
           else started_at_unix old_state \<le> started_at_unix new_state))"

definition stale_gossip :: "node_config \<Rightarrow> u64 \<Rightarrow> peers \<Rightarrow> peer_state \<Rightarrow> bool" where
  "stale_gossip cfg now ps p = (case hm_get ps (ps_node_id p) of
     None \<Rightarrow> False
   | Some old_state \<Rightarrow> sat_sub now (last_seen old_state) \<le> staleness_timeout cfg \<and> \<not> newer old_state p)"

text \<open>
  A peer that advertises a loopback address: an authoritative route is kept, then a seed with the
  peer's name is used, then the source of the connection, then whatever was known before.
\<close>

definition keeps_route :: "node_config \<Rightarrow> (string \<Rightarrow> url option) \<Rightarrow> peer_state \<Rightarrow> bool" where
  "keeps_route cfg url_parse old_state =
     (\<not> is_loopback_address (ps_address old_state)
      \<and> (\<not> address_from_source old_state
         \<or> list_ex (\<lambda>seed. same_peer_url url_parse seed (ps_address old_state)) (cluster_peers (cluster cfg))))"

definition seed_route :: "node_config \<Rightarrow> peer_state \<Rightarrow> string option" where
  "seed_route cfg p = find (\<lambda>seed. extract_host_from_url seed = ps_node_id p \<and> \<not> is_loopback_address seed)
     (cluster_peers (cluster cfg))"

definition usable_source :: "peer_state option \<Rightarrow> socket_addr option \<Rightarrow> socket_addr option" where
  "usable_source existing source_addr = (case source_addr of
     None \<Rightarrow> None
   | Some src \<Rightarrow>
       if \<not> is_loopback (to_canonical (sa_ip src))
          \<or> (case existing of None \<Rightarrow> True | Some old_state \<Rightarrow> is_loopback_address (ps_address old_state))
       then Some src else None)"

definition resolve_loopback ::
  "node_config \<Rightarrow> (string \<Rightarrow> url option) \<Rightarrow> socket_addr option \<Rightarrow> peer_state option \<Rightarrow> peer_state \<Rightarrow> peer_state" where
  "resolve_loopback cfg url_parse source_addr existing p =
     (if \<not> is_loopback_address (ps_address p) then p
      else case (case existing of Some e \<Rightarrow> if keeps_route cfg url_parse e then Some (ps_address e) else None
                                | None \<Rightarrow> None) of
        Some a \<Rightarrow> p\<lparr>ps_address := a\<rparr>
      | None \<Rightarrow>
          (case seed_route cfg p of
             Some seed \<Rightarrow> p\<lparr>ps_address := seed\<rparr>
           | None \<Rightarrow>
               (case (case usable_source existing source_addr of
                        Some src \<Rightarrow> source_peer_url url_parse (ps_address p) src | None \<Rightarrow> None) of
                  Some derived \<Rightarrow> p\<lparr>ps_address := derived, address_from_source := True\<rparr>
                | None \<Rightarrow>
                    (case existing of
                       Some e \<Rightarrow> p\<lparr>ps_address := ps_address e, address_from_source := address_from_source e\<rparr>
                     | None \<Rightarrow> p))))"

definition placeholder_peer :: "u64 \<Rightarrow> peer_info \<Rightarrow> peer_state" where
  "placeholder_peer now info =
     \<lparr>ps_node_id = pi_node_id info, ps_address = pi_address info, address_from_source = False,
      ps_version = ''unknown'', ps_llama_cpp_version = ''unknown'', last_seen = now,
      started_at_unix = 0, gossip_epoch = 0, gossip_seq = 0, supported_models = [],
      model_stats = [], ps_active_instances = 0, ps_max_instances = 0, current_requests = 0,
      available_vram = 0, available_sysmem = 0, ps_llamesh_vram_mb = 0, ps_llamesh_sysmem_mb = 0,
      ps_external_vram_mb = 0, ps_device_vram_used_mb = 0, ps_device_vram_total_mb = 0,
      ps_gpu_telemetry_available = False, max_vram = 0, max_sysmem = 0, ps_total_queue_length = 0,
      ps_ready = False, loaded_models = []\<rparr>"

definition add_placeholder :: "string \<Rightarrow> u64 \<Rightarrow> peer_info \<Rightarrow> peers \<Rightarrow> peers" where
  "add_placeholder my_id now info ps =
     (if pi_node_id info = my_id then ps
      else if hm_get ps (pi_node_id info) \<noteq> None then ps
      else hm_insert (pi_node_id info) (placeholder_peer now info) ps)"

record cluster_view =
  cv_peers :: peers
  logged_peer_versions :: "(string, string) hashmap"

definition process_gossip_message ::
  "node_config \<Rightarrow> string \<Rightarrow> (string \<Rightarrow> url option) \<Rightarrow> u64 \<Rightarrow> socket_addr option \<Rightarrow> gossip_message \<Rightarrow>
   cluster_view \<Rightarrow> cluster_view" where
  "process_gossip_message cfg local_version url_parse now source_addr msg v =
     (let ps = cv_peers v; p0 = origin msg in
      if stale_gossip cfg now ps p0 then v
      else
        (let p1 = p0\<lparr>address_from_source := False\<rparr>;
             mismatch = (ps_version p1 \<noteq> local_version);
             logged = (if mismatch
               then snd (note_version_mismatch_for_logging (ps_node_id p1) (ps_version p1) (logged_peer_versions v))
               else hm_remove (ps_node_id p1) (logged_peer_versions v))
         in if mismatch \<and> version_rejected (version_mismatch_action (cluster cfg)) local_version (ps_version p1)
            then v\<lparr>logged_peer_versions := logged\<rparr>
            else
              (let p2 = resolve_loopback cfg url_parse source_addr (hm_get ps (ps_node_id p1))
                          (p1\<lparr>last_seen := now\<rparr>);
                   ps1 = hm_insert (ps_node_id p2) p2 ps
               in \<lparr>cv_peers = fold (add_placeholder (node_id cfg) now) (known_peers msg) ps1,
                   logged_peer_versions = logged\<rparr>)))"

definition handle_gossip ::
  "node_config \<Rightarrow> string \<Rightarrow> (string \<Rightarrow> url option) \<Rightarrow> u64 \<Rightarrow> peer_identity option \<Rightarrow> socket_addr option \<Rightarrow>
   gossip_message \<Rightarrow> cluster_view \<Rightarrow> (unit, gossip_reject) result \<times> cluster_view" where
  "handle_gossip cfg local_version url_parse now maybe_identity maybe_socket msg v =
     (case gossip_check cfg maybe_identity msg of
        Inl e \<Rightarrow> (Err e, v)
      | Inr _ \<Rightarrow> (Ok (), process_gossip_message cfg local_version url_parse now maybe_socket msg v))"

section \<open>The snapshot a node sends\<close>

text \<open>
  What the snapshot reads besides the configuration: the resources, the instances, the queues, the
  cookbook, learned speeds, the serving version, times and counters. \<open>se_parse_socket\<close> is the parser
  of \<^verbatim>\<open>SocketAddr\<close> for the listen address.
\<close>

record self_env =
  se_config :: node_config
  se_sha256 :: "string \<Rightarrow> string"
  se_observation :: observation
  se_registry :: reservation_state
  se_instances :: instances
  se_queues :: "(string, u64 list) hashmap"
  se_cookbook :: cookbook
  se_index :: model_index
  se_tps :: "string \<Rightarrow> rat"
  se_version :: string
  se_llama_cpp_version :: string
  se_now :: u64
  se_started_at :: u64
  se_current_requests :: u64
  se_can_serve :: bool
  se_parse_socket :: "string \<Rightarrow> socket_addr option"

definition get_memory_estimate_for_key ::
  "(string \<Rightarrow> string) \<Rightarrow> observation \<Rightarrow> model_index \<Rightarrow> string \<Rightarrow> u64 \<times> u64" where
  "get_memory_estimate_for_key sha256 obs index key = (case resolve index key of
     Some (_, p) \<Rightarrow> get_memory_estimate obs (compute_args_hash sha256 (fst (build_pre_args p))) p
   | None \<Rightarrow> (0, 0))"

definition instance_counts :: "string list \<Rightarrow> string \<Rightarrow> nat" where
  "instance_counts loaded key = length (filter (\<lambda>k. k = key) loaded)"

definition model_stats_entry :: "self_env \<Rightarrow> string list \<Rightarrow> string \<Rightarrow> nat \<Rightarrow> peer_model_stats" where
  "model_stats_entry env loaded key queued =
     (let (speed, vram, sysmem) = (case get_args_hash_for_key (se_sha256 env) (se_cookbook env) key of
            Some h \<Rightarrow> (let (v, s) = get_memory_estimate_for_key (se_sha256 env) (se_observation env) (se_index env) key
                       in (se_tps env h, v, s))
          | None \<Rightarrow> (0, 0, 0))
      in \<lparr>tps = speed, queue_len = queued, stats_vram_mb = vram, stats_sysmem_mb = sysmem,
          instance_count = instance_counts loaded key\<rparr>)"

definition self_model_stats :: "self_env \<Rightarrow> string list \<Rightarrow> (string, peer_model_stats) hashmap" where
  "self_model_stats env loaded =
     fold (\<lambda>key st. if hm_get st key = None then hm_insert key (model_stats_entry env loaded key 0) st else st)
       loaded (fold (\<lambda>(key, q). hm_insert key (model_stats_entry env loaded key (length q))) (se_queues env) [])"

definition self_address :: "node_config \<Rightarrow> (string \<Rightarrow> socket_addr option) \<Rightarrow> string" where
  "self_address cfg parse_socket =
     (let derived =
        (let addr = listen_addr cfg;
             scheme = (if (case server_tls cfg of Some t \<Rightarrow> server_tls_enabled t | None \<Rightarrow> False)
                       then ''https'' else ''http'')
         in case parse_socket addr of
              Some socket \<Rightarrow>
                scheme @ ''://'' @ show_socket (if is_unspecified (sa_ip socket)
                  then socket\<lparr>sa_ip := (case sa_ip socket of V4 _ \<Rightarrow> V4 2130706433 | V6 _ \<Rightarrow> V6 1)\<rparr> else socket)
            | None \<Rightarrow> scheme @ ''://'' @ addr)
      in case public_url cfg of Some u \<Rightarrow> if u \<noteq> [] then u else derived | None \<Rightarrow> derived)"

definition get_self_peer_state :: "self_env \<Rightarrow> peer_state" where
  "get_self_peer_state env =
     (let cfg = se_config env;
          res = resources (resource_accounting_for_instances (se_observation env) (se_registry env) (se_instances env));
          loaded = loaded_keys (se_instances env)
      in \<lparr>ps_node_id = node_id cfg, ps_address = self_address cfg (se_parse_socket env),
          address_from_source = False, ps_version = se_version env,
          ps_llama_cpp_version = se_llama_cpp_version env, last_seen = se_now env,
          started_at_unix = se_started_at env, gossip_epoch = 0, gossip_seq = 0,
          supported_models = advertised_models (model_defaults cfg) (se_cookbook env),
          model_stats = self_model_stats env loaded,
          ps_active_instances = unat (active_instances res),
          ps_max_instances = max_instances_per_node cfg,
          current_requests = se_current_requests env,
          available_vram = sat_sub (max_vram_mb cfg) (effective_vram_mb res),
          available_sysmem = sat_sub (max_sysmem_mb cfg) (effective_sysmem_mb res),
          ps_llamesh_vram_mb = llamesh_vram_mb res, ps_llamesh_sysmem_mb = llamesh_sysmem_mb res,
          ps_external_vram_mb = external_vram_mb res, ps_device_vram_used_mb = device_vram_used_mb res,
          ps_device_vram_total_mb = device_vram_total_mb res,
          ps_gpu_telemetry_available = gpu_telemetry_available res,
          max_vram = max_vram_mb cfg, max_sysmem = max_sysmem_mb cfg,
          ps_total_queue_length = sum_list (map length (hm_values (se_queues env))),
          ps_ready = se_can_serve env, loaded_models = loaded\<rparr>)"

text \<open>The counter is advanced; \<open>None\<close> is the panic on an exhausted sequence.\<close>

definition get_gossip_peer_state :: "self_env \<Rightarrow> u64 \<Rightarrow> u64 \<Rightarrow> peer_state option \<times> u64" where
  "get_gossip_peer_state env epoch seq_counter =
     ((if unat seq_counter + 1 < 2 ^ 64
       then Some ((get_self_peer_state env)\<lparr>gossip_epoch := epoch, gossip_seq := seq_counter + 1\<rparr>)
       else None), seq_counter + 1)"

section \<open>What a message can change\<close>

lemma resolve_loopback_fields [simp]:
  "ps_node_id (resolve_loopback cfg url_parse src e p) = ps_node_id p"
  "last_seen (resolve_loopback cfg url_parse src e p) = last_seen p"
  "gossip_epoch (resolve_loopback cfg url_parse src e p) = gossip_epoch p"
  "gossip_seq (resolve_loopback cfg url_parse src e p) = gossip_seq p"
  "started_at_unix (resolve_loopback cfg url_parse src e p) = started_at_unix p"
  "supported_models (resolve_loopback cfg url_parse src e p) = supported_models p"
  by (simp_all add: resolve_loopback_def split: option.splits)

lemma add_placeholders_get:
  "hm_get (fold (add_placeholder my_id now) infos ps) k =
     (case hm_get ps k of
        Some p \<Rightarrow> Some p
      | None \<Rightarrow> if k = my_id then None
                else map_option (placeholder_peer now) (find (\<lambda>i. pi_node_id i = k) infos))"
proof (induction infos arbitrary: ps)
  case (Cons i infos)
  show ?case
    by (simp only: fold_Cons comp_apply Cons.IH)
      (auto simp: add_placeholder_def hm_simps split: option.splits)
qed (simp split: option.split)

text \<open>The view after a message that is neither stale nor rejected.\<close>

definition gossip_accepted :: "node_config \<Rightarrow> string \<Rightarrow> u64 \<Rightarrow> gossip_message \<Rightarrow> cluster_view \<Rightarrow> bool" where
  "gossip_accepted cfg local_version now msg v =
     (\<not> stale_gossip cfg now (cv_peers v) (origin msg)
      \<and> \<not> (ps_version (origin msg) \<noteq> local_version
           \<and> version_rejected (version_mismatch_action (cluster cfg)) local_version (ps_version (origin msg))))"

definition stored_state ::
  "node_config \<Rightarrow> (string \<Rightarrow> url option) \<Rightarrow> u64 \<Rightarrow> socket_addr option \<Rightarrow> peer_state \<Rightarrow> peers \<Rightarrow> peer_state" where
  "stored_state cfg url_parse now source_addr p ps =
     resolve_loopback cfg url_parse source_addr (hm_get ps (ps_node_id p))
       (p\<lparr>address_from_source := False, last_seen := now\<rparr>)"

lemma process_gossip_peers:
  "cv_peers (process_gossip_message cfg ver url_parse now src msg v) =
     (if gossip_accepted cfg ver now msg v
      then fold (add_placeholder (node_id cfg) now) (known_peers msg)
        (hm_insert (ps_node_id (origin msg)) (stored_state cfg url_parse now src (origin msg) (cv_peers v)) (cv_peers v))
      else cv_peers v)"
  by (simp add: process_gossip_message_def gossip_accepted_def stored_state_def Let_def)

lemma process_gossip_get:
  "hm_get (cv_peers (process_gossip_message cfg ver url_parse now src msg v)) k =
     (if \<not> gossip_accepted cfg ver now msg v then hm_get (cv_peers v) k
      else if k = ps_node_id (origin msg)
      then Some (stored_state cfg url_parse now src (origin msg) (cv_peers v))
      else case hm_get (cv_peers v) k of
        Some p \<Rightarrow> Some p
      | None \<Rightarrow> if k = node_id cfg then None
                else map_option (placeholder_peer now) (find (\<lambda>i. pi_node_id i = k) (known_peers msg)))"
  by (simp add: process_gossip_peers add_placeholders_get hm_simps)

lemma placeholder_not_routable:
  "\<not> admissible env model_name profile_id excluded (placeholder_peer now info)"
  "\<not> forwardable env request excluded (placeholder_peer now info)"
  by (simp_all add: admissible_def forwardable_def placeholder_peer_def)

text \<open>C21. A gossip message changes the entry of its origin only: every other known peer keeps its
  state, this node is never added, and a peer learned from hearsay gets no request before it has
  gossiped itself.\<close>

theorem gossip_touches_only_origin:
  assumes "k \<noteq> ps_node_id (origin msg)"
  shows "case hm_get (cv_peers v) k of
      Some p \<Rightarrow> hm_get (cv_peers (process_gossip_message cfg ver url_parse now src msg v)) k = Some p
    | None \<Rightarrow>
        (case hm_get (cv_peers (process_gossip_message cfg ver url_parse now src msg v)) k of
           None \<Rightarrow> True
         | Some p \<Rightarrow> k \<noteq> node_id cfg
             \<and> list_ex (\<lambda>i. pi_node_id i = k \<and> p = placeholder_peer now i) (known_peers msg)
             \<and> \<not> admissible env model_name profile_id excluded p
             \<and> \<not> forwardable env request excluded p)"
proof (cases "hm_get (cv_peers v) k")
  case None
  show ?thesis
  proof (cases "hm_get (cv_peers (process_gossip_message cfg ver url_parse now src msg v)) k")
    case (Some p)
    then obtain i where i: "find (\<lambda>i. pi_node_id i = k) (known_peers msg) = Some i"
      and p: "p = placeholder_peer now i" and k: "k \<noteq> node_id cfg"
      using None assms by (auto simp: process_gossip_get split: if_splits)
    have "i \<in> set (known_peers msg) \<and> pi_node_id i = k"
      using i unfolding find_Some_iff by auto
    then have "list_ex (\<lambda>i. pi_node_id i = k \<and> p = placeholder_peer now i) (known_peers msg)"
      using p by (auto simp: list_ex_iff)
    with None Some k p placeholder_not_routable show ?thesis by simp
  qed (simp add: None)
next
  case (Some p)
  then show ?thesis using assms by (simp add: process_gossip_get)
qed

definition demo_message :: gossip_message where
  "demo_message = \<lparr>origin = (demo_peer ''n2'' [''m''] 0)\<lparr>gossip_epoch := 9, gossip_seq := 2, ps_address := ''http://n2:80''\<rparr>,
     known_peers = [\<lparr>pi_node_id = ''n3'', pi_address = ''http://n3:80''\<rparr>]\<rparr>"

theorem gossip_touches_only_origin_witness:
  "case hm_get (cv_peers (process_gossip_message demo_config ''1'' (\<lambda>_. None) 110 None demo_message
       \<lparr>cv_peers = [], logged_peer_versions = []\<rparr>)) ''n3'' of
     None \<Rightarrow> False
   | Some p \<Rightarrow> \<not> admissible demo_env ''m'' ''default'' {} p"
proof -
  have "''n3'' \<noteq> ps_node_id (origin demo_message)" by (simp add: demo_message_def demo_peer_def)
  from gossip_touches_only_origin [OF this, where v = "\<lparr>cv_peers = [], logged_peer_versions = []\<rparr>"
      and cfg = demo_config and ver = "''1''" and url_parse = "\<lambda>_. None" and now = 110 and src = None
      and env = demo_env and model_name = "''m''" and profile_id = "''default''" and excluded = "{}" and request = "''m''"]
  show ?thesis
    by (simp add: process_gossip_get gossip_accepted_def stale_gossip_def demo_message_def demo_peer_def demo_config_def)
qed

section \<open>States never go back\<close>

record receipt =
  rc_now :: u64
  rc_source :: "socket_addr option"
  rc_message :: gossip_message

definition receive_all ::
  "node_config \<Rightarrow> string \<Rightarrow> (string \<Rightarrow> url option) \<Rightarrow> receipt list \<Rightarrow> cluster_view \<Rightarrow> cluster_view" where
  "receive_all cfg ver url_parse rs v =
     fold (\<lambda>r. process_gossip_message cfg ver url_parse (rc_now r) (rc_source r) (rc_message r)) rs v"

text \<open>
  The receipts stay within the timeout after \<open>t\<close>, and those from node \<open>n\<close> come from the process with
  epoch \<open>ep\<close>.
\<close>

definition within_timeout :: "node_config \<Rightarrow> u64 \<Rightarrow> receipt \<Rightarrow> bool" where
  "within_timeout cfg t r = (t \<le> rc_now r \<and> rc_now r - t \<le> staleness_timeout cfg)"

definition from_process :: "string \<Rightarrow> u64 \<Rightarrow> receipt \<Rightarrow> bool" where
  "from_process n ep r = (ps_node_id (origin (rc_message r)) = n \<longrightarrow> gossip_epoch (origin (rc_message r)) = ep)"

lemma fresh_after:
  fixes t s now :: u64
  assumes "t \<le> s" "t \<le> now" "now - t \<le> bnd"
  shows "sat_sub now s \<le> bnd"
proof (cases "s \<le> now")
  case True
  have "now - s \<le> now - t" using assms True by (simp add: word_le_nat_alt unat_sub)
  then show ?thesis using True assms(3) by (simp add: sat_sub_def)
next
  case False
  then show ?thesis by (simp add: sat_sub_def)
qed

lemma stored_state_fields:
  "gossip_epoch (stored_state cfg url_parse now src p ps) = gossip_epoch p"
  "gossip_seq (stored_state cfg url_parse now src p ps) = gossip_seq p"
  "last_seen (stored_state cfg url_parse now src p ps) = now"
  "started_at_unix (stored_state cfg url_parse now src p ps) = started_at_unix p"
  "supported_models (stored_state cfg url_parse now src p ps) = supported_models p"
  by (simp_all add: stored_state_def)

lemma receive_step:
  assumes "hm_get (cv_peers v) n = Some p" "ordered_state p" "t \<le> last_seen p"
    and "within_timeout cfg t r" "from_process n (gossip_epoch p) r"
  obtains q where "hm_get (cv_peers (process_gossip_message cfg ver url_parse (rc_now r) (rc_source r) (rc_message r) v)) n = Some q"
    "ordered_state q" "t \<le> last_seen q" "gossip_epoch q = gossip_epoch p" "gossip_seq p \<le> gossip_seq q"
    "q = p \<or> gossip_seq p < gossip_seq q"
proof (cases "gossip_accepted cfg ver (rc_now r) (rc_message r) v \<and> n = ps_node_id (origin (rc_message r))")
  case True
  let ?o = "origin (rc_message r)"
  have "sat_sub (rc_now r) (last_seen p) \<le> staleness_timeout cfg"
    using assms(3,4) by (auto simp: within_timeout_def intro: fresh_after)
  then have "newer p ?o"
    using True assms(1) by (simp add: gossip_accepted_def stale_gossip_def)
  then have o: "ordered_state ?o" "gossip_seq p < gossip_seq ?o" "gossip_epoch ?o = gossip_epoch p"
    using assms(2,5) True by (auto simp: newer_def from_process_def)
  show ?thesis
    by (rule that [of "stored_state cfg url_parse (rc_now r) (rc_source r) ?o (cv_peers v)"])
      (use True o assms(4) in \<open>auto simp: process_gossip_get stored_state_fields ordered_state_def within_timeout_def\<close>)
next
  case False
  then show ?thesis using assms(1-3) by (intro that [of p]) (auto simp: process_gossip_get)
qed

text \<open>C20. While a peer is not timed out, its stored state only moves forward: whatever messages
  arrive, in whatever order, duplicated or late, from the peer's running process or from others, the
  sequence number of the stored state never decreases, and it stays the same only if the state does.\<close>

theorem gossip_never_goes_back:
  assumes "hm_get (cv_peers v) n = Some p" "ordered_state p"
    and "list_all (within_timeout cfg (last_seen p)) rs" "list_all (from_process n (gossip_epoch p)) rs"
  shows "case hm_get (cv_peers (receive_all cfg ver url_parse rs v)) n of
      None \<Rightarrow> False
    | Some q \<Rightarrow> gossip_epoch q = gossip_epoch p \<and> (q = p \<or> gossip_seq p < gossip_seq q)"
proof -
  have "\<exists>q. hm_get (cv_peers (receive_all cfg ver url_parse rs v)) n = Some q
      \<and> gossip_epoch q = ep \<and> (q = p \<or> gossip_seq p < gossip_seq q)"
    if "hm_get (cv_peers v) n = Some p" "ordered_state p" "t \<le> last_seen p" "gossip_epoch p = ep"
      "list_all (within_timeout cfg t) rs" "list_all (from_process n ep) rs" for t ep v p
    using that
  proof (induction rs arbitrary: v p)
    case Nil
    then show ?case by (simp add: receive_all_def)
  next
    case (Cons r rs)
    then have "within_timeout cfg t r" "from_process n (gossip_epoch p) r" by simp_all
    from receive_step [OF Cons.prems(1-3) this] obtain q where
      q: "hm_get (cv_peers (process_gossip_message cfg ver url_parse (rc_now r) (rc_source r) (rc_message r) v)) n = Some q"
      "ordered_state q" "t \<le> last_seen q" "gossip_epoch q = gossip_epoch p" "q = p \<or> gossip_seq p < gossip_seq q"
      by metis
    have "gossip_epoch q = ep" using q(4) Cons.prems(4) by simp
    from Cons.IH [OF q(1-3) this] Cons.prems(5,6) q(5) show ?case
      by (auto simp: receive_all_def)
  qed
  from this [OF assms(1,2) order_refl refl assms(3,4)] show ?thesis by auto
qed

definition demo_view :: cluster_view where
  "demo_view = \<lparr>cv_peers = [(''n2'', origin demo_message)], logged_peer_versions = []\<rparr>"

definition demo_receipts :: "receipt list" where
  "demo_receipts =
     [\<lparr>rc_now = 110, rc_source = None, rc_message = demo_message\<lparr>origin := (origin demo_message)\<lparr>gossip_seq := 1\<rparr>\<rparr>\<rparr>,
      \<lparr>rc_now = 112, rc_source = None, rc_message = demo_message\<lparr>origin := (origin demo_message)\<lparr>gossip_seq := 3\<rparr>\<rparr>\<rparr>]"

theorem gossip_never_goes_back_witness:
  "case hm_get (cv_peers (receive_all demo_config ''1'' (\<lambda>_. None) demo_receipts demo_view)) ''n2'' of
     None \<Rightarrow> False
   | Some q \<Rightarrow> gossip_epoch q = gossip_epoch (origin demo_message)
       \<and> (q = origin demo_message \<or> gossip_seq (origin demo_message) < gossip_seq q)"
proof (rule gossip_never_goes_back)
  show "hm_get (cv_peers demo_view) ''n2'' = Some (origin demo_message)" "ordered_state (origin demo_message)"
    by (simp_all add: demo_view_def demo_message_def demo_peer_def ordered_state_def)
  show "list_all (within_timeout demo_config (last_seen (origin demo_message))) demo_receipts"
    "list_all (from_process ''n2'' (gossip_epoch (origin demo_message))) demo_receipts"
    by (simp_all add: demo_receipts_def within_timeout_def from_process_def demo_message_def demo_peer_def
        demo_config_def staleness_timeout_def sat_mul_def)
qed

section \<open>Routes\<close>

lemma keeps_non_loopback:
  assumes "\<not> is_loopback_address (ps_address e)"
  shows "\<not> is_loopback_address (ps_address (resolve_loopback cfg url_parse src (Some e) p))"
proof (cases "is_loopback_address (ps_address p) \<and> \<not> keeps_route cfg url_parse e")
  case False
  then show ?thesis using assms by (auto simp: resolve_loopback_def)
next
  case unresolved: True
  show ?thesis
  proof (cases "seed_route cfg p")
    case (Some seed)
    then have "\<not> is_loopback_address seed" by (auto simp: seed_route_def find_Some_iff)
    then show ?thesis using unresolved Some by (simp add: resolve_loopback_def)
  next
    case None
    show ?thesis
    proof (cases "case usable_source (Some e) src of
        Some s \<Rightarrow> source_peer_url url_parse (ps_address p) s | None \<Rightarrow> None")
      case no_source: None
      then show ?thesis using unresolved None assms by (simp add: resolve_loopback_def)
    next
      case (Some derived)
      then obtain s where s: "usable_source (Some e) src = Some s"
        and d: "source_peer_url url_parse (ps_address p) s = Some derived"
        by (auto split: option.splits)
      have "\<not> is_loopback (to_canonical (sa_ip s))"
        using s assms by (auto simp: usable_source_def split: option.splits if_splits)
      with d have "\<not> is_loopback_address derived" by (rule source_url_not_loopback)
      then show ?thesis using unresolved None Some by (simp add: resolve_loopback_def)
    qed
  qed
qed

text \<open>Once a peer has a route that leaves this host, no message makes this node forget it: a
  later message that advertises a loopback address, or arrives through a local proxy, never turns
  the route into a loopback one. Whether a route was derived from a connection's source is never
  taken from the message: it needs such a source, now or in the entry that was stored.\<close>

theorem gossip_keeps_routable_address:
  assumes "hm_get (cv_peers v) n = Some e" "\<not> is_loopback_address (ps_address e)"
  shows "case hm_get (cv_peers (process_gossip_message cfg ver url_parse now src msg v)) n of
      None \<Rightarrow> False
    | Some q \<Rightarrow> \<not> is_loopback_address (ps_address q)
        \<and> (address_from_source q \<longrightarrow> q = e \<or> address_from_source e \<or> src \<noteq> None)"
proof -
  let ?p = "(origin msg)\<lparr>address_from_source := False, last_seen := now\<rparr>"
  have "address_from_source (resolve_loopback cfg url_parse src (Some e) ?p)
      \<Longrightarrow> address_from_source e \<or> src \<noteq> None"
    by (auto simp: resolve_loopback_def usable_source_def split: if_splits option.splits)
  then show ?thesis
    using assms keeps_non_loopback [OF assms(2)]
    by (auto simp: process_gossip_get stored_state_def)
qed

theorem gossip_keeps_routable_address_witness:
  "case hm_get (cv_peers (process_gossip_message demo_config ''1'' (\<lambda>_. None) 110
       (Some \<lparr>sa_ip = V4 2130706433, sa_port = 5\<rparr>)
       (demo_message\<lparr>origin := (origin demo_message)\<lparr>gossip_seq := 3, ps_address := ''http://127.0.0.1:80''\<rparr>\<rparr>)
       demo_view)) ''n2'' of
     None \<Rightarrow> False | Some q \<Rightarrow> \<not> is_loopback_address (ps_address q)"
proof -
  have "hm_get (cv_peers demo_view) ''n2'' = Some (origin demo_message)"
    "\<not> is_loopback_address (ps_address (origin demo_message))"
    by (simp_all add: demo_view_def demo_message_def demo_peer_def is_loopback_address_def after_scheme_def
        strip_prefix_def starts_with_def)
  from gossip_keeps_routable_address [OF this, where cfg = demo_config and ver = "''1''"
      and url_parse = "\<lambda>_. None" and now = 110 and src = "Some \<lparr>sa_ip = V4 2130706433, sa_port = 5\<rparr>"
      and msg = "demo_message\<lparr>origin := (origin demo_message)\<lparr>gossip_seq := 3, ps_address := ''http://127.0.0.1:80''\<rparr>\<rparr>"]
  show ?thesis by (simp split: option.splits)
qed

section \<open>From a cookbook to the routing of other nodes\<close>

lemma gossip_snapshot_newer:
  assumes "get_gossip_peer_state env epoch n = (Some p, n')" "get_gossip_peer_state env' epoch m = (Some q, m')"
    and "n < m" "epoch \<noteq> 0"
  shows "ordered_state p \<and> ordered_state q \<and> gossip_seq p < gossip_seq q \<and> newer p q"
proof -
  have b: "unat n + 1 < 2 ^ 64" "unat m + 1 < 2 ^ 64"
    and pq: "p = (get_self_peer_state env)\<lparr>gossip_epoch := epoch, gossip_seq := n + 1\<rparr>"
      "q = (get_self_peer_state env')\<lparr>gossip_epoch := epoch, gossip_seq := m + 1\<rparr>"
    using assms(1,2) by (auto simp: get_gossip_peer_state_def split: if_splits)
  have u: "unat (n + 1) = unat n + 1" "unat (m + 1) = unat m + 1"
    using b by (subst unat_word_ariths, simp)+
  then have "n + 1 \<noteq> 0" "m + 1 \<noteq> 0" by (metis Suc_eq_plus1 nat.distinct(1) unsigned_0)+
  moreover have "n + 1 < m + 1" using assms(3) u by (simp add: word_less_nat_alt)
  ultimately show ?thesis using assms(4) by (auto simp: ordered_state_def newer_def pq)
qed

lemma self_state_supported:
  "supported_models ((get_self_peer_state env)\<lparr>gossip_epoch := e, gossip_seq := s\<rparr>) =
     advertised_models (model_defaults (se_config env)) (se_cookbook env)"
  "ps_version ((get_self_peer_state env)\<lparr>gossip_epoch := e, gossip_seq := s\<rparr>) = se_version env"
  "ps_node_id ((get_self_peer_state env)\<lparr>gossip_epoch := e, gossip_seq := s\<rparr>) = node_id (se_config env)"
  by (simp_all add: get_self_peer_state_def Let_def)

text \<open>Gossip carries a cookbook to the routing of another node. If a node that runs a validated
  cookbook sends a snapshot, and the receiver holds no state of it or an earlier snapshot of the
  same process, then the snapshot is accepted, and from then on, until the entry times out or is
  replaced, the receiver sees the sender as serving exactly the pairs the sender's cookbook offers.\<close>

theorem gossip_carries_cookbook:
  assumes "validate_cookbook (se_cookbook env) = Ok ()"
    and "get_gossip_peer_state env epoch n = (Some p, n')" and "epoch \<noteq> 0"
    and "case hm_get (cv_peers v) (node_id (se_config env)) of None \<Rightarrow> True
      | Some q0 \<Rightarrow> gossip_epoch q0 = 0 \<or> gossip_epoch q0 = epoch \<and> gossip_seq q0 \<le> n"
    and "se_version env = ver" and "CHR '':'' \<notin> set model_name"
  shows "case hm_get (cv_peers (process_gossip_message cfg ver url_parse now src
        \<lparr>origin = p, known_peers = infos\<rparr> v)) (node_id (se_config env)) of
      None \<Rightarrow> False
    | Some q \<Rightarrow> last_seen q = now
        \<and> (peer_supports_profile q model_name pid \<longleftrightarrow>
            list_ex (\<lambda>mp. eq_ignore_ascii_case (m_name (fst mp)) model_name
                \<and> eq_ignore_ascii_case (p_id (snd mp)) pid)
              (offered_pairs (model_defaults (se_config env)) (se_cookbook env)))"
proof -
  have n: "unat n + 1 < 2 ^ 64" and p: "p = (get_self_peer_state env)\<lparr>gossip_epoch := epoch, gossip_seq := n + 1\<rparr>"
    using assms(2) by (auto simp: get_gossip_peer_state_def split: if_splits)
  have un: "unat (n + 1) = unat n + 1" using n by (subst unat_word_ariths) simp
  have "gossip_seq q0 < n + 1" if "gossip_seq q0 \<le> n" for q0 :: peer_state
    using that un by (simp add: word_less_nat_alt word_le_nat_alt)
  moreover have "n + 1 \<noteq> 0" using un by (metis Suc_eq_plus1 nat.distinct(1) unsigned_0)
  ultimately have "newer q0 p" if "hm_get (cv_peers v) (node_id (se_config env)) = Some q0" for q0
    using that assms(3,4) by (auto simp: newer_def ordered_state_def p)
  then have acc: "gossip_accepted cfg ver now \<lparr>origin = p, known_peers = infos\<rparr> v"
    using assms(5) by (auto simp: gossip_accepted_def stale_gossip_def p self_state_supported split: option.splits)
  let ?q = "stored_state cfg url_parse now src p (cv_peers v)"
  have "supported_models ?q = advertised_models (model_defaults (se_config env)) (se_cookbook env)"
    by (simp add: stored_state_fields p self_state_supported)
  from advertised_models_supported [OF assms(1) this assms(6), of pid] acc show ?thesis
    by (simp add: process_gossip_get stored_state_fields p self_state_supported)
qed

definition demo_self :: self_env where
  "demo_self = \<lparr>se_config = demo_config\<lparr>node_id := ''n2''\<rparr>, se_sha256 = id, se_observation = demo_observation,
     se_registry = \<lparr>entries = [], revision = 0\<rparr>, se_instances = [], se_queues = [], se_cookbook = demo_cookbook,
     se_index = build_model_index demo_cookbook, se_tps = (\<lambda>_. 0), se_version = ''1'',
     se_llama_cpp_version = ''b1'', se_now = 109, se_started_at = 50, se_current_requests = 0,
     se_can_serve = True, se_parse_socket = (\<lambda>_. None)\<rparr>"

theorem gossip_carries_cookbook_witness:
  "case hm_get (cv_peers (process_gossip_message demo_config ''1'' (\<lambda>_. None) 110 None
      \<lparr>origin = (get_self_peer_state demo_self)\<lparr>gossip_epoch := 9, gossip_seq := 3\<rparr>, known_peers = []\<rparr> demo_view)) ''n2'' of
     None \<Rightarrow> False | Some q \<Rightarrow> peer_supports_profile q ''gpt'' ''FAST''"
proof -
  have valid: "validate_cookbook (se_cookbook demo_self) = Ok ()"
    by (simp add: demo_self_def demo_cookbook_valid)
  have snap: "get_gossip_peer_state demo_self 9 2 =
      (Some ((get_self_peer_state demo_self)\<lparr>gossip_epoch := 9, gossip_seq := 3\<rparr>), 3)"
    by (simp add: get_gossip_peer_state_def)
  have prev: "case hm_get (cv_peers demo_view) (node_id (se_config demo_self)) of None \<Rightarrow> True
      | Some q0 \<Rightarrow> gossip_epoch q0 = 0 \<or> gossip_epoch q0 = 9 \<and> gossip_seq q0 \<le> 2"
    by (simp add: demo_self_def demo_view_def demo_message_def)
  have "list_ex (\<lambda>mp. eq_ignore_ascii_case (m_name (fst mp)) ''gpt'' \<and> eq_ignore_ascii_case (p_id (snd mp)) ''FAST'')
      (offered_pairs (model_defaults (se_config demo_self)) (se_cookbook demo_self))"
    by (simp add: demo_self_def offered_pairs_def enabled_pairs_def cookbook_pairs_def demo_cookbook_def pair_enabled_def
        blank_profile_def effective_max_instances_def demo_config_def eq_ignore_ascii_case_def
        to_lowercase_def ascii_lower_def char_of_def bit_0)
  with gossip_carries_cookbook [OF valid snap _ prev, where ver = "''1''" and model_name = "''gpt''" and pid = "''FAST''"
      and cfg = demo_config and url_parse = "\<lambda>_. None" and now = 110 and src = None and infos = "[]"]
  show ?thesis by (simp add: demo_self_def split: option.splits)
qed

section \<open>Circuits of a round\<close>

lemma url_map_fold:
  "hm_get (fold (\<lambda>p. hm_insert (ps_address p) (ps_node_id p)) xs m) u = None
     \<longleftrightarrow> hm_get m u = None \<and> (\<forall>p \<in> set xs. ps_address p \<noteq> u)"
proof (induction xs arbitrary: m)
  case (Cons p xs)
  show ?case by (simp only: fold_Cons comp_apply Cons.IH) (auto simp: hm_simps)
qed simp

lemma url_map_None: "hm_get (url_to_node_id_of ps) u = None \<longleftrightarrow> (\<forall>p \<in> set (hm_values ps). ps_address p \<noteq> u)"
  by (simp only: url_to_node_id_of_def url_map_fold) simp

lemma url_map_fold_Some:
  "hm_get (fold (\<lambda>p. hm_insert (ps_address p) (ps_node_id p)) xs m) u = Some n
   \<Longrightarrow> hm_get m u = Some n \<or> (\<exists>p \<in> set xs. ps_address p = u \<and> ps_node_id p = n)"
proof (induction xs arbitrary: m)
  case (Cons p xs)
  from Cons.IH [of "hm_insert (ps_address p) (ps_node_id p) m"] Cons.prems
  show ?case by (auto simp: hm_simps split: if_splits)
qed simp

lemmas forget_get = conjunct1 [OF forget_spec]

lemma claim_dom:
  "(hm_get (snd (try_claim_dispatch_sync cfg locked now key m)) k = None) = (hm_get m k = None)"
  by (auto simp: try_claim_dispatch_sync_def hm_simps split: option.splits prod.splits)

lemma send_all_urls:
  "map gs_url (fst (send_all env msg um us m)) =
     filter (\<lambda>u. u \<noteq> ps_address (origin msg) \<and> (ge_announces_drain env \<or> ge_permit env u)) us"
  by (induction us arbitrary: m) (auto simp: Let_def split_beta)

lemma send_all_keys:
  "s \<in> set (fst (send_all env msg um us m)) \<Longrightarrow>
   gs_expected s = hm_get um (gs_url s) \<and> gs_cb_key s = (case hm_get um (gs_url s) of Some n \<Rightarrow> n | None \<Rightarrow> gs_url s)"
  by (induction us arbitrary: m) (auto simp: Let_def split_beta split: if_splits option.splits)

lemma send_all_dom: "(hm_get (snd (send_all env msg um us m)) k = None) = (hm_get m k = None)"
proof (induction us arbitrary: m)
  case (Cons u us)
  show ?case by (simp add: Let_def split_beta Cons.IH claim_dom)
qed simp

text \<open>A gossip round sends to every target but itself that got a permit, and to all of them when
  it announces the drain. A send to a known peer is accounted under the node id routing uses, any
  other under its URL; a URL under which nothing is sent any more loses its circuit, while the
  circuits of known peers are kept.\<close>

theorem gossip_round_targets:
  fixes env my_state ps tracked m
  shows "case gossip_round env my_state ps tracked m of (sends, tracked', m') \<Rightarrow>
      map gs_url sends = filter (\<lambda>u. u \<noteq> ps_address my_state \<and> (ge_announces_drain env \<or> ge_permit env u))
        (gossip_targets (ge_config env) (ge_mdns env) ps)
      \<and> list_all (\<lambda>s. case gs_expected s of
            Some n \<Rightarrow> gs_cb_key s = n \<and> list_ex (\<lambda>p. ps_address p = gs_url s \<and> ps_node_id p = n) (hm_values ps)
          | None \<Rightarrow> gs_cb_key s = gs_url s \<and> gs_url s \<in> set tracked'
              \<and> \<not> list_ex (\<lambda>p. ps_address p = gs_url s) (hm_values ps)) sends
      \<and> list_all (\<lambda>k. k \<in> set (map ps_node_id (hm_values ps))
            \<or> k \<in> set (gossip_targets (ge_config env) (ge_mdns env) ps) \<and> k \<noteq> ps_address my_state
              \<and> \<not> list_ex (\<lambda>p. ps_address p = k) (hm_values ps)
            \<or> hm_get m' k = None) tracked
      \<and> list_all (\<lambda>p. (hm_get m' (ps_node_id p) = None) = (hm_get m (ps_node_id p) = None)) (hm_values ps)"
proof -
  let ?targets = "gossip_targets (ge_config env) (ge_mdns env) ps"
  let ?um = "url_to_node_id_of ps" and ?ids = "map ps_node_id (hm_values ps)"
  let ?keys = "gossip_url_circuit_keys tracked ?targets ?um ?ids (ps_address my_state)"
  let ?m1 = "snd (forget (snd ?keys) m)"
  let ?msg = "\<lparr>origin = my_state, known_peers = known_peers_of ps\<rparr>"
  let ?r = "send_all env ?msg ?um ?targets ?m1"
  have round: "gossip_round env my_state ps tracked m = (fst ?r, remdups (tracked @ fst ?keys), snd ?r)"
    by (simp add: gossip_round_def reconcile_gossip_url_circuits_def Let_def split_beta)
  have urls: "map gs_url (fst ?r) = filter (\<lambda>u. u \<noteq> ps_address my_state \<and> (ge_announces_drain env \<or> ge_permit env u)) ?targets"
    by (simp add: send_all_urls)
  have sends: "case gs_expected s of
            Some n \<Rightarrow> gs_cb_key s = n \<and> list_ex (\<lambda>p. ps_address p = gs_url s \<and> ps_node_id p = n) (hm_values ps)
          | None \<Rightarrow> gs_cb_key s = gs_url s \<and> gs_url s \<in> set (remdups (tracked @ fst ?keys))
              \<and> \<not> list_ex (\<lambda>p. ps_address p = gs_url s) (hm_values ps)" if "s \<in> set (fst ?r)" for s
  proof -
    have "gs_url s \<in> set (map gs_url (fst ?r))" using that by simp
    then have u: "gs_url s \<in> set ?targets" "gs_url s \<noteq> ps_address my_state" unfolding urls by simp_all
    show ?thesis
    proof (cases "hm_get ?um (gs_url s)")
      case None
      with u have "gs_url s \<in> set (fst ?keys)" by (simp add: gossip_url_circuit_keys_def Let_def)
      with None send_all_keys [OF that] show ?thesis by (simp add: list_ex_iff) (metis url_map_None None set_map imageI snd_conv)
    next
      case (Some n)
      with send_all_keys [OF that] url_map_fold_Some [of "hm_values ps" "[]" "gs_url s" n] show ?thesis
        by (auto simp: list_ex_iff url_to_node_id_of_def)
    qed
  qed
  have dropped: "k \<in> set ?ids \<or> k \<in> set ?targets \<and> k \<noteq> ps_address my_state
      \<and> \<not> list_ex (\<lambda>p. ps_address p = k) (hm_values ps) \<or> hm_get (snd ?r) k = None"
    if "k \<in> set tracked" for k
  proof (cases "k \<in> set (snd ?keys)")
    case True
    then show ?thesis by (simp add: send_all_dom forget_get)
  next
    case False
    then show ?thesis
      using that url_map_None [of ps k] unfolding gossip_url_circuit_keys_def Let_def list_ex_iff by auto
  qed
  have kept: "(hm_get (snd ?r) (ps_node_id p) = None) = (hm_get m (ps_node_id p) = None)" if "p \<in> set (hm_values ps)" for p
  proof -
    have "ps_node_id p \<notin> set (snd ?keys)" using that by (auto simp: gossip_url_circuit_keys_def Let_def)
    then show ?thesis by (simp add: send_all_dom forget_get)
  qed
  show ?thesis
    unfolding round prod.case list_all_iff using urls by (intro conjI ballI sends dropped kept)
qed

section \<open>Who may gossip\<close>


end
