(* ===== verification/Noise_Handshake.thy ===== *)
theory Noise_Handshake
  imports Noise_Http Trust Gossip
begin

text \<open>
  The handshake of \<^verbatim>\<open>src/noise/handshake.rs\<close>, the checks on the peer that follow it in
  \<^verbatim>\<open>src/noise/transport.rs\<close> (\<^verbatim>\<open>connect\<close>) and \<^verbatim>\<open>src/api.rs\<close> (\<^verbatim>\<open>handle_noise_connection\<close>), and gossip received over Noise.
  The Noise protocol, HMAC and base64 are libraries, collected in the record \<open>noise_lib\<close>. Both sides are
  programs over the bytes still to be read and the bytes written so far.
\<close>

section \<open>Programs over a connection\<close>

datatype handshake_error =
    HsStreamEnded
  | HsMessageTooLarge
  | HsBufferTooSmall
  | HsLibrary
  | HsNoRemoteKey
  | HsRemoteKeyLength
  | HsTokenTooShort
  | HsTokenInvalid
  | TokenVerificationFailed

type_synonym wire = "string \<times> string"

type_synonym 'a conn = "wire \<Rightarrow> ('a, handshake_error) result \<times> wire"

definition conn_return :: "'a \<Rightarrow> 'a conn" where
  "conn_return x w = (Ok x, w)"

definition conn_fail :: "handshake_error \<Rightarrow> 'a conn" where
  "conn_fail e w = (Err e, w)"

definition conn_then :: "'a conn \<Rightarrow> ('a \<Rightarrow> 'b conn) \<Rightarrow> 'b conn" where
  "conn_then m f w = (case m w of (Inl e, w') \<Rightarrow> (Err e, w') | (Inr x, w') \<Rightarrow> f x w')"

definition conn_try :: "handshake_error \<Rightarrow> 'a option \<Rightarrow> 'a conn" where
  "conn_try e x = (case x of Some y \<Rightarrow> conn_return y | None \<Rightarrow> conn_fail e)"

text \<open>\<^verbatim>\<open>send_message\<close> and \<^verbatim>\<open>recv_message\<close>; the size is that of the reader's buffer.\<close>

definition MAX_HANDSHAKE_MESSAGE :: nat where "MAX_HANDSHAKE_MESSAGE = 65535"
definition HANDSHAKE_BUFFER_SIZE :: nat where "HANDSHAKE_BUFFER_SIZE = 1024"

definition send_message :: "string \<Rightarrow> unit conn" where
  "send_message data = (\<lambda>(inp, out).
     if MAX_HANDSHAKE_MESSAGE < length data then (Err HsMessageTooLarge, inp, out)
     else (Ok (), inp, out @ be_bytes 2 (length data) @ data))"

definition recv_message :: "nat \<Rightarrow> string conn" where
  "recv_message cap = (\<lambda>(inp, out).
     if length inp < 2 then (Err HsStreamEnded, [], out)
     else
       (let len = from_be_bytes (take 2 inp); rest = drop 2 inp in
        if MAX_HANDSHAKE_MESSAGE < len then (Err HsMessageTooLarge, rest, out)
        else if cap < len then (Err HsBufferTooSmall, rest, out)
        else if length rest < len then (Err HsStreamEnded, [], out)
        else (Ok (take len rest), drop len rest, out)))"

section \<open>The two sides\<close>

record ('h, 't) noise_lib =
  hs_responder :: "string \<Rightarrow> 'h option"
  hs_initiator :: "string \<Rightarrow> 'h option"
  hs_read :: "'h \<Rightarrow> string \<Rightarrow> 'h option"
  hs_write :: "'h \<Rightarrow> (string \<times> 'h) option"
  hs_remote_static :: "'h \<Rightarrow> string option"
  hs_hash :: "'h \<Rightarrow> string"
  hs_transport :: "'h \<Rightarrow> 't option"
  tr_read :: "'t \<Rightarrow> string \<Rightarrow> (string \<times> 't) option"
  tr_write :: "'t \<Rightarrow> string \<Rightarrow> (string \<times> 't) option"
  hmac_sha256 :: "string \<Rightarrow> string \<Rightarrow> string"
  base64_decode :: "string \<Rightarrow> string option"

record 't noise_session =
  ns_transport :: 't
  peer_public_key :: string
  peer_node_id :: "string option"

definition compute_token_verification :: "('h, 't) noise_lib \<Rightarrow> string \<Rightarrow> string \<Rightarrow> string" where
  "compute_token_verification lib token h = hmac_sha256 lib token h"

definition verify_token :: "string \<Rightarrow> string \<Rightarrow> bool" where
  "verify_token expected received =
     (if length expected \<noteq> length received then False
      else fold (\<lambda>(a, b) acc. acc OR (byte a XOR byte b)) (zip expected received) (0 :: u8) = 0)"

definition remote_key :: "('h, 't) noise_lib \<Rightarrow> 'h \<Rightarrow> string conn" where
  "remote_key lib h = conn_then (conn_try HsNoRemoteKey (hs_remote_static lib h))
     (\<lambda>k. if length k = 32 then conn_return k else conn_fail HsRemoteKeyLength)"

text \<open>Read the peer's proof of the token and its name; write our own.\<close>

definition recv_proof :: "('h, 't) noise_lib \<Rightarrow> 't \<Rightarrow> (string \<times> 't) conn" where
  "recv_proof lib t = conn_then (recv_message HANDSHAKE_BUFFER_SIZE) (\<lambda>msg.
     conn_then (conn_try HsLibrary (tr_read lib t msg)) (\<lambda>(payload, t').
     if length payload < 32 then conn_fail HsTokenTooShort else conn_return (payload, t')))"

definition check_proof :: "(string \<Rightarrow> string) \<Rightarrow> ('h, 't) noise_lib \<Rightarrow> string \<Rightarrow> string \<Rightarrow> string \<Rightarrow> string conn" where
  "check_proof lossy lib token h payload =
     (if verify_token (compute_token_verification lib token h) (take 32 payload)
      then conn_return (from_utf8_lossy lossy (drop 32 payload)) else conn_fail TokenVerificationFailed)"

definition send_proof :: "('h, 't) noise_lib \<Rightarrow> string \<Rightarrow> string \<Rightarrow> string \<Rightarrow> 't \<Rightarrow> 't conn" where
  "send_proof lib token h our_node_id t =
     conn_then (conn_try HsLibrary (tr_write lib t (compute_token_verification lib token h @ our_node_id)))
       (\<lambda>(msg, t'). conn_then (send_message msg) (\<lambda>_. conn_return t'))"

definition respond ::
  "(string \<Rightarrow> string) \<Rightarrow> ('h, 't) noise_lib \<Rightarrow> string \<Rightarrow> string \<Rightarrow> string \<Rightarrow> 't noise_session conn" where
  "respond lossy lib private_key cluster_token our_node_id =
     conn_then (conn_try HsLibrary (hs_responder lib private_key)) (\<lambda>h0.
     conn_then (recv_message HANDSHAKE_BUFFER_SIZE) (\<lambda>m1.
     conn_then (conn_try HsLibrary (hs_read lib h0 m1)) (\<lambda>h1.
     conn_then (conn_try HsLibrary (hs_write lib h1)) (\<lambda>(m2, h2).
     conn_then (send_message m2) (\<lambda>_.
     conn_then (recv_message HANDSHAKE_BUFFER_SIZE) (\<lambda>m3.
     conn_then (conn_try HsLibrary (hs_read lib h2 m3)) (\<lambda>h3.
     conn_then (remote_key lib h3) (\<lambda>key.
     conn_then (conn_try HsLibrary (hs_transport lib h3)) (\<lambda>t0.
     conn_then (recv_proof lib t0) (\<lambda>(payload, t1).
     conn_then (conn_try HsTokenInvalid (base64_decode lib cluster_token)) (\<lambda>token.
     conn_then (check_proof lossy lib token (hs_hash lib h3) payload) (\<lambda>peer.
     conn_then (send_proof lib token (hs_hash lib h3) our_node_id t1) (\<lambda>t2.
     conn_return \<lparr>ns_transport = t2, peer_public_key = key, peer_node_id = Some peer\<rparr>)))))))))))))"

definition initiate ::
  "(string \<Rightarrow> string) \<Rightarrow> ('h, 't) noise_lib \<Rightarrow> string \<Rightarrow> string \<Rightarrow> string \<Rightarrow> 't noise_session conn" where
  "initiate lossy lib private_key cluster_token our_node_id =
     conn_then (conn_try HsLibrary (hs_initiator lib private_key)) (\<lambda>h0.
     conn_then (conn_try HsLibrary (hs_write lib h0)) (\<lambda>(m1, h1).
     conn_then (send_message m1) (\<lambda>_.
     conn_then (recv_message HANDSHAKE_BUFFER_SIZE) (\<lambda>m2.
     conn_then (conn_try HsLibrary (hs_read lib h1 m2)) (\<lambda>h2.
     conn_then (conn_try HsLibrary (hs_write lib h2)) (\<lambda>(m3, h3).
     conn_then (send_message m3) (\<lambda>_.
     conn_then (remote_key lib h3) (\<lambda>key.
     conn_then (conn_try HsLibrary (hs_transport lib h3)) (\<lambda>t0.
     conn_then (conn_try HsTokenInvalid (base64_decode lib cluster_token)) (\<lambda>token.
     conn_then (send_proof lib token (hs_hash lib h3) our_node_id t0) (\<lambda>t1.
     conn_then (recv_proof lib t1) (\<lambda>(payload, t2).
     conn_then (check_proof lossy lib token (hs_hash lib h3) payload) (\<lambda>peer.
     conn_return \<lparr>ns_transport = t2, peer_public_key = key, peer_node_id = Some peer\<rparr>)))))))))))))"

section \<open>Who the peer is\<close>

text \<open>
  \<^verbatim>\<open>connect\<close> after the TCP connection, and \<^verbatim>\<open>handle_noise_connection\<close> up to its request loop. \<open>b64\<close> is
  the base64 encoder; a handshake that times out is one that fails; whether the file of known peers could be written and the time are arguments.
\<close>

datatype connect_error =
    HandshakeFailed handshake_error
  | NodeIdMismatch string string
  | PeerRefused noise_trust_error

definition key_display :: "(string \<Rightarrow> string) \<Rightarrow> 't noise_session \<Rightarrow> string" where
  "key_display b64 s = ''noise25519:'' @ b64 (peer_public_key s)"

definition session_name :: "'t noise_session \<Rightarrow> string" where
  "session_name s = (case peer_node_id s of Some n \<Rightarrow> n | None \<Rightarrow> ''unknown'')"

record noise_context =
  nc_private_key :: string
  nc_cluster_token :: string
  nc_node_id :: string
  nc_config :: cluster_noise_config

definition connect ::
  "(string \<Rightarrow> string) \<Rightarrow> ('h, 't) noise_lib \<Rightarrow> (string \<Rightarrow> string) \<Rightarrow> noise_context \<Rightarrow> bool \<Rightarrow> nat \<Rightarrow>
   string option \<Rightarrow> wire \<Rightarrow> known_peers_map \<Rightarrow>
   ('t noise_session, connect_error) result \<times> wire \<times> known_peers_map" where
  "connect lossy lib b64 ctx saved now expected_peer_node_id w m =
     (case initiate lossy lib (nc_private_key ctx) (nc_cluster_token ctx) (nc_node_id ctx) w of
        (Inl e, w') \<Rightarrow> (Err (HandshakeFailed e), w', m)
      | (Inr s, w') \<Rightarrow>
          (case (case expected_peer_node_id of
                   Some n \<Rightarrow> if session_name s \<noteq> n then Some (NodeIdMismatch n (session_name s)) else None
                 | None \<Rightarrow> None) of
             Some e \<Rightarrow> (Err e, w', m)
           | None \<Rightarrow>
               (case verify_peer (nc_config ctx) saved now (session_name s) (key_display b64 s) m of
                  (Inl e, m') \<Rightarrow> (Err (PeerRefused e), w', m')
                | (Inr _, m') \<Rightarrow> (Ok s, w', m'))))"

definition accept_noise ::
  "(string \<Rightarrow> string) \<Rightarrow> ('h, 't) noise_lib \<Rightarrow> (string \<Rightarrow> string) \<Rightarrow> noise_context option \<Rightarrow> string \<Rightarrow> bool \<Rightarrow> nat \<Rightarrow>
   wire \<Rightarrow> known_peers_map \<Rightarrow> ('t noise_session option \<times> wire) \<times> known_peers_map" where
  "accept_noise lossy lib b64 ctx our_node_id saved now w m =
     (case ctx of
        None \<Rightarrow> ((None, w), m)
      | Some c \<Rightarrow>
          (case respond lossy lib (nc_private_key c) (nc_cluster_token c) our_node_id w of
             (Inl e, w') \<Rightarrow> ((None, w'), m)
           | (Inr s, w') \<Rightarrow>
               (case verify_peer (nc_config c) saved now (session_name s) (key_display b64 s) m of
                  (Inl e, m') \<Rightarrow> ((None, w'), m')
                | (Inr _, m') \<Rightarrow> ((Some s, w'), m'))))"

section \<open>Serving a connection\<close>

text \<open>
  \<^verbatim>\<open>handle_noise_gossip\<close> and the request loop of \<^verbatim>\<open>handle_noise_connection\<close>. The JSON parser of gossip
  messages, the router of all other requests and the time at which a gossip message is handled (by
  the number of bytes not yet read) are arguments of the loop; a response is its status, reason,
  headers and body frames. No request but gossip changes the view of the cluster.
\<close>

record noise_reply =
  rp_status :: u16
  rp_reason :: string
  rp_headers :: header_list
  rp_frames :: "string list"

record serve_env =
  sv_config :: node_config
  sv_version :: string
  sv_url_parse :: "string \<Rightarrow> url option"
  sv_parse_gossip :: "string \<Rightarrow> gossip_message option"
  sv_route :: "noise_request \<Rightarrow> noise_reply"
  sv_json :: "u16 \<Rightarrow> string \<Rightarrow> noise_reply"
  sv_time :: "nat \<Rightarrow> u64"
  sv_remote :: socket_addr

definition handle_noise_gossip ::
  "serve_env \<Rightarrow> u64 \<Rightarrow> string \<Rightarrow> string \<Rightarrow> cluster_view \<Rightarrow> noise_reply \<times> cluster_view" where
  "handle_noise_gossip env now body peer v =
     (case sv_parse_gossip env body of
        Some msg \<Rightarrow>
          if ps_node_id (origin msg) \<noteq> peer then (sv_json env 403 ''Peer node_id mismatch'', v)
          else (sv_json env 200 ''ok'',
            process_gossip_message (sv_config env) (sv_version env) (sv_url_parse env) now
              (Some (sv_remote env)) msg v)
      | None \<Rightarrow> (sv_json env 400 ''Invalid JSON'', v))"

definition noise_dispatch ::
  "serve_env \<Rightarrow> u64 \<Rightarrow> string \<Rightarrow> noise_request \<Rightarrow> cluster_view \<Rightarrow> noise_reply \<times> cluster_view" where
  "noise_dispatch env now peer req v =
     (if nr_method req = ''POST'' \<and> nr_path req = ''/cluster/gossip''
      then handle_noise_gossip env now (nr_body req) peer v
      else (sv_route env req, v))"

lemma recv_request_shorter:
  "recv_request lossy dec t inp = Ok (req, t', rest) \<Longrightarrow> length rest < length inp"
  by (auto simp: recv_request_def recv_data_def dest: recv_frames_shorter split: sum.splits)

function serve_noise ::
  "(string \<Rightarrow> string) \<Rightarrow> ('h, 't) noise_lib \<Rightarrow> serve_env \<Rightarrow> string \<Rightarrow> 't \<Rightarrow> string \<Rightarrow> cluster_view \<Rightarrow>
   string \<times> cluster_view" where
  "serve_noise lossy lib env peer t inp v =
     (case recv_request lossy (tr_read lib) t inp of
        Inl e \<Rightarrow> ([], v)
      | Inr (req, t1, rest) \<Rightarrow>
          (let (reply, v') = noise_dispatch env (sv_time env (length rest)) peer req v in
           case send_noise_response (tr_write lib) t1 (rp_status reply) (rp_reason reply)
                  (rp_headers reply) (rp_frames reply) of
             (out, Inl e) \<Rightarrow> (out, v')
           | (out, Inr t2) \<Rightarrow>
               (let (out', v'') = serve_noise lossy lib env peer t2 rest v' in (out @ out', v''))))"
  by pat_completeness auto
termination
  by (relation "measure (\<lambda>(lossy, lib, env, peer, t, inp, v). length inp)")
    (auto dest!: sym [of "Inr _"] recv_request_shorter)

declare serve_noise.simps [simp del]

definition handle_noise_connection ::
  "(string \<Rightarrow> string) \<Rightarrow> ('h, 't) noise_lib \<Rightarrow> (string \<Rightarrow> string) \<Rightarrow> noise_context option \<Rightarrow> bool \<Rightarrow> nat \<Rightarrow>
   serve_env \<Rightarrow> string \<Rightarrow> known_peers_map \<Rightarrow> cluster_view \<Rightarrow> string \<times> known_peers_map \<times> cluster_view" where
  "handle_noise_connection lossy lib b64 ctx saved now env inp m v =
     (case accept_noise lossy lib b64 ctx (node_id (sv_config env)) saved now (inp, []) m of
        ((None, _, out), m') \<Rightarrow> (out, m', v)
      | ((Some s, inp', out), m') \<Rightarrow>
          (let (out', v') = serve_noise lossy lib env (session_name s) (ns_transport s) inp' v
           in (out @ out', m', v')))"

section \<open>What a completed handshake proves\<close>

text \<open>The peer sent, under the transport keys of a finished handshake, the keyed hash of that
  handshake under our token; the rest of that message is its name.\<close>

definition proven_peer ::
  "(string \<Rightarrow> string) \<Rightarrow> ('h, 't) noise_lib \<Rightarrow> string \<Rightarrow> string \<Rightarrow> string \<Rightarrow> bool" where
  "proven_peer lossy lib cluster_token key name = (\<exists>h t u msg payload t' token.
     hs_remote_static lib h = Some key \<and> length key = 32
     \<and> hs_transport lib h = Some t \<and> (u = t \<or> (\<exists>p c. tr_write lib t p = Some (c, u)))
     \<and> tr_read lib u msg = Some (payload, t')
     \<and> base64_decode lib cluster_token = Some token
     \<and> take 32 payload = hmac_sha256 lib token (hs_hash lib h) \<and> 32 \<le> length payload
     \<and> name = from_utf8_lossy lossy (drop 32 payload))"

lemma verify_token_iff: "verify_token a b \<longleftrightarrow> a = b"
  using constant_time_eq_iff [of a b] unfolding verify_token_def constant_time_eq_def by simp

lemma conn_then_Ok:
  "conn_then m f w = (Ok y, w'') \<longleftrightarrow> (\<exists>x w'. m w = (Ok x, w') \<and> f x w' = (Ok y, w''))"
  by (auto simp: conn_then_def split: prod.splits sum.splits)

lemma conn_return_Ok: "conn_return x w = (Ok y, w') \<longleftrightarrow> y = x \<and> w' = w"
  by (auto simp: conn_return_def)

lemma conn_try_Ok: "conn_try e x w = (Ok y, w') \<longleftrightarrow> x = Some y \<and> w' = w"
  by (auto simp: conn_try_def conn_return_def conn_fail_def split: option.split)

lemma conn_guard_Ok: "(if c then conn_fail e else conn_return x) w = (Ok y, w') \<longleftrightarrow> \<not> c \<and> y = x \<and> w' = w"
  by (auto simp: conn_fail_def conn_return_def)

lemma remote_key_Ok: "remote_key lib h w = (Ok key, w') \<longleftrightarrow> hs_remote_static lib h = Some key \<and> length key = 32 \<and> w' = w"
  by (auto simp: remote_key_def conn_then_Ok conn_try_Ok conn_return_def conn_fail_def split: if_splits)

lemma recv_proof_Ok:
  "recv_proof lib t w = (Ok (payload, t'), w') \<longleftrightarrow>
     (\<exists>msg. recv_message HANDSHAKE_BUFFER_SIZE w = (Ok msg, w') \<and> tr_read lib t msg = Some (payload, t') \<and> 32 \<le> length payload)"
  unfolding recv_proof_def conn_then_Ok conn_try_Ok by (auto simp: conn_guard_Ok)
lemma check_proof_Ok:
  "check_proof lossy lib token h payload w = (Ok name, w') \<longleftrightarrow>
     take 32 payload = hmac_sha256 lib token h \<and> name = from_utf8_lossy lossy (drop 32 payload) \<and> w' = w"
  by (auto simp: check_proof_def verify_token_iff compute_token_verification_def conn_return_def conn_fail_def split: if_splits)

lemma send_proof_Ok:
  "send_proof lib token h our t w = (Ok t', w') \<longleftrightarrow>
     (\<exists>msg. tr_write lib t (hmac_sha256 lib token h @ our) = Some (msg, t') \<and> send_message msg w = (Ok (), w'))"
  by (cases w') (auto simp: send_proof_def conn_then_Ok conn_try_Ok conn_return_Ok compute_token_verification_def split: prod.splits)

lemmas conn_Ok = conn_then_Ok conn_try_Ok conn_return_Ok remote_key_Ok recv_proof_Ok check_proof_Ok send_proof_Ok

lemma respond_proves:
  assumes "respond lossy lib key token our w = (Ok s, w')"
  shows "proven_peer lossy lib token (peer_public_key s) (session_name s)"
  using assms
  by (clarsimp simp: respond_def conn_Ok session_name_def proven_peer_def split: prod.splits) blast

lemma initiate_proves:
  assumes "initiate lossy lib key token our w = (Ok s, w')"
  shows "proven_peer lossy lib token (peer_public_key s) (session_name s)"
  using assms
  by (clarsimp simp: initiate_def conn_Ok session_name_def proven_peer_def split: prod.splits) blast

lemma verify_ok_binds:
  assumes "verify_peer cfg saved now nid key m = (Ok (), m')"
  shows "bound_key m' nid = Some (normalize_public_key key) \<and> (noise_allowed_keys cfg \<noteq> [] \<longrightarrow> pinned cfg key)"
proof -
  have ok: "fst (verify_peer cfg saved now nid key m) = Ok ()" and m': "m' = snd (verify_peer cfg saved now nid key m)"
    using assms by simp_all
  have "bound_key m nid \<noteq> None \<Longrightarrow> check_peer nid key (tofu cfg) (noise_allowed_keys cfg) m \<noteq> TofuAccepted"
    using accepts_unbound by fastforce
  moreover have "bound_key m nid = None \<Longrightarrow> check_peer nid key (tofu cfg) (noise_allowed_keys cfg) m = TofuAccepted"
    using ok by (auto simp: verify_peer_def check_peer_def bound_key_def Let_def split: if_splits)
  ultimately show ?thesis
    using ok unfolding m' verify_ok_iff verify_binds by (auto split: option.splits)
qed

lemma accept_noise_Some:
  assumes "accept_noise lossy lib b64 ctx our saved now w m = ((Some s, w'), m')"
  obtains c where "ctx = Some c" "proven_peer lossy lib (nc_cluster_token c) (peer_public_key s) (session_name s)"
    "bound_key m' (session_name s) = Some (normalize_public_key (key_display b64 s))"
    "noise_allowed_keys (nc_config c) \<noteq> [] \<longrightarrow> pinned (nc_config c) (key_display b64 s)"
  using assms that
  by (auto simp: accept_noise_def dest: respond_proves verify_ok_binds split: option.splits prod.splits sum.splits)

lemma dispatch_keeps_others:
  assumes "hm_get (cv_peers v) k = Some p" "k \<noteq> peer"
  shows "hm_get (cv_peers (snd (noise_dispatch env now peer req v))) k = Some p"
  using assms by (simp add: noise_dispatch_def handle_noise_gossip_def process_gossip_get split: option.split)

lemma serve_keeps_others:
  assumes "hm_get (cv_peers v) k = Some p" "k \<noteq> peer"
  shows "hm_get (cv_peers (snd (serve_noise lossy lib env peer t inp v))) k = Some p"
  using assms
proof (induction lossy lib env peer t inp v rule: serve_noise.induct)
  case (1 lossy lib env peer t inp v)
  show ?case
  proof (cases "recv_request lossy (tr_read lib) t inp")
    case (Inr x)
    obtain req t1 rest where x: "x = (req, t1, rest)" by (cases x) auto
    obtain reply v' where d: "noise_dispatch env (sv_time env (length rest)) peer req v = (reply, v')"
      by (cases "noise_dispatch env (sv_time env (length rest)) peer req v") auto
    have v': "hm_get (cv_peers v') k = Some p"
      using dispatch_keeps_others [OF 1(2,3), of env "sv_time env (length rest)" req] d by simp
    show ?thesis
      using 1(1) [OF Inr x [symmetric] refl refl d [symmetric] prod.collapse] v' 1(3)
      by (subst serve_noise.simps) (auto simp: Inr x d split: prod.splits sum.splits)
  qed (use 1 in \<open>simp add: serve_noise.simps\<close>)
qed


section \<open>Two honest nodes complete the handshake\<close>

text \<open>
  What the library promises for the pattern XX with empty payloads: messages of 32, 96 and 64 bytes
  that the other side reads, one handshake hash, each other's static key, and transport states that
  decrypt what the other one encrypts.
\<close>

definition xx_law :: "('h, 't) noise_lib \<Rightarrow> (string \<Rightarrow> string) \<Rightarrow> ('t \<Rightarrow> 't \<Rightarrow> bool) \<Rightarrow> string \<Rightarrow> string \<Rightarrow> bool" where
  "xx_law lib public_of paired key_i key_r = (\<exists>i0 i1 i2 i3 r0 r1 r2 r3 m1 m2 m3 ti tr.
     hs_initiator lib key_i = Some i0 \<and> hs_responder lib key_r = Some r0
     \<and> hs_write lib i0 = Some (m1, i1) \<and> hs_read lib r0 m1 = Some r1 \<and> length m1 = 32
     \<and> hs_write lib r1 = Some (m2, r2) \<and> hs_read lib i1 m2 = Some i2 \<and> length m2 = 96
     \<and> hs_write lib i2 = Some (m3, i3) \<and> hs_read lib r2 m3 = Some r3 \<and> length m3 = 64
     \<and> hs_hash lib i3 = hs_hash lib r3
     \<and> hs_remote_static lib i3 = Some (public_of key_r) \<and> hs_remote_static lib r3 = Some (public_of key_i)
     \<and> length (public_of key_i) = 32 \<and> length (public_of key_r) = 32
     \<and> hs_transport lib i3 = Some ti \<and> hs_transport lib r3 = Some tr
     \<and> paired ti tr)"

definition hs_frame :: "string \<Rightarrow> string" where
  "hs_frame d = be_bytes 2 (length d) @ d"

lemma send_frame: "length d \<le> 65535 \<Longrightarrow> send_message d (i, os) = (Ok (), i, os @ hs_frame d)"
  by (simp add: send_message_def hs_frame_def MAX_HANDSHAKE_MESSAGE_def)

lemma recv_frame:
  assumes "length d \<le> HANDSHAKE_BUFFER_SIZE"
  shows "recv_message HANDSHAKE_BUFFER_SIZE (hs_frame d @ i, os) = (Ok d, i, os)"
proof -
  have "from_be_bytes (be_bytes 2 (length d)) = length d"
    using assms by (simp add: from_be_be_bytes HANDSHAKE_BUFFER_SIZE_def)
  then show ?thesis
    using assms by (simp add: recv_message_def hs_frame_def Let_def MAX_HANDSHAKE_MESSAGE_def HANDSHAKE_BUFFER_SIZE_def)
qed



text \<open>A library that keeps these promises: handshake states are the role and the number of messages
  so far with the remote key, and the transport numbers its messages.\<close>

definition demo_lib :: "(nat \<times> nat, nat) noise_lib" where
  "demo_lib = \<lparr>hs_responder = (\<lambda>_. Some (1, 0)), hs_initiator = (\<lambda>_. Some (0, 0)),
     hs_read = (\<lambda>(r, n) m. if r + n \<in> {1, 3} then Some (r, n + 1) else None),
     hs_write = (\<lambda>(r, n). Some (replicate (if r = 1 then 96 else if n = 0 then 32 else 64) CHR ''m'', (r, n + 1))),
     hs_remote_static = (\<lambda>(r, n). Some (replicate 32 CHR ''k'')), hs_hash = (\<lambda>(r, n). ''hash''),
     hs_transport = (\<lambda>(r, n). Some 0), tr_read = demo_decipher, tr_write = demo_cipher,
     hmac_sha256 = (\<lambda>t h. take 32 (t @ h @ replicate 32 CHR ''p'')), base64_decode = Some\<rparr>"

lemma demo_xx_law: "xx_law demo_lib (\<lambda>_. replicate 32 CHR ''k'') (=) ''a'' ''b''"
  unfolding xx_law_def by (simp add: demo_lib_def)


text \<open>A peer that completes the handshake and gossips, for a concrete check.\<close>

definition demo_context :: noise_context where
  "demo_context = \<lparr>nc_private_key = ''b'', nc_cluster_token = ''secret'', nc_node_id = ''n1'', nc_config = demo_noise\<rparr>"

definition demo_reply :: noise_reply where
  "demo_reply = \<lparr>rp_status = 200, rp_reason = ''OK'', rp_headers = [], rp_frames = []\<rparr>"

definition demo_serve :: serve_env where
  "demo_serve = \<lparr>sv_config = demo_config, sv_version = ''1'', sv_url_parse = (\<lambda>_. None),
     sv_parse_gossip = (\<lambda>_. Some (demo_message\<lparr>origin := (origin demo_message)\<lparr>gossip_seq := 3\<rparr>\<rparr>)),
     sv_route = (\<lambda>_. demo_reply), sv_json = (\<lambda>_ _. demo_reply), sv_time = (\<lambda>_. 110),
     sv_remote = \<lparr>sa_ip = V4 0, sa_port = 80\<rparr>\<rparr>"

definition demo_transcript :: string where
  "demo_transcript = hs_frame (replicate 32 CHR ''m'') @ hs_frame (replicate 64 CHR ''m'')
     @ hs_frame (take 32 (''secrethash'' @ replicate 32 CHR ''p'') @ ''n2'' @ replicate 16 (char_of (0 :: nat)))"

lemma demo_accept:
  "\<exists>s out m'. accept_noise id demo_lib (\<lambda>_. ''K'') (Some demo_context) ''n1'' True 5 (demo_transcript @ rest, []) []
     = ((Some s, rest, out), m') \<and> session_name s = ''n2'' \<and> ns_transport s = 2"
proof -
  note run = conn_then_def conn_try_def conn_return_def remote_key_def recv_proof_def send_proof_def check_proof_def
    verify_token_iff compute_token_verification_def send_frame HANDSHAKE_BUFFER_SIZE_def from_utf8_lossy_def
    recv_frame [unfolded HANDSHAKE_BUFFER_SIZE_def]
  have "\<exists>s out. respond id demo_lib ''b'' ''secret'' ''n1'' (demo_transcript @ rest, []) = (Ok s, rest, out)
      \<and> session_name s = ''n2'' \<and> ns_transport s = 2"
    by (simp add: respond_def demo_transcript_def run demo_lib_def demo_cipher_def demo_decipher_def session_name_def)
  then obtain s out where s: "respond id demo_lib ''b'' ''secret'' ''n1'' (demo_transcript @ rest, []) = (Ok s, rest, out)"
      "session_name s = ''n2''" "ns_transport s = 2" by auto
  show ?thesis
    by (simp add: accept_noise_def demo_context_def s verify_peer_def check_peer_def add_peer_def demo_noise_def
        demo_config_def Let_def)
qed

lemma recv_nothing: "serve_noise lossy lib env peer t [] v = ([], v)"
  by (simp add: serve_noise.simps recv_request_def recv_data_def recv_frames.simps)

lemma serve_one_request:
  assumes "recv_request lossy (tr_read lib) t inp = Ok (req, t', [])"
  shows "snd (serve_noise lossy lib env peer t inp v) = snd (noise_dispatch env (sv_time env 0) peer req v)"
  by (subst serve_noise.simps) (simp add: assms recv_nothing split: prod.splits sum.splits)

lemma demo_gossip_request:
  "\<exists>inp req t'. recv_request id (tr_read demo_lib) 2 inp = Ok (req, t', [])
     \<and> nr_method req = ''POST'' \<and> nr_path req = ''/cluster/gossip''"
proof -
  have "length (request_payload ''POST'' ''/cluster/gossip'' [] []) \<le> MAX_MESSAGE_SIZE"
    by (simp add: request_payload_def MAX_MESSAGE_SIZE_def show_base.simps)
  with data_roundtrip [OF demo_session_law refl [of 2], of "request_payload ''POST'' ''/cluster/gossip'' [] []"]
  obtain out r' where got: "\<forall>rest. recv_data demo_decipher 2 (out @ rest) =
      Ok (request_payload ''POST'' ''/cluster/gossip'' [] [], r', rest)" by metis
  have parse: "parse_http_request id (request_payload ''POST'' ''/cluster/gossip'' [] []) =
      Ok \<lparr>nr_method = ''POST'', nr_path = ''/cluster/gossip'',
          nr_headers = sent_headers [] @ [(''Content-Length'', show_base 10 (length ([] :: string)))], nr_body = []\<rparr>"
    by (rule parse_request_payload) (simp_all add: plain_word_def is_white_def)
  have "recv_request id demo_decipher 2 (out @ []) = Ok (\<lparr>nr_method = ''POST'', nr_path = ''/cluster/gossip'',
          nr_headers = sent_headers [] @ [(''Content-Length'', show_base 10 (length ([] :: string)))], nr_body = []\<rparr>, r', [])"
    unfolding recv_request_def got [rule_format] by (simp add: parse)
  then show ?thesis
    unfolding demo_lib_def noise_lib.simps by (intro exI conjI) (assumption, simp_all)
qed


end
