(* ===== verification/Spawning.thy ===== *)
theory Spawning
  imports Eviction Net_Addr
begin

text \<open>
  Getting an instance for a request: \<^verbatim>\<open>try_get_or_spawn_resolved\<close> of \<^verbatim>\<open>src/node_state/mod.rs\<close>. The code
  holds the write lock of the instance map in two places, the scheduling pass and the insertion of a
  spawned process; each of them is a function on the node, and so is the preparation of the process
  between them. Other tasks run between these functions, and some of their effects need no lock: the
  drift of the registry, the states of instances while they are scanned, and the polls of processes
  are arguments.
\<close>

section \<open>The node\<close>

record node =
  nd_instances :: instances
  nd_registry :: reservation_state
  nd_pool :: port_pool
  nd_queues :: queue_state

definition retire :: "string list \<Rightarrow> node \<Rightarrow> node" where
  "retire ids nd = nd\<lparr>nd_instances := fold hm_remove ids (nd_instances nd),
     nd_pool := retire_ports (map snd (filter (\<lambda>(r, _). r \<in> set ids) (nd_instances nd))) (nd_pool nd)\<rparr>"

section \<open>Choosing an instance\<close>

definition serves :: "string \<Rightarrow> profile \<Rightarrow> llama_instance \<Rightarrow> bool" where
  "serves model_name p i = (i_model_name i = model_name \<and> i_profile_id i = p_id p)"

definition has_slot :: "node_config \<Rightarrow> llama_instance \<Rightarrow> bool" where
  "has_slot cfg i =
     (let max_concurrent = max_concurrent_requests_per_instance (model_defaults cfg) in
      max_concurrent = 0 \<or> in_flight_requests i < max_concurrent)"

definition usable_instance :: "node_config \<Rightarrow> (string \<Rightarrow> bool) \<Rightarrow> string \<Rightarrow> profile \<Rightarrow> string \<times> llama_instance \<Rightarrow> bool" where
  "usable_instance cfg alive model_name p entry =
     (serves model_name p (snd entry) \<and> alive (fst entry) \<and> \<not> has_failed (snd entry)
      \<and> \<not> draining (snd entry) \<and> has_slot cfg (snd entry))"

definition best_instance ::
  "node_config \<Rightarrow> (string \<Rightarrow> bool) \<Rightarrow> string \<Rightarrow> profile \<Rightarrow> instances \<Rightarrow> (string \<times> nat) option" where
  "best_instance cfg alive model_name p insts =
     fold (\<lambda>(rid, i) best.
       if usable_instance cfg alive model_name p (rid, i)
          \<and> (case best of None \<Rightarrow> True | Some (_, n) \<Rightarrow> in_flight_requests i < n)
       then Some (rid, in_flight_requests i) else best) insts None"

definition shared_instance :: "string \<Rightarrow> profile \<Rightarrow> instances \<Rightarrow> string option" where
  "shared_instance model_name p insts =
     map_option fst (find (\<lambda>(_, i). serves model_name p i \<and> \<not> has_failed i \<and> \<not> draining i) insts)"

text \<open>Under the write lock of the instance everything is tested again.\<close>

definition attach ::
  "node_config \<Rightarrow> (string \<Rightarrow> bool) \<Rightarrow> instant \<Rightarrow> string \<Rightarrow> instances \<Rightarrow> instances option" where
  "attach cfg alive now rid insts = (case hm_get insts rid of
     None \<Rightarrow> None
   | Some i \<Rightarrow>
       if has_slot cfg i \<and> alive rid \<and> \<not> has_failed i \<and> \<not> draining i
       then Some (hm_insert rid (i\<lparr>in_flight_requests := in_flight_requests i + 1, i_last_activity := now\<rparr>) insts)
       else None)"

section \<open>Preparing a process\<close>

record launch_target =
  lt_host :: string
  lt_host_overridden :: bool
  lt_port :: "u16 option"

definition default_target :: launch_target where
  "default_target = \<lparr>lt_host = ''127.0.0.1'', lt_host_overridden = False, lt_port = None\<rparr>"

fun parse_overrides :: "string \<Rightarrow> string list \<Rightarrow> launch_target \<Rightarrow> (launch_target, node_error) result" where
  "parse_overrides pid [] t = Ok t"
| "parse_overrides pid (a # rest) t =
     (if a = ''--host'' then
        (case rest of
           [] \<Rightarrow> Err (MissingHostArg pid)
         | h # rest' \<Rightarrow> parse_overrides pid rest' (t\<lparr>lt_host := h, lt_host_overridden := True\<rparr>))
      else case strip_prefix a ''--host='' of
        Some v \<Rightarrow> parse_overrides pid rest (t\<lparr>lt_host := v, lt_host_overridden := True\<rparr>)
      | None \<Rightarrow>
          if a = ''--port'' then
            (case rest of
               [] \<Rightarrow> Err (MissingPortArg pid)
             | v # rest' \<Rightarrow> (case parse_u16 v of
                 None \<Rightarrow> Err (InvalidPortArg v pid)
               | Some n \<Rightarrow> parse_overrides pid rest' (t\<lparr>lt_port := Some n\<rparr>)))
          else case strip_prefix a ''--port='' of
            Some v \<Rightarrow> (case parse_u16 v of
                None \<Rightarrow> Err (InvalidPortArg v pid)
              | Some n \<Rightarrow> parse_overrides pid rest (t\<lparr>lt_port := Some n\<rparr>))
          | None \<Rightarrow> parse_overrides pid rest t)"

definition final_args :: "string list \<Rightarrow> launch_target \<Rightarrow> u16 \<Rightarrow> string list" where
  "final_args pre_args t port =
     pre_args @ (if lt_host_overridden t then [] else [''--host'', lt_host t])
       @ (if lt_port t = None then [''--port'', show_base 10 (unat port)] else [])"

section \<open>The scheduling pass\<close>

text \<open>
  What a pass sees of the world: polls of the processes at the prune, the scan and the recheck, the
  samples, the time, and the registry operations that other tasks do between the plan and the
  commit, which need no lock of the map.
\<close>

datatype poll = AtPrune | AtScan | AtRecheck

record attempt_env =
  ae_config :: node_config
  ae_sha256 :: "string \<Rightarrow> string"
  ae_obs :: observation
  ae_now :: instant
  ae_alive :: "poll \<Rightarrow> string \<Rightarrow> bool"
  ae_drift :: "registry_op list"

record admission =
  ad_id :: string
  ad_args :: "string list"
  ad_hash :: string
  ad_estimate :: "u64 \<times> u64"
  ad_target :: launch_target

datatype attempt_outcome =
    Refused node_error
  | Again
  | Attached string
  | Shared string
  | Reserved admission

text \<open>The victims leave only if the registry still has the revision of the plan.\<close>

definition commit_plan ::
  "attempt_env \<Rightarrow> string \<Rightarrow> string \<Rightarrow> profile \<Rightarrow> spawn_plan \<Rightarrow> string list \<Rightarrow> string \<Rightarrow> u64 \<times> u64 \<Rightarrow> node \<Rightarrow>
   attempt_outcome \<times> node" where
  "commit_plan env rid model_name p plan args args_hash required nd =
     (if victims plan \<noteq> [] then
        (case with_revision (plan_revision plan) (\<lambda>_. retire (victims plan) nd) (nd_registry nd) of
           Some nd' \<Rightarrow> (Again, nd') | None \<Rightarrow> (Again, nd))
      else case parse_overrides (p_id p) (llama_server_args p) default_target of
        Inl e \<Rightarrow> (Refused e, nd)
      | Inr t \<Rightarrow>
          (Reserved \<lparr>ad_id = rid, ad_args = args, ad_hash = args_hash, ad_estimate = required, ad_target = t\<rparr>,
           nd\<lparr>nd_registry := reserve rid (model_name @ '':'' @ p_id p) required (nd_registry nd)\<rparr>))"

definition attempt ::
  "attempt_env \<Rightarrow> string \<Rightarrow> string \<Rightarrow> profile \<Rightarrow> bool \<Rightarrow> bool \<Rightarrow> instances \<Rightarrow> node \<Rightarrow> attempt_outcome \<times> node" where
  "attempt env rid model_name p reserve_slot has_priority_token seen nd =
     (let cfg = ae_config env; insts = nd_instances nd;
          crashed = filter (\<lambda>r. \<not> ae_alive env AtPrune r) (hm_keys insts) in
      if reserve_slot \<and> \<not> has_priority_token \<and> has_pending_waiters model_name (p_id p) (nd_queues nd)
      then (Refused YieldToWaiters, nd)
      else if crashed \<noteq> [] then (Again, retire crashed nd)
      else case (if reserve_slot then None else shared_instance model_name p seen) of
        Some r \<Rightarrow> (Shared r, nd)
      | None \<Rightarrow>
          (case Option.bind (if reserve_slot then best_instance cfg (ae_alive env AtScan) model_name p seen else None)
                  (\<lambda>(r, _). map_option (Pair r) (attach cfg (ae_alive env AtRecheck) (ae_now env) r insts)) of
             Some (r, insts') \<Rightarrow> (Attached r, nd\<lparr>nd_instances := insts'\<rparr>)
           | None \<Rightarrow>
               (let args = fst (build_pre_args p);
                    args_hash = compute_args_hash (ae_sha256 env) args;
                    required = get_memory_estimate (ae_obs env) args_hash p
                in case plan_spawn cfg (ae_obs env) (nd_registry nd) insts model_name p required of
                     Inl e \<Rightarrow> (Refused e, nd)
                   | Inr plan \<Rightarrow>
                       commit_plan env rid model_name p plan args args_hash required
                         (nd\<lparr>nd_registry := apply_ops (ae_drift env) (nd_registry nd)\<rparr>))))"

section \<open>Starting the process\<close>

definition new_instance ::
  "string \<Rightarrow> string \<Rightarrow> string \<Rightarrow> string \<Rightarrow> u16 \<Rightarrow> string \<Rightarrow> bool \<Rightarrow> instant \<Rightarrow> llama_instance" where
  "new_instance rid model_name profile_id host port args_hash cold now =
     \<lparr>i_id = rid, i_model_name = model_name, i_profile_id = profile_id, i_host = host, i_port = port,
      i_start_time = now, i_last_activity = now, i_child = None, in_flight_requests = 0,
      i_status = Starting, i_args_hash = args_hash, is_cold_start = cold, draining = False,
      draining_for_competitor = False, evictable_after = None, llama_cpp_version = None,
      i_memory_reservation = None, streams_awaiting_downstream = 0, startup_failure_claimed = False,
      i_backend_api_key = None\<rparr>"

text \<open>
  One turn of the spawn loop: the key for the backend (\<open>None\<close> if it is unusable), the bind test and
  the start of the port scan, whether memory was ever learned for these arguments, the version of the
  binary, the samples right before the start, and the process number, \<open>None\<close> if it did not start.
\<close>

record exec_env =
  xe_key :: "string option option"
  xe_avail :: "u16 \<Rightarrow> bool"
  xe_scan_start :: nat
  xe_has_memory_data :: bool
  xe_llama_version :: "string option"
  xe_obs :: observation
  xe_now :: instant
  xe_child :: "u32 option"

datatype exec_outcome =
    ExecFailed node_error
  | ExecAgain
  | ExecStarted llama_instance "string list"

definition acquire_spawn_port :: "exec_env \<Rightarrow> launch_target \<Rightarrow> port_pool \<Rightarrow> (port_lease \<times> port_pool, node_error) result" where
  "acquire_spawn_port xe t pl =
     (case (case lt_port t of
              Some n \<Rightarrow> reserve_specific_port n pl
            | None \<Rightarrow> get_available_port (xe_avail xe) (xe_scan_start xe) pl) of
        Inl e \<Rightarrow> Err (case e of NoAvailablePorts \<Rightarrow> NodeNoAvailablePorts | PortInUse n \<Rightarrow> NodePortInUse n)
      | Inr r \<Rightarrow> Ok r)"

definition over_budget :: "node_config \<Rightarrow> observation \<Rightarrow> node \<Rightarrow> bool" where
  "over_budget cfg obs nd =
     (let r = resources (resource_accounting_for_instances obs (nd_registry nd) (nd_instances nd)) in
      max_vram_mb cfg < effective_vram_mb r \<or> max_sysmem_mb cfg < effective_sysmem_mb r)"

definition exec_attempt ::
  "node_config \<Rightarrow> exec_env \<Rightarrow> string \<Rightarrow> profile \<Rightarrow> bool \<Rightarrow> bool \<Rightarrow> admission \<Rightarrow> node \<Rightarrow> exec_outcome \<times> node" where
  "exec_attempt cfg xe model_name p reserve_slot final ad nd =
     (case xe_key xe of
        None \<Rightarrow> (ExecFailed OtherError, nd)
      | Some key \<Rightarrow>
          (case acquire_spawn_port xe (ad_target ad) (nd_pool nd) of
             Inl e \<Rightarrow> (ExecFailed e, nd)
           | Inr (lease, pl) \<Rightarrow>
               (let port = lease_port lease; nd1 = nd\<lparr>nd_pool := pl\<rparr>;
                    freed = nd\<lparr>nd_pool := snd (lease_release lease pl)\<rparr>;
                    i = (new_instance (ad_id ad) model_name (p_id p) (lt_host (ad_target ad)) port (ad_hash ad)
                           (\<not> xe_has_memory_data xe) (xe_now xe))
                          \<lparr>i_memory_reservation := Some (ad_id ad), llama_cpp_version := xe_llama_version xe,
                           i_backend_api_key := key, in_flight_requests := (if reserve_slot then 1 else 0)\<rparr>
                in if over_budget cfg (xe_obs xe) nd1 then (ExecFailed InsufficientResources, freed)
                   else case xe_child xe of
                     Some pid \<Rightarrow>
                       (ExecStarted (i\<lparr>i_child := Some pid\<rparr>) (final_args (ad_args ad) (ad_target ad) port),
                        nd1\<lparr>nd_registry := update_pid (ad_id ad) pid (nd_registry nd1)\<rparr>)
                   | None \<Rightarrow> (if final \<or> lt_port (ad_target ad) \<noteq> None then ExecFailed OtherError else ExecAgain, freed))))"

text \<open>The spawn loop makes at most \<^verbatim>\<open>MAX_SPAWN_RETRIES\<close> turns; \<open>n\<close> counts the turns left after this one.\<close>

definition MAX_SPAWN_RETRIES :: nat where "MAX_SPAWN_RETRIES = 3"

fun spawn_turns ::
  "node_config \<Rightarrow> (nat \<Rightarrow> exec_env) \<Rightarrow> string \<Rightarrow> profile \<Rightarrow> bool \<Rightarrow> admission \<Rightarrow> nat \<Rightarrow> node \<Rightarrow>
   (llama_instance \<times> string list, node_error) result \<times> node" where
  "spawn_turns cfg xes model_name p reserve_slot ad n nd =
     (case exec_attempt cfg (xes n) model_name p reserve_slot (n = 0) ad nd of
        (ExecFailed e, nd') \<Rightarrow> (Err e, nd')
      | (ExecStarted i args, nd') \<Rightarrow> (Ok (i, args), nd')
      | (ExecAgain, nd') \<Rightarrow>
          (case n of 0 \<Rightarrow> (Err OtherError, nd') | Suc k \<Rightarrow> spawn_turns cfg xes model_name p reserve_slot ad k nd'))"

definition spawn_loop ::
  "node_config \<Rightarrow> (nat \<Rightarrow> exec_env) \<Rightarrow> string \<Rightarrow> profile \<Rightarrow> bool \<Rightarrow> admission \<Rightarrow> node \<Rightarrow>
   (llama_instance \<times> string list, node_error) result \<times> node" where
  "spawn_loop cfg xes model_name p reserve_slot ad nd =
     spawn_turns cfg xes model_name p reserve_slot ad (MAX_SPAWN_RETRIES - 1) nd"

section \<open>Inserting the instance\<close>

text \<open>
  Whether the profile the process was started from is still the one of the cookbook, and whether the
  binary changed since. The three readings of the cookbook version and the lookup between them are
  arguments; \<open>look\<close> resolves a name.
\<close>

record insert_env =
  ie_resolved_version :: u64
  ie_version_seen :: u64
  ie_version_checked :: u64
  ie_version_locked :: u64
  ie_look :: "string \<Rightarrow> (string \<times> profile) option"
  ie_spawn_generation :: u64
  ie_current_generation :: u64

definition profile_replaced_since_resolve ::
  "(string \<Rightarrow> string) \<Rightarrow> (string \<Rightarrow> (string \<times> profile) option) \<Rightarrow> string \<Rightarrow> profile \<Rightarrow> string option" where
  "profile_replaced_since_resolve sha256 look model_name p =
     (case look (model_name @ '':'' @ p_id p) of
        None \<Rightarrow> Some ''model_or_profile_missing_or_disabled''
      | Some (_, current) \<Rightarrow>
          if args_hash_for_profile sha256 p \<noteq> args_hash_for_profile sha256 current
          then Some ''args_changed'' else None)"

definition replaced_reason :: "(string \<Rightarrow> string) \<Rightarrow> insert_env \<Rightarrow> string \<Rightarrow> profile \<Rightarrow> string option" where
  "replaced_reason sha256 ie model_name p =
     (let r1 = (if ie_version_seen ie \<noteq> ie_resolved_version ie
                then profile_replaced_since_resolve sha256 (ie_look ie) model_name p else None);
          r2 = (if ie_version_checked ie \<noteq> ie_version_seen ie then Some ''cookbook_changed'' else r1)
      in if ie_version_locked ie \<noteq> ie_version_checked ie then Some ''cookbook_changed'' else r2)"

definition insert_spawned ::
  "node_config \<Rightarrow> (string \<Rightarrow> string) \<Rightarrow> insert_env \<Rightarrow> string \<Rightarrow> profile \<Rightarrow> llama_instance \<Rightarrow> node \<Rightarrow>
   (string, node_error) result \<times> node" where
  "insert_spawned cfg sha256 ie model_name p i nd =
     (let insts = nd_instances nd;
          killed = nd\<lparr>nd_pool := release_port (i_port i) (nd_pool nd),
                      nd_registry := release_memory (i_id i) (nd_registry nd)\<rparr>
      in if effective_max_instances p (model_defaults cfg) \<le> count_profile_instances insts model_name (p_id p)
         then (Err MaxInstancesProfile, killed)
         else if max_instances_per_node cfg \<le> length insts then (Err MaxInstancesNode, killed)
         else
           (let swapped = (ie_current_generation ie \<noteq> ie_spawn_generation ie);
                i' = (if swapped \<or> replaced_reason sha256 ie model_name p \<noteq> None
                      then i\<lparr>draining := True\<rparr> else i)
            in (Ok (i_id i), nd\<lparr>nd_instances := hm_insert (i_id i) i' insts,
                 nd_registry := mark_handed_off (i_id i) (nd_registry nd)\<rparr>)))"

section \<open>When the load ends\<close>

text \<open>
  The readiness task after \<^verbatim>\<open>wait_for_ready\<close>. On success the tenure starts, the model no longer needs an
  eviction, and waiters are woken up to the spare slots; on failure the instance, whose process has
  been stopped, is swept at once. \<open>spare\<close> is \<open>None\<close> for an instance without a limit.
\<close>

fun wake_while :: "nat option \<Rightarrow> string \<Rightarrow> nat \<Rightarrow> queue_state \<Rightarrow> queue_state" where
  "wake_while spare key 0 qs = qs"
| "wake_while spare key (Suc fuel) qs =
     (case spare of
        Some 0 \<Rightarrow> qs
      | _ \<Rightarrow> (let (ok, qs') = notify_queue_by_key key qs in
          if ok then wake_while (map_option (\<lambda>n. n - 1) spare) key fuel qs' else qs'))"

definition load_succeeded ::
  "node_config \<Rightarrow> instant \<Rightarrow> nat \<Rightarrow> string \<Rightarrow> string list \<Rightarrow> node \<Rightarrow> string list \<times> node" where
  "load_succeeded cfg now tenure_secs rid needs_eviction nd =
     (case hm_get (nd_instances nd) rid of
        None \<Rightarrow> (needs_eviction, nd)
      | Some i \<Rightarrow>
          (let key = i_model_name i @ '':'' @ i_profile_id i;
               max_concurrent = max_concurrent_requests_per_instance (model_defaults cfg);
               spare = (if max_concurrent = 0 then None else Some (max_concurrent - in_flight_requests i));
               qs = notify_all_queues (nd_queues nd)
           in (filter (\<lambda>k. k \<noteq> key) needs_eviction,
               nd\<lparr>nd_instances := hm_insert rid
                    (i\<lparr>i_status := Ready, evictable_after := Some (now + tenure_secs * 1000000000)\<rparr>) (nd_instances nd),
                  nd_registry := mark_ready rid (nd_registry nd),
                  nd_queues := wake_while spare key (Suc (length (queue_of key qs))) qs\<rparr>)))"

definition load_failed ::
  "(string \<Rightarrow> string) \<Rightarrow> (string \<Rightarrow> (string \<times> profile) option) \<Rightarrow> instant \<Rightarrow> (string \<Rightarrow> bool) \<Rightarrow> string \<Rightarrow>
   instances \<Rightarrow> node \<Rightarrow> node" where
  "load_failed sha256 look now alive rid seen nd =
     (let insts1 = (case hm_get (nd_instances nd) rid of
            Some i \<Rightarrow> hm_insert rid ((mark_failed i)\<lparr>i_child := None\<rparr>) (nd_instances nd)
          | None \<Rightarrow> nd_instances nd);
          (confirmed, insts2) = check_idle_instances sha256 look now (alive(rid := False)) seen insts1
      in nd\<lparr>nd_instances := insts2, nd_registry := release_memory rid (nd_registry nd),
           nd_pool := retire_ports (map snd (filter (\<lambda>(r, _). r \<in> fst ` set confirmed) insts1)) (nd_pool nd),
           nd_queues := notify_all_queues (nd_queues nd)\<rparr>)"

section \<open>Waking queues that could be served\<close>

definition wake_queue_if_admissible ::
  "node_config \<Rightarrow> (string \<Rightarrow> string) \<Rightarrow> observation \<Rightarrow> (llama_instance \<Rightarrow> bool) \<Rightarrow> string \<Rightarrow> profile \<Rightarrow> node \<Rightarrow> node" where
  "wake_queue_if_admissible cfg sha256 obs alive model_name p nd =
     (let qs = snd (notify_waiters_for_available_slots cfg alive (nd_instances nd) model_name (p_id p) (nd_queues nd));
          required = get_memory_estimate obs (args_hash_for_profile sha256 p) p
      in nd\<lparr>nd_queues := (case plan_spawn cfg obs (nd_registry nd) (nd_instances nd) model_name p required of
             Inr _ \<Rightarrow> snd (notify_queue model_name (p_id p) qs) | Inl _ \<Rightarrow> qs)\<rparr>)"

definition wake_admissible_queues ::
  "node_config \<Rightarrow> (string \<Rightarrow> string) \<Rightarrow> observation \<Rightarrow> (llama_instance \<Rightarrow> bool) \<Rightarrow>
   (string \<Rightarrow> (string \<times> profile) option) \<Rightarrow> node \<Rightarrow> node" where
  "wake_admissible_queues cfg sha256 obs alive look nd =
     fold (\<lambda>key nd. if queue_of key (nd_queues nd) = [] then nd
         else case look key of
           Some (model_name, p) \<Rightarrow> wake_queue_if_admissible cfg sha256 obs alive model_name p nd
         | None \<Rightarrow> nd)
       (hm_keys (queues (nd_queues nd))) nd"

section \<open>Which instance a request joins\<close>

lemma best_instance_filter:
  "best_instance cfg alive m p insts =
     fold (\<lambda>(rid, i) best. if (case best of None \<Rightarrow> True | Some (_, n) \<Rightarrow> in_flight_requests i < n)
       then Some (rid, in_flight_requests i) else best) (filter (usable_instance cfg alive m p) insts) None"
proof -
  have "fold (\<lambda>(rid, i) best. if usable_instance cfg alive m p (rid, i)
        \<and> (case best of None \<Rightarrow> True | Some (_, n) \<Rightarrow> in_flight_requests i < n)
      then Some (rid, in_flight_requests i) else best) insts best0 =
    fold (\<lambda>(rid, i) best. if (case best of None \<Rightarrow> True | Some (_, n) \<Rightarrow> in_flight_requests i < n)
      then Some (rid, in_flight_requests i) else best) (filter (usable_instance cfg alive m p) insts) best0" for best0
    by (induction insts arbitrary: best0) auto
  then show ?thesis by (simp add: best_instance_def)
qed

text \<open>A running minimum: the entry found is one of the list or the start, and nothing is below it.\<close>

lemma running_minimum:
  assumes "fold (\<lambda>(rid, i) best. if (case best of None \<Rightarrow> True | Some (_, n) \<Rightarrow> in_flight_requests i < n)
         then Some (rid, in_flight_requests i) else best) us best0 = r"
  shows "(r = None \<longleftrightarrow> us = [] \<and> best0 = None)
    \<and> (\<forall>rid n. r = Some (rid, n) \<longrightarrow>
        (best0 = Some (rid, n) \<or> (\<exists>i. (rid, i) \<in> set us \<and> in_flight_requests i = n))
        \<and> (\<forall>e \<in> set us. n \<le> in_flight_requests (snd e))
        \<and> (\<forall>rid' n'. best0 = Some (rid', n') \<longrightarrow> n \<le> n'))"
  using assms
proof (induction us arbitrary: best0 r)
  case (Cons u us)
  obtain rid i where u: "u = (rid, i)" by (cases u)
  define best1 where "best1 = (if (case best0 of None \<Rightarrow> True | Some (_, n) \<Rightarrow> in_flight_requests i < n)
         then Some (rid, in_flight_requests i) else best0)"
  have "fold (\<lambda>(rid, i) best. if (case best of None \<Rightarrow> True | Some (_, n) \<Rightarrow> in_flight_requests i < n)
         then Some (rid, in_flight_requests i) else best) us best1 = r"
    using Cons.prems by (simp add: u best1_def)
  note ih = Cons.IH [OF this]
  have b1: "best1 \<noteq> None" "\<And>rid' n'. best0 = Some (rid', n') \<Longrightarrow> \<exists>r1 n1. best1 = Some (r1, n1) \<and> n1 \<le> n'"
    "\<And>r1 n1. best1 = Some (r1, n1) \<Longrightarrow> n1 \<le> in_flight_requests i"
    "\<And>r1 n1. best1 = Some (r1, n1) \<Longrightarrow> best0 = Some (r1, n1) \<or> r1 = rid \<and> n1 = in_flight_requests i"
    by (auto simp: best1_def split: option.splits if_splits)
  show ?case
    using ih b1 unfolding u by simp (metis order_trans option.exhaust surj_pair)
qed simp


text \<open>A request for which a slot is free is served by it and starts nothing: without waiters ahead of it
  and crashed instances to prune, it joins the usable instance with the fewest requests, whose count
  goes up by one while nothing else changes.\<close>

theorem request_joins_least_loaded:
  assumes ok: "hm_ok (nd_instances nd)" and polls: "ae_alive env AtScan = ae_alive env AtRecheck"
    and alive: "list_all (ae_alive env AtPrune) (hm_keys (nd_instances nd))"
    and turn: "token \<or> \<not> has_pending_waiters m (p_id p) (nd_queues nd)"
    and free: "list_ex (usable_instance (ae_config env) (ae_alive env AtScan) m p) (nd_instances nd)"
  shows "\<exists>r i. hm_get (nd_instances nd) r = Some i \<and> usable_instance (ae_config env) (ae_alive env AtScan) m p (r, i)
    \<and> list_all (\<lambda>e. usable_instance (ae_config env) (ae_alive env AtScan) m p e \<longrightarrow>
          in_flight_requests i \<le> in_flight_requests (snd e)) (nd_instances nd)
    \<and> attempt env rid m p True token (nd_instances nd) nd =
        (Attached r, nd\<lparr>nd_instances := hm_insert r
           (i\<lparr>in_flight_requests := in_flight_requests i + 1, i_last_activity := ae_now env\<rparr>) (nd_instances nd)\<rparr>)"
proof -
  let ?us = "filter (usable_instance (ae_config env) (ae_alive env AtScan) m p) (nd_instances nd)"
  let ?best = "best_instance (ae_config env) (ae_alive env AtScan) m p (nd_instances nd)"
  note min = running_minimum [OF best_instance_filter [of "ae_config env" "ae_alive env AtScan" m p "nd_instances nd", symmetric]]
  have "?us \<noteq> []" using free by (auto simp: list_ex_iff filter_empty_conv)
  with min obtain r n where best: "?best = Some (r, n)" by (cases ?best) auto
  with min obtain i where i: "(r, i) \<in> set ?us" "in_flight_requests i = n" by auto
  then have get: "hm_get (nd_instances nd) r = Some i" and use: "usable_instance (ae_config env) (ae_alive env AtScan) m p (r, i)"
    using ok by auto
  have least: "list_all (\<lambda>e. usable_instance (ae_config env) (ae_alive env AtScan) m p e \<longrightarrow>
      in_flight_requests i \<le> in_flight_requests (snd e)) (nd_instances nd)"
    using min best i by (auto simp: list_all_iff)
  have none: "filter (\<lambda>r. \<not> ae_alive env AtPrune r) (hm_keys (nd_instances nd)) = []"
    using alive by (auto simp: filter_empty_conv list_all_iff)
  have "attempt env rid m p True token (nd_instances nd) nd =
        (Attached r, nd\<lparr>nd_instances := hm_insert r
           (i\<lparr>in_flight_requests := in_flight_requests i + 1, i_last_activity := ae_now env\<rparr>) (nd_instances nd)\<rparr>)"
    using turn use by (simp add: attempt_def Let_def none best attach_def get usable_instance_def polls [symmetric])
  with get use least show ?thesis by blast
qed

section \<open>Which instances serve\<close>

text \<open>A new instance takes further requests only if it runs the binary and the arguments of now: let
  \<open>history\<close> give the cookbook at each version, the profile of the request be the one of the version it was
  resolved at, and the lookup before the insertion be of the version seen if no reload came during it.
  If the inserted instance does not drain, then its profile has the same arguments in the cookbook of
  the version read under the lock, and no other binary was installed since before its start.\<close>

theorem inserted_matches_cookbook:
  assumes ins: "insert_spawned cfg sha256 ie m p i nd = (Ok rid, nd')"
    and serving: "hm_get (nd_instances nd') rid = Some j" "\<not> draining j"
    and resolved: "history (ie_resolved_version ie) (m @ '':'' @ p_id p) = Some (n, p)"
    and looked: "ie_version_checked ie = ie_version_seen ie \<longrightarrow> ie_look ie = history (ie_version_seen ie)"
  shows "(\<exists>n q. history (ie_version_locked ie) (m @ '':'' @ p_id p) = Some (n, q)
        \<and> args_hash_for_profile sha256 q = args_hash_for_profile sha256 p)
    \<and> ie_current_generation ie = ie_spawn_generation ie"
proof -
  from ins serving have same: "ie_current_generation ie = ie_spawn_generation ie"
    and kept: "replaced_reason sha256 ie m p = None"
    by (auto simp: insert_spawned_def Let_def hm_simps split: if_splits)
  from kept have versions: "ie_version_locked ie = ie_version_checked ie" "ie_version_checked ie = ie_version_seen ie"
    and unchanged: "ie_version_seen ie \<noteq> ie_resolved_version ie \<longrightarrow>
      profile_replaced_since_resolve sha256 (ie_look ie) m p = None"
    by (auto simp: replaced_reason_def Let_def split: if_splits)
  show ?thesis
  proof (cases "ie_version_seen ie = ie_resolved_version ie")
    case True
    then show ?thesis using versions resolved same by auto
  next
    case False
    then have "profile_replaced_since_resolve sha256 (history (ie_version_seen ie)) m p = None"
      using unchanged looked versions by simp
    then show ?thesis
      using versions same by (auto simp: profile_replaced_since_resolve_def split: option.splits if_splits)
  qed
qed

definition demo_attempt_env :: attempt_env where
  "demo_attempt_env = \<lparr>ae_config = demo_config, ae_sha256 = (\<lambda>s. s), ae_obs = demo_observation, ae_now = 7,
     ae_alive = (\<lambda>_ _. True), ae_drift = []\<rparr>"

definition demo_insert_env :: insert_env where
  "demo_insert_env = \<lparr>ie_resolved_version = 1, ie_version_seen = 1, ie_version_checked = 1, ie_version_locked = 1,
     ie_look = (\<lambda>_. Some (''gpt'', blank_profile ''default'')), ie_spawn_generation = 0, ie_current_generation = 0\<rparr>"

definition demo_node :: "instances \<Rightarrow> node" where
  "demo_node insts = \<lparr>nd_instances = insts, nd_registry = empty_reservations, nd_pool = new_pool None, nd_queues = empty_queues\<rparr>"

theorem request_joins_least_loaded_witness:
  "\<exists>r. fst (attempt demo_attempt_env ''s1'' ''gpt'' (blank_profile ''default'') True False [(''a'', blank_instance)]
     (demo_node [(''a'', blank_instance)])) = Attached r"
proof -
  have "\<exists>r i. hm_get (nd_instances (demo_node [(''a'', blank_instance)])) r = Some i
    \<and> usable_instance (ae_config demo_attempt_env) (ae_alive demo_attempt_env AtScan) ''gpt'' (blank_profile ''default'') (r, i)
    \<and> list_all (\<lambda>e. usable_instance (ae_config demo_attempt_env) (ae_alive demo_attempt_env AtScan) ''gpt'' (blank_profile ''default'') e
          \<longrightarrow> in_flight_requests i \<le> in_flight_requests (snd e)) (nd_instances (demo_node [(''a'', blank_instance)]))
    \<and> attempt demo_attempt_env ''s1'' ''gpt'' (blank_profile ''default'') True False
          (nd_instances (demo_node [(''a'', blank_instance)])) (demo_node [(''a'', blank_instance)]) =
        (Attached r, (demo_node [(''a'', blank_instance)])\<lparr>nd_instances := hm_insert r
           (i\<lparr>in_flight_requests := in_flight_requests i + 1, i_last_activity := ae_now demo_attempt_env\<rparr>)
           (nd_instances (demo_node [(''a'', blank_instance)]))\<rparr>)"
    by (rule request_joins_least_loaded)
      (simp_all add: demo_node_def demo_attempt_env_def has_pending_waiters_def empty_queues_def usable_instance_def serves_def
        blank_instance_def blank_profile_def has_failed_def has_slot_def demo_config_def)
  then show ?thesis by (auto simp: demo_node_def)
qed

theorem inserted_matches_cookbook_witness:
  "\<exists>rid nd'. insert_spawned demo_config (\<lambda>s. s) demo_insert_env ''gpt'' (blank_profile ''default'') blank_instance (demo_node [])
       = (Ok rid, nd') \<and> ie_current_generation demo_insert_env = ie_spawn_generation demo_insert_env"
proof -
  have "insert_spawned demo_config (\<lambda>s. s) demo_insert_env ''gpt'' (blank_profile ''default'') blank_instance (demo_node [])
      = (Ok ''a'', (demo_node [])\<lparr>nd_instances := [(''a'', blank_instance)]\<rparr>)"
    by (simp add: insert_spawned_def demo_node_def demo_insert_env_def replaced_reason_def count_profile_instances_def
        effective_max_instances_def blank_profile_def demo_config_def blank_instance_def mark_handed_off_def
        empty_reservations_def Let_def)
  from inserted_matches_cookbook [OF this, of blank_instance "\<lambda>_ _. Some (''gpt'', blank_profile ''default'')" "''gpt''"] this
  show ?thesis by (auto simp: demo_node_def demo_insert_env_def blank_instance_def blank_profile_def)
qed

end
