(* ===== verification/Node_Limits.thy ===== *)
theory Node_Limits
  imports Spawning
begin

text \<open>
  The limits of a node under concurrent requests: any number of requests schedule, start processes,
  insert or abandon them, while instances finish loading, lose requests, drain, crash and are evicted,
  in any order. The number of instances of the node and of each profile, with the spawns in progress,
  and the number of requests per instance stay within the configuration.
\<close>

section \<open>Steps\<close>

fun lock_free :: "registry_op \<Rightarrow> bool" where
  "lock_free (OpReserve r k e) = False"
| "lock_free (OpHandOff r) = False"
| "lock_free (OpPid r pid) = True"
| "lock_free (OpReady r) = True"
| "lock_free (OpRelease r) = True"

text \<open>A spawn in progress is the owner of a pending entry of the registry.\<close>

definition spawner :: "string \<Rightarrow> string \<Rightarrow> string \<Rightarrow> node \<Rightarrow> bool" where
  "spawner rid model_name profile_id nd = (case hm_get (entries (nd_registry nd)) rid of
     Some e \<Rightarrow> mc_pending e \<and> mc_key e = model_name @ '':'' @ profile_id | None \<Rightarrow> False)"

text \<open>
  \<open>limit\<close> gives the instance limit of each profile; model names have no colon, as the validation of a
  cookbook demands. Identifiers are fresh. Every operation that changes an instance without adding one
  is an update that keeps its name and gives it no request, or a removal.
\<close>

inductive node_step :: "node_config \<Rightarrow> (string \<Rightarrow> string \<Rightarrow> nat) \<Rightarrow> node \<Rightarrow> node \<Rightarrow> bool" for cfg limit where
  schedule: "ae_config env = cfg \<Longrightarrow> effective_max_instances p (model_defaults cfg) = limit model_name (p_id p)
    \<Longrightarrow> CHR '':'' \<notin> set model_name \<Longrightarrow> hm_get (entries (nd_registry nd)) rid = None
    \<Longrightarrow> list_all lock_free (ae_drift env)
    \<Longrightarrow> node_step cfg limit nd (snd (attempt env rid model_name p reserve_slot token seen nd))"
| start: "node_step cfg limit nd (snd (exec_attempt cfg xe model_name p reserve_slot final ad nd))"
| insertion: "spawner (i_id i) (i_model_name i) (p_id p) nd \<Longrightarrow> i_profile_id i = p_id p
    \<Longrightarrow> hm_get (nd_instances nd) (i_id i) = None \<Longrightarrow> CHR '':'' \<notin> set (i_model_name i)
    \<Longrightarrow> in_flight_requests i \<le> 1
    \<Longrightarrow> node_step cfg limit nd (snd (insert_spawned cfg sha256 ie (i_model_name i) p i nd))"
| token: "lock_free oper \<Longrightarrow> node_step cfg limit nd (nd\<lparr>nd_registry := apply_op oper (nd_registry nd)\<rparr>)"
| removal: "node_step cfg limit nd (retire ids nd)"
| update: "hm_get (nd_instances nd) rid = Some i \<Longrightarrow> i_model_name j = i_model_name i
    \<Longrightarrow> i_profile_id j = i_profile_id i \<Longrightarrow> in_flight_requests j \<le> in_flight_requests i
    \<Longrightarrow> node_step cfg limit nd (nd\<lparr>nd_instances := hm_insert rid j (nd_instances nd)\<rparr>)"
| loaded: "node_step cfg limit nd (snd (load_succeeded cfg now tenure rid needs_eviction nd))"
| load_error: "node_step cfg limit nd (load_failed sha256 look now alive rid seen nd)"
| queueing: "node_step cfg limit nd (nd\<lparr>nd_queues := qs\<rparr>)"

definition empty_node :: "port_pool \<Rightarrow> node" where
  "empty_node pl = \<lparr>nd_instances = [], nd_registry = empty_reservations, nd_pool = pl, nd_queues = empty_queues\<rparr>"

definition node_reachable :: "node_config \<Rightarrow> (string \<Rightarrow> string \<Rightarrow> nat) \<Rightarrow> node \<Rightarrow> bool" where
  "node_reachable cfg limit nd = (\<exists>pl. (node_step cfg limit)\<^sup>*\<^sup>* (empty_node pl) nd)"

section \<open>The invariant\<close>

definition slots_ok :: "node_config \<Rightarrow> llama_instance \<Rightarrow> bool" where
  "slots_ok cfg i =
     (let max_concurrent = max_concurrent_requests_per_instance (model_defaults cfg) in
      max_concurrent = 0 \<or> in_flight_requests i \<le> max_concurrent)"

definition within_limits :: "node_config \<Rightarrow> (string \<Rightarrow> string \<Rightarrow> nat) \<Rightarrow> node \<Rightarrow> bool" where
  "within_limits cfg limit nd \<longleftrightarrow>
     hm_ok (nd_instances nd) \<and> hm_ok (entries (nd_registry nd))
     \<and> length (nd_instances nd) + size (pending_keys (nd_registry nd)) \<le> max_instances_per_node cfg
     \<and> (\<forall>m q. CHR '':'' \<notin> set m \<longrightarrow>
          count_profile_instances (nd_instances nd) m q + count (pending_keys (nd_registry nd)) (m @ '':'' @ q)
            \<le> limit m q)
     \<and> list_all (slots_ok cfg) (hm_values (nd_instances nd))"

lemma colon_key_inject:
  "CHR '':'' \<notin> set m \<Longrightarrow> CHR '':'' \<notin> set n \<Longrightarrow> m @ CHR '':'' # q = n @ CHR '':'' # r \<longleftrightarrow> m = n \<and> q = r"
proof (induction m arbitrary: n)
  case Nil
  then show ?case by (cases n) auto
next
  case (Cons c m)
  then show ?case by (cases n) auto
qed

text \<open>Operations on the registry that need no lock only take keys away.\<close>

lemma lock_free_op:
  assumes "lock_free oper" "hm_ok (entries s)"
  shows "pending_keys (apply_op oper s) \<subseteq># pending_keys s \<and> hm_ok (entries (apply_op oper s))
    \<and> (hm_get (entries s) rid = None \<longrightarrow> hm_get (entries (apply_op oper s)) rid = None)"
proof (intro conjI impI)
  show "pending_keys (apply_op oper s) \<subseteq># pending_keys s" "hm_ok (entries (apply_op oper s))"
    using assms by (cases oper; simp add: pending_bag registry_keys_ok)+
  show "hm_get (entries (apply_op oper s)) rid = None" if "hm_get (entries s) rid = None"
    using assms(1) that by (cases oper) (auto simp: registry_defs hm_simps split: option.splits)
qed

lemma lock_free_ops:
  assumes "list_all lock_free ops" "hm_ok (entries s)"
  shows "pending_keys (apply_ops ops s) \<subseteq># pending_keys s \<and> hm_ok (entries (apply_ops ops s))
    \<and> (hm_get (entries s) rid = None \<longrightarrow> hm_get (entries (apply_ops ops s)) rid = None)"
  using assms
proof (induction ops arbitrary: s)
  case (Cons oper ops)
  from Cons.prems lock_free_op [of oper s rid] have
    step: "pending_keys (apply_op oper s) \<subseteq># pending_keys s" "hm_ok (entries (apply_op oper s))"
      "hm_get (entries s) rid = None \<longrightarrow> hm_get (entries (apply_op oper s)) rid = None" by auto
  from Cons.IH [OF _ step(2)] Cons.prems step show ?case by auto
qed simp

text \<open>Maps of instances.\<close>

lemma profile_filter:
  "count_profile_instances insts m q = length (filter (\<lambda>e. i_model_name (snd e) = m \<and> i_profile_id (snd e) = q) insts)"
  by (simp add: count_profile_instances_def filter_map o_def)

lemma removed_is_filter: "hm_remove r insts = filter (\<lambda>e. fst e \<noteq> r) insts"
  by (auto simp: AList.delete_eq intro: filter_cong)

lemma fold_remove_filter: "fold hm_remove ids insts = filter (\<lambda>e. fst e \<notin> set ids) insts"
proof (induction ids arbitrary: insts)
  case (Cons r ids)
  have "fold hm_remove ids (hm_remove r insts) = filter (\<lambda>e. fst e \<notin> set ids) (filter (\<lambda>e. fst e \<noteq> r) insts)"
    unfolding Cons.IH removed_is_filter ..
  also have "\<dots> = filter (\<lambda>e. fst e \<notin> set (r # ids)) insts"
    by (auto simp: filter_filter intro: filter_cong)
  finally show ?case by simp
qed simp

lemma shrink_map:
  "length (filter P insts) \<le> length insts"
  "count_profile_instances (filter P insts) m q \<le> count_profile_instances insts m q"
  "hm_ok insts \<Longrightarrow> hm_ok (filter P insts)"
  "list_all f (hm_values insts) \<Longrightarrow> list_all f (hm_values (filter P insts))"
proof -
  show "length (filter P insts) \<le> length insts" by simp
  show "count_profile_instances (filter P insts) m q \<le> count_profile_instances insts m q"
    unfolding profile_filter filter_filter
    by (rule order_trans [OF _ length_filter_le [of P]]) (simp add: filter_filter conj_commute)
  show "hm_ok insts \<Longrightarrow> hm_ok (filter P insts)" by (rule distinct_map_filter)
  show "list_all f (hm_values insts) \<Longrightarrow> list_all f (hm_values (filter P insts))" by (auto simp: list_all_iff)
qed

lemma profile_mset:
  "count_profile_instances insts m q =
     size (filter_mset (\<lambda>e. i_model_name (snd e) = m \<and> i_profile_id (snd e) = q) (mset insts))"
  by (simp add: profile_filter flip: mset_filter size_mset)

lemma insert_new:
  assumes "hm_ok insts" "hm_get insts r = None"
  shows "length (hm_insert r i insts) = Suc (length insts)"
    and "count_profile_instances (hm_insert r i insts) m q =
      count_profile_instances insts m q + (if i_model_name i = m \<and> i_profile_id i = q then 1 else 0)"
    and "list_all f (hm_values insts) \<Longrightarrow> f i \<Longrightarrow> list_all f (hm_values (hm_insert r i insts))"
proof -
  have ms: "mset (hm_insert r i insts) = add_mset (r, i) (mset insts)"
    using assms by (simp add: mset_hm_insert hm_remove_absent)
  then show "length (hm_insert r i insts) = Suc (length insts)" by (metis size_add_mset size_mset)
  show "count_profile_instances (hm_insert r i insts) m q =
      count_profile_instances insts m q + (if i_model_name i = m \<and> i_profile_id i = q then 1 else 0)"
    by (simp add: profile_mset ms)
  have "set (hm_insert r i insts) = insert (r, i) (set insts)" using arg_cong [OF ms, of set_mset] by simp
  then show "list_all f (hm_values (hm_insert r i insts))" if "list_all f (hm_values insts)" "f i"
    using that by (auto simp: list_all_iff)
qed

lemma insert_old:
  assumes "hm_ok insts" "hm_get insts r = Some i" "i_model_name j = i_model_name i" "i_profile_id j = i_profile_id i"
  shows "length (hm_insert r j insts) = length insts"
    and "count_profile_instances (hm_insert r j insts) m q = count_profile_instances insts m q"
    and "list_all f (hm_values insts) \<Longrightarrow> f j \<Longrightarrow> list_all f (hm_values (hm_insert r j insts))"
proof -
  have new: "mset (hm_insert r j insts) = add_mset (r, j) (mset (hm_remove r insts))"
    and old: "mset insts = add_mset (r, i) (mset (hm_remove r insts))"
    using assms by (simp_all add: mset_hm_insert mset_hm_remove)
  show "length (hm_insert r j insts) = length insts" using new old by (metis size_add_mset size_mset)
  show "count_profile_instances (hm_insert r j insts) m q = count_profile_instances insts m q"
    unfolding profile_mset new old by (simp add: assms)
  have "set (hm_insert r j insts) = insert (r, j) (set (hm_remove r insts))" using arg_cong [OF new, of set_mset] by simp
  moreover have "set (hm_remove r insts) \<subseteq> set insts" by (auto simp: removed_is_filter)
  ultimately show "list_all f (hm_values (hm_insert r j insts))" if "list_all f (hm_values insts)" "f j"
    using that by (auto simp: list_all_iff)
qed

section \<open>Every step keeps the invariant\<close>

lemma evict_until_nonempty: "evict_until cfg required cs u chosen = Ok vs \<Longrightarrow> vs \<noteq> []"
proof (induction cs arbitrary: u chosen)
  case (Cons c cs)
  then show ?case by (auto simp: Let_def split: if_splits)
qed simp

lemma plan_leaves_room:
  assumes "plan_spawn cfg obs reg insts m p required = Ok plan" "victims plan = []"
  shows "length insts + size (pending_keys reg) < max_instances_per_node cfg"
    and "count_profile_instances insts m (p_id p) + count (pending_keys reg) (m @ '':'' @ p_id p)
      < effective_max_instances p (model_defaults cfg)"
proof -
  have reg: "reservations (resource_accounting_for_instances obs reg insts) = reg"
    by (simp add: resource_accounting_for_instances_def snapshot_def Let_def)
  from assms have pick: "pick_victims_from_accounting cfg insts (resource_accounting_for_instances obs reg insts) required = Ok []"
    and count: "count_profile_instances insts m (p_id p) + profile_count (m @ '':'' @ p_id p) reg
      < effective_max_instances p (model_defaults cfg)"
    by (auto simp: plan_spawn_def Let_def reg split: if_splits sum.splits)
  from pick have "fits cfg required (initial_usage insts (resource_accounting_for_instances obs reg insts))"
    by (auto simp: pick_victims_from_accounting_def Let_def dest: evict_until_nonempty split: if_splits)
  then show "length insts + size (pending_keys reg) < max_instances_per_node cfg"
    by (simp add: fits_def initial_usage_def reg node_total_pending)
  show "count_profile_instances insts m (p_id p) + count (pending_keys reg) (m @ '':'' @ p_id p)
      < effective_max_instances p (model_defaults cfg)"
    using count by (simp add: profile_count_pending)
qed

lemma within_weaken:
  assumes "within_limits cfg limit nd"
    and "hm_ok (nd_instances nd')" "hm_ok (entries (nd_registry nd'))"
    and "length (nd_instances nd') \<le> length (nd_instances nd)"
    and "\<And>m q. count_profile_instances (nd_instances nd') m q \<le> count_profile_instances (nd_instances nd) m q"
    and "pending_keys (nd_registry nd') \<subseteq># pending_keys (nd_registry nd)"
    and "list_all (slots_ok cfg) (hm_values (nd_instances nd'))"
  shows "within_limits cfg limit nd'"
proof -
  have size: "size (pending_keys (nd_registry nd')) \<le> size (pending_keys (nd_registry nd))"
    and cnt: "count (pending_keys (nd_registry nd')) k \<le> count (pending_keys (nd_registry nd)) k" for k
    using assms(6) by (auto intro: size_mset_mono mset_subset_eq_count)
  show ?thesis
    unfolding within_limits_def
  proof (intro conjI allI impI)
    show "length (nd_instances nd') + size (pending_keys (nd_registry nd')) \<le> max_instances_per_node cfg"
      using assms(1,4) size unfolding within_limits_def by linarith
    show "count_profile_instances (nd_instances nd') m q + count (pending_keys (nd_registry nd')) (m @ '':'' @ q) \<le> limit m q"
      if "CHR '':'' \<notin> set m" for m q
      using assms(1) that add_mono [OF assms(5) [of m q] cnt [of "m @ '':'' @ q"]]
      unfolding within_limits_def by (meson order_trans)
  qed (use assms in auto)
qed

lemma retire_within: "within_limits cfg limit nd \<Longrightarrow> within_limits cfg limit (retire ids nd)"
  by (rule within_weaken)
    (auto simp: retire_def fold_remove_filter shrink_map within_limits_def intro: distinct_map_filter)

lemma registry_within:
  assumes "within_limits cfg limit nd" "pending_keys r \<subseteq># pending_keys (nd_registry nd)" "hm_ok (entries r)"
  shows "within_limits cfg limit (nd\<lparr>nd_registry := r\<rparr>)"
  by (rule within_weaken [OF assms(1)]) (use assms in \<open>auto simp: within_limits_def\<close>)

lemma update_within:
  assumes "within_limits cfg limit nd" "hm_get (nd_instances nd) rid = Some i" "i_model_name j = i_model_name i"
    "i_profile_id j = i_profile_id i" "slots_ok cfg j"
  shows "within_limits cfg limit (nd\<lparr>nd_instances := hm_insert rid j (nd_instances nd)\<rparr>)"
proof -
  have ok: "hm_ok (nd_instances nd)" using assms(1) by (simp add: within_limits_def)
  note old = insert_old [OF ok assms(2-4)]
  show ?thesis
    by (rule within_weaken [OF assms(1)])
      (use assms(1,5) ok in \<open>auto simp: within_limits_def hm_simps old(1,2) intro: old(3)\<close>)
qed

lemma other_fields_within:
  "within_limits cfg limit (nd\<lparr>nd_pool := pl\<rparr>) = within_limits cfg limit nd"
  "within_limits cfg limit (nd\<lparr>nd_queues := qs\<rparr>) = within_limits cfg limit nd"
  by (simp_all add: within_limits_def)

lemma profile_limit:
  "within_limits cfg limit nd \<Longrightarrow> CHR '':'' \<notin> set m \<Longrightarrow>
   count_profile_instances (nd_instances nd) m q + count (pending_keys (nd_registry nd)) (m @ '':'' @ q) \<le> limit m q"
  by (simp add: within_limits_def)

lemma slots_of:
  "within_limits cfg limit nd \<Longrightarrow> hm_get (nd_instances nd) rid = Some i \<Longrightarrow> slots_ok cfg i"
  by (force simp: within_limits_def list_all_iff dest: map_of_SomeD)

lemma attempt_within:
  assumes inv: "within_limits cfg limit nd" and cfg: "ae_config env = cfg"
    and lim: "effective_max_instances p (model_defaults cfg) = limit model_name (p_id p)"
    and name: "CHR '':'' \<notin> set model_name" and new: "hm_get (entries (nd_registry nd)) rid = None"
    and drift: "list_all lock_free (ae_drift env)"
  shows "within_limits cfg limit (snd (attempt env rid model_name p reserve_slot token seen nd))"
proof -
  let ?insts = "nd_instances nd" and ?reg = "apply_ops (ae_drift env) (nd_registry nd)"
  let ?nd = "nd\<lparr>nd_registry := ?reg\<rparr>"
  have ok: "hm_ok (entries (nd_registry nd))" using inv by (simp add: within_limits_def)
  from lock_free_ops [OF drift ok, of rid] new have
    sub: "pending_keys ?reg \<subseteq># pending_keys (nd_registry nd)" and rok: "hm_ok (entries ?reg)"
    and rnew: "hm_get (entries ?reg) rid = None" by auto
  have drifted: "within_limits cfg limit ?nd" by (rule registry_within [OF inv sub rok])
  have commit: "within_limits cfg limit (snd (commit_plan env rid model_name p plan args ah required ?nd))"
    if plan: "plan_spawn cfg (ae_obs env) (nd_registry nd) ?insts model_name p required = Ok plan"
    for plan args ah required
  proof (cases "victims plan = []")
    case True
    have size: "length ?insts + size (pending_keys ?reg) < max_instances_per_node cfg"
      using plan_leaves_room(1) [OF plan True] size_mset_mono [OF sub] by linarith
    have cnt: "count_profile_instances ?insts model_name (p_id p) + count (pending_keys ?reg) (model_name @ '':'' @ p_id p)
        < limit model_name (p_id p)"
      using plan_leaves_room(2) [OF plan True] mset_subset_eq_count [OF sub, of "model_name @ '':'' @ p_id p"] lim by linarith
    have "within_limits cfg limit (?nd\<lparr>nd_registry := reserve rid (model_name @ '':'' @ p_id p) required ?reg\<rparr>)"
      using drifted size cnt name
      by (auto simp: within_limits_def pending_reserve [OF rok rnew] registry_keys_ok rok colon_key_inject [OF name])
    then show ?thesis using True drifted by (simp add: commit_plan_def split: sum.split)
  next
    case False
    then show ?thesis
      using drifted retire_within [OF drifted] by (simp add: commit_plan_def with_revision_def)
  qed
  have attached: "within_limits cfg limit (nd\<lparr>nd_instances := insts'\<rparr>)"
    if att: "attach cfg alive now r ?insts = Some insts'" for alive now r insts'
  proof -
    obtain i where "hm_get ?insts r = Some i" "has_slot cfg i"
      and insts': "insts' = hm_insert r (i\<lparr>in_flight_requests := in_flight_requests i + 1, i_last_activity := now\<rparr>) ?insts"
      using att by (auto simp: attach_def split: option.splits if_splits)
    then show ?thesis unfolding insts'
      by (intro update_within [OF inv]) (auto simp: slots_ok_def has_slot_def Let_def)
  qed
  show ?thesis
    using inv retire_within [OF inv] commit attached
    by (auto simp: attempt_def Let_def cfg bind_eq_Some_conv split: option.split sum.split prod.split)
qed

lemma spawner_pending:
  "spawner rid m q nd \<Longrightarrow> pending_of rid (nd_registry nd) = {#m @ '':'' @ q#}"
  by (auto simp: spawner_def pending_of_def split: option.splits)

lemma spawner_member:
  assumes "spawner rid m q nd" "hm_ok (entries (nd_registry nd))"
  shows "m @ '':'' @ q \<in># pending_keys (nd_registry nd)"
proof -
  obtain e where e: "hm_get (entries (nd_registry nd)) rid = Some e"
    using assms(1) by (auto simp: spawner_def split: option.splits)
  show ?thesis using pending_keys_split [OF assms(2) e] spawner_pending [OF assms(1)] by simp
qed

lemma insertion_within:
  assumes inv: "within_limits cfg limit nd" and sp: "spawner (i_id i) (i_model_name i) (p_id p) nd"
    and prof: "i_profile_id i = p_id p" and new: "hm_get (nd_instances nd) (i_id i) = None"
    and name: "CHR '':'' \<notin> set (i_model_name i)" and one: "in_flight_requests i \<le> 1"
  shows "within_limits cfg limit (snd (insert_spawned cfg sha256 ie (i_model_name i) p i nd))"
proof -
  let ?reg = "nd_registry nd" and ?key = "i_model_name i @ '':'' @ p_id p"
  have ok: "hm_ok (entries ?reg)" and iok: "hm_ok (nd_instances nd)" using inv by (auto simp: within_limits_def)
  have mem: "?key \<in># pending_keys ?reg" by (rule spawner_member [OF sp ok])
  have del: "pending_keys (mark_handed_off (i_id i) ?reg) = pending_keys ?reg - {#?key#}"
    by (simp add: pending_bag [OF ok] spawner_pending [OF sp])
  have killed: "within_limits cfg limit (nd\<lparr>nd_pool := pl, nd_registry := release_memory (i_id i) ?reg\<rparr>)" for pl
    using registry_within [OF inv, of "release_memory (i_id i) ?reg"] ok
    by (simp add: pending_bag registry_keys_ok within_limits_def)
  have inserted: "within_limits cfg limit (nd\<lparr>nd_instances := hm_insert (i_id i) j (nd_instances nd),
      nd_registry := mark_handed_off (i_id i) ?reg\<rparr>)"
    if j: "i_model_name j = i_model_name i" "i_profile_id j = p_id p" "in_flight_requests j = in_flight_requests i" for j
  proof -
    note grown = insert_new [OF iok new, where i = j]
    have size: "Suc (length (nd_instances nd)) + size (pending_keys ?reg - {#?key#}) \<le> max_instances_per_node cfg"
      using inv mem by (simp add: within_limits_def size_Diff_singleton) (metis Suc_pred add_Suc_right size_eq_0_iff_empty
          empty_iff set_mset_empty gr0I)
    have cnt: "count_profile_instances (hm_insert (i_id i) j (nd_instances nd)) m q
        + count (pending_keys ?reg - {#?key#}) (m @ '':'' @ q) \<le> limit m q" if m: "CHR '':'' \<notin> set m" for m q
    proof -
      have le: "count_profile_instances (nd_instances nd) m q + count (pending_keys ?reg) (m @ '':'' @ q) \<le> limit m q"
        using inv m by (simp add: within_limits_def)
      have pos: "0 < count (pending_keys ?reg) ?key" using mem by simp
      show ?thesis
        using le pos by (auto simp: grown(2) j colon_key_inject [OF name m])
    qed
    have "list_all (slots_ok cfg) (hm_values (hm_insert (i_id i) j (nd_instances nd)))"
      by (rule grown(3)) (use inv one j in \<open>auto simp: within_limits_def slots_ok_def Let_def\<close>)
    then show ?thesis
      using size cnt iok ok by (simp add: within_limits_def del grown(1) hm_simps registry_keys_ok)
  qed
  show ?thesis
    using killed inserted [of i] inserted [of "i\<lparr>draining := True\<rparr>"] prof
    by (simp add: insert_spawned_def Let_def)
qed

lemma start_within:
  assumes "within_limits cfg limit nd"
  shows "within_limits cfg limit (snd (exec_attempt cfg xe model_name p reserve_slot final ad nd))"
proof -
  have ok: "hm_ok (entries (nd_registry nd))" using assms by (simp add: within_limits_def)
  have "within_limits cfg limit (nd\<lparr>nd_pool := pl, nd_registry := update_pid r pid (nd_registry nd)\<rparr>)" for pl r pid
    using registry_within [OF assms, of "update_pid r pid (nd_registry nd)"] ok
    by (simp add: pending_bag registry_keys_ok within_limits_def)
  then show ?thesis
    using assms by (auto simp: exec_attempt_def Let_def other_fields_within split: option.split sum.split prod.split)
qed

lemma loaded_within:
  assumes inv: "within_limits cfg limit nd"
  shows "within_limits cfg limit (snd (load_succeeded cfg now tenure rid needs_eviction nd))"
proof (cases "hm_get (nd_instances nd) rid")
  case (Some i)
  have ok: "hm_ok (entries (nd_registry nd))" using inv by (simp add: within_limits_def)
  let ?j = "i\<lparr>i_status := Ready, evictable_after := Some (now + tenure * 1000000000)\<rparr>"
  have "within_limits cfg limit (nd\<lparr>nd_instances := hm_insert rid ?j (nd_instances nd)\<rparr>)"
    by (rule update_within [OF inv Some]) (use slots_of [OF inv Some] in \<open>auto simp: slots_ok_def\<close>)
  then show ?thesis
    using ok by (simp add: load_succeeded_def Some Let_def within_limits_def pending_bag registry_keys_ok)
qed (simp add: load_succeeded_def inv)

lemma load_failed_within:
  assumes inv: "within_limits cfg limit nd"
  shows "within_limits cfg limit (load_failed sha256 look now alive rid seen nd)"
proof -
  have ok: "hm_ok (entries (nd_registry nd))" using inv by (simp add: within_limits_def)
  define insts1 where "insts1 = (case hm_get (nd_instances nd) rid of
            Some i \<Rightarrow> hm_insert rid ((mark_failed i)\<lparr>i_child := None\<rparr>) (nd_instances nd)
          | None \<Rightarrow> nd_instances nd)"
  have one: "within_limits cfg limit (nd\<lparr>nd_instances := insts1\<rparr>)"
  proof (cases "hm_get (nd_instances nd) rid")
    case (Some i)
    then show ?thesis
      using update_within [OF inv Some, of "(mark_failed i)\<lparr>i_child := None\<rparr>"] slots_of [OF inv Some]
      by (simp add: insts1_def mark_failed_def slots_ok_def)
  qed (simp add: insts1_def inv)
  define sweep where "sweep = check_idle_instances sha256 look now (alive(rid := False)) seen insts1"
  have "fold (\<lambda>(rid, _). hm_remove rid) xs insts = fold hm_remove (map fst xs) insts"
    for xs :: "(string \<times> eviction_reason) list" and insts :: instances
    by (induction xs arbitrary: insts) auto
  then obtain ids where ids: "snd sweep = fold hm_remove ids insts1"
    unfolding sweep_def check_idle_instances_def Let_def by auto
  have "within_limits cfg limit (nd\<lparr>nd_instances := snd sweep\<rparr>)"
    using retire_within [OF one, of ids] by (simp add: ids within_limits_def retire_def)
  from registry_within [OF this, of "release_memory rid (nd_registry nd)"] ok
  have "within_limits cfg limit (nd\<lparr>nd_instances := snd sweep, nd_registry := release_memory rid (nd_registry nd)\<rparr>)"
    by (simp add: pending_bag registry_keys_ok)
  then show ?thesis
    unfolding load_failed_def insts1_def [symmetric] Let_def
    by (simp add: within_limits_def case_prod_beta sweep_def)
qed

lemma node_step_within:
  assumes "node_step cfg limit nd nd'" "within_limits cfg limit nd"
  shows "within_limits cfg limit nd'"
  using assms
proof (induction rule: node_step.induct)
  case (schedule env p model_name nd rid reserve_slot token seen)
  then show ?case by (intro attempt_within)
next
  case (insertion i p nd sha256 ie)
  then show ?case by (intro insertion_within)
next
  case (token oper nd)
  then show ?case using lock_free_op [of oper "nd_registry nd"] by (intro registry_within) (auto simp: within_limits_def)
next
  case (update nd rid i j)
  then show ?case
    by (intro update_within) (auto simp: slots_ok_def Let_def dest: slots_of)
qed (simp_all add: start_within retire_within loaded_within load_failed_within other_fields_within)

lemma reachable_within: "node_reachable cfg limit nd \<Longrightarrow> within_limits cfg limit nd"
proof -
  assume "node_reachable cfg limit nd"
  then obtain pl where "(node_step cfg limit)\<^sup>*\<^sup>* (empty_node pl) nd" by (auto simp: node_reachable_def)
  then show ?thesis
  proof (induction rule: rtranclp_induct)
    case base
    show ?case
      by (simp add: within_limits_def empty_node_def empty_reservations_def pending_keys_def count_profile_instances_def)
  qed (rule node_step_within)
qed

text \<open>C1. Whatever the interleaving of requests, spawns, loads, crashes, drains and evictions, the
  instances of the node together with the spawns in progress never exceed the limit of the node, those
  of a profile never exceed its limit, and no instance has more requests than its limit.\<close>

theorem node_limits_hold:
  assumes "node_reachable cfg limit nd"
  shows "length (nd_instances nd) + node_total (nd_registry nd) \<le> max_instances_per_node cfg
    \<and> (CHR '':'' \<notin> set m \<longrightarrow>
        count_profile_instances (nd_instances nd) m q + profile_count (m @ '':'' @ q) (nd_registry nd) \<le> limit m q)
    \<and> (hm_get (nd_instances nd) rid = Some i \<longrightarrow>
        max_concurrent_requests_per_instance (model_defaults cfg) = 0
        \<or> in_flight_requests i \<le> max_concurrent_requests_per_instance (model_defaults cfg))"
  using reachable_within [OF assms] slots_of [OF reachable_within [OF assms], of rid i]
  by (auto simp: within_limits_def node_total_pending profile_count_pending slots_ok_def Let_def)


text \<open>A node on which one request has reserved a spawn.\<close>

definition demo_spawning :: node where
  "demo_spawning = snd (attempt demo_attempt_env ''s1'' ''gpt'' (blank_profile ''default'') True False []
     (empty_node (new_pool None)))"

lemma demo_spawning_reachable: "node_reachable demo_config (\<lambda>_ _. 2) demo_spawning"
proof -
  have "node_step demo_config (\<lambda>_ _. 2) (empty_node (new_pool None)) demo_spawning"
    unfolding demo_spawning_def
    by (rule schedule) (simp_all add: demo_attempt_env_def demo_config_def empty_node_def empty_reservations_def
        effective_max_instances_def blank_profile_def)
  then show ?thesis unfolding node_reachable_def by blast
qed

lemma demo_spawner: "spawner ''s1'' ''gpt'' ''default'' demo_spawning"
  by (simp add: spawner_def demo_spawning_def attempt_def demo_attempt_env_def empty_node_def has_pending_waiters_def
      empty_queues_def best_instance_def Let_def plan_spawn_def resource_accounting_for_instances_def snapshot_def
      empty_reservations_def resource_totals_def zero_totals_def from_samples_def demo_observation_def
      get_memory_estimate_def count_profile_instances_def profile_count_def effective_max_instances_def
      blank_profile_def demo_config_def pick_victims_from_accounting_def initial_usage_def fits_def node_total_def
      sat_add_def sat_sub_def word_less_nat_alt word_le_nat_alt commit_plan_def default_target_def reserve_def bump_def)

theorem node_limits_hold_witness:
  "length (nd_instances demo_spawning) + node_total (nd_registry demo_spawning) \<le> 2"
  using node_limits_hold [OF demo_spawning_reachable, of "''gpt''" "''default''" "''s1''" blank_instance]
  by (simp add: demo_config_def)


end
