(* ===== verification/Request_Loop.thy ===== *)
theory Request_Loop
  imports Node_Limits
begin

text \<open>
  The request loop \<^verbatim>\<open>get_instance_for_model\<close> of \<^verbatim>\<open>src/node_state/mod.rs\<close> for a request that needs a slot:
  the checks at the top of the loop, the adoption of a reloaded profile, the queue, the recovery from
  a failed start, and every way the request ends. The code between two waits is a function; what other
  tasks do while the request waits is a step of the environment. The counters of dropped requests are
  not modelled.
\<close>

section \<open>The request\<close>

datatype request_phase =
    AtTop
  | Trying
  | Queued string u64
  | Loading string
  | AwaitingCapacity
  | Finished "(string, node_error) result"
  | Cancelled

record request =
  rq_model :: string
  rq_profile :: profile
  rq_version :: u64
  rq_deadline :: "instant option"
  rq_token :: "permit option"
  rq_cold_stage :: nat
  rq_failures :: nat
  rq_phase :: request_phase
  rq_issued :: "u64 set"

text \<open>\<open>rq_issued\<close> records the queue tokens the request has drawn; the code does not read it.\<close>

definition request_key_of :: "request \<Rightarrow> string" where
  "request_key_of rq = rq_model rq @ '':'' @ p_id (rq_profile rq)"

definition release_token :: "request \<Rightarrow> queue_state \<Rightarrow> request \<times> queue_state" where
  "release_token rq qs = (case rq_token rq of
     Some pm \<Rightarrow> (rq\<lparr>rq_token := None\<rparr>, snd (release_permit pm qs)) | None \<Rightarrow> (rq, qs))"

definition finish_with :: "(string, node_error) result \<Rightarrow> request \<Rightarrow> queue_state \<Rightarrow> request \<times> queue_state" where
  "finish_with r rq qs = (let (rq', qs') = release_token rq qs in (rq'\<lparr>rq_phase := Finished r\<rparr>, qs'))"

section \<open>Reloads\<close>

definition refresh_profile_after_reload ::
  "u64 \<Rightarrow> u64 \<Rightarrow> (string \<Rightarrow> (string \<times> profile) option) \<Rightarrow> request \<Rightarrow> (bool \<times> request, node_error) result" where
  "refresh_profile_after_reload observed observed_after look rq =
     (if observed = rq_version rq then Ok (False, rq)
      else if observed_after \<noteq> observed then Ok (True, rq)
      else case look (request_key_of rq) of
        Some (_, current) \<Rightarrow> Ok (False, rq\<lparr>rq_profile := current, rq_version := observed\<rparr>)
      | None \<Rightarrow> Err (ModelNotFound (request_key_of rq)))"

text \<open>A request that fails passes the wake-up of the reload on to the next waiter.\<close>

definition adopt_reloaded_profile ::
  "u64 \<Rightarrow> u64 \<Rightarrow> (string \<Rightarrow> (string \<times> profile) option) \<Rightarrow> request \<Rightarrow> queue_state \<Rightarrow>
   (bool, node_error) result \<times> request \<times> queue_state" where
  "adopt_reloaded_profile observed observed_after look rq qs =
     (case refresh_profile_after_reload observed observed_after look rq of
        Inr (retry, rq') \<Rightarrow> (Ok retry, rq', qs)
      | Inl e \<Rightarrow>
          (let (rq', qs') = release_token rq qs in
           (Err e, rq', snd (notify_queue (rq_model rq) (p_id (rq_profile rq)) qs'))))"

section \<open>The top of the loop\<close>

record loop_env =
  le_config :: node_config
  le_observed :: u64
  le_observed_after :: u64
  le_look :: "string \<Rightarrow> (string \<times> profile) option"
  le_now :: instant
  le_alive :: "llama_instance \<Rightarrow> bool"
  le_instances :: instances

definition MAX_LOCAL_SPAWN_FAILURES :: nat where "MAX_LOCAL_SPAWN_FAILURES = 3"

definition deadline_passed :: "instant \<Rightarrow> request \<Rightarrow> bool" where
  "deadline_passed now rq = (case rq_deadline rq of Some d \<Rightarrow> d \<le> now | None \<Rightarrow> False)"

text \<open>Join the queue; a request whose time is up leaves it again.\<close>

definition join_queue :: "node_config \<Rightarrow> instant \<Rightarrow> request \<Rightarrow> queue_state \<Rightarrow> request \<times> queue_state" where
  "join_queue cfg now rq qs =
     (case enqueue cfg (rq_profile rq) (request_key_of rq) qs of
        (Inl e, qs') \<Rightarrow> (rq\<lparr>rq_phase := Finished (Err e)\<rparr>, qs')
      | (Inr tok, qs') \<Rightarrow>
          (let rq' = rq\<lparr>rq_issued := insert tok (rq_issued rq)\<rparr> in
           if deadline_passed now rq
           then (rq'\<lparr>rq_phase := Finished (Err QueueTimeout)\<rparr>,
                 remove_pending_token_from (request_key_of rq) tok
                   (snd (remove_queue_entry_from (request_key_of rq) tok qs')))
           else (rq'\<lparr>rq_phase := Queued (request_key_of rq) tok\<rparr>, qs')))"

definition try_phase :: "loop_env \<Rightarrow> request \<Rightarrow> queue_state \<Rightarrow> request \<times> queue_state" where
  "try_phase env rq qs =
     (case adopt_reloaded_profile (le_observed env) (le_observed_after env) (le_look env) rq qs of
        (Inl e, rq', qs') \<Rightarrow> (rq'\<lparr>rq_phase := Finished (Err e)\<rparr>, qs')
      | (Inr True, rq', qs') \<Rightarrow> (rq'\<lparr>rq_phase := AtTop\<rparr>, qs')
      | (Inr False, rq', qs') \<Rightarrow> (rq'\<lparr>rq_phase := Trying\<rparr>, qs'))"

definition fairness :: "loop_env \<Rightarrow> loop_env \<Rightarrow> request \<Rightarrow> queue_state \<Rightarrow> request \<times> queue_state" where
  "fairness env env' rq qs =
     (if rq_token rq = None \<and> has_pending_waiters (rq_model rq) (p_id (rq_profile rq)) qs then
        (let qs' = snd (notify_waiters_for_available_slots (le_config env) (le_alive env) (le_instances env)
               (rq_model rq) (p_id (rq_profile rq)) qs)
         in if \<not> has_pending_waiters (rq_model rq) (p_id (rq_profile rq)) qs' then (rq\<lparr>rq_phase := AtTop\<rparr>, qs')
            else join_queue (le_config env) (le_now env') rq qs')
      else try_phase env' rq qs)"

text \<open>\<open>env'\<close> is what the request sees after the waits of the fairness check.\<close>

definition loop_top :: "loop_env \<Rightarrow> loop_env \<Rightarrow> request \<Rightarrow> queue_state \<Rightarrow> request \<times> queue_state" where
  "loop_top env env' rq qs =
     (case adopt_reloaded_profile (le_observed env) (le_observed_after env) (le_look env) rq qs of
        (Inl e, rq1, qs1) \<Rightarrow> (rq1\<lparr>rq_phase := Finished (Err e)\<rparr>, qs1)
      | (Inr True, rq1, qs1) \<Rightarrow> (rq1\<lparr>rq_phase := AtTop\<rparr>, qs1)
      | (Inr False, rq1, qs1) \<Rightarrow>
          if MAX_LOCAL_SPAWN_FAILURES \<le> rq_failures rq1 then finish_with (Err SpawnFailuresExhausted) rq1 qs1
          else if q_draining qs1 then finish_with (Err Draining) rq1 qs1
          else if deadline_passed (le_now env) rq1 then finish_with (Err QueueTimeout) rq1 qs1
          else fairness env env' rq1 qs1)"

section \<open>After the scheduling pass\<close>

definition queueable :: "node_error \<Rightarrow> bool" where
  "queueable e = (e \<in> {MaxInstancesProfile, MaxInstancesNode, QueueFull, InsufficientResources, YieldToWaiters})"

definition needs_eviction_after :: "node_error \<Rightarrow> bool" where
  "needs_eviction_after e = (e \<in> {InsufficientResources, MaxInstancesNode})"

text \<open>\<open>wake\<close> is the effect of \<^verbatim>\<open>wake_queue_if_admissible\<close> on the queues, which runs between the enqueue and the wait.\<close>

definition spawn_refused ::
  "node_config \<Rightarrow> instant \<Rightarrow> (queue_state \<Rightarrow> queue_state) \<Rightarrow> node_error \<Rightarrow> string list \<Rightarrow> request \<Rightarrow> queue_state \<Rightarrow>
   string list \<times> request \<times> queue_state" where
  "spawn_refused cfg now wake e needs rq qs =
     (if \<not> queueable e then (needs, finish_with (Err e) rq qs)
      else
        (let (rq1, qs1) = release_token rq qs in
         case enqueue cfg (rq_profile rq1) (request_key_of rq1) qs1 of
           (Inl e', qs2) \<Rightarrow> (needs, rq1\<lparr>rq_phase := Finished (Err e')\<rparr>, qs2)
         | (Inr tok, qs2) \<Rightarrow>
             (let key = request_key_of rq1;
                  rq2 = rq1\<lparr>rq_issued := insert tok (rq_issued rq1)\<rparr>;
                  needs' = (if needs_eviction_after e then List.insert key needs else needs);
                  qs3 = (if e \<in> {MaxInstancesProfile, MaxInstancesNode, InsufficientResources} then wake qs2 else qs2)
              in if deadline_passed now rq
                 then (needs', rq2\<lparr>rq_phase := Finished (Err QueueTimeout)\<rparr>,
                       remove_pending_token_from key tok (snd (remove_queue_entry_from key tok qs3)))
                 else (needs', rq2\<lparr>rq_phase := Queued key tok\<rparr>, qs3))))"

text \<open>An instance was assigned: the priority is given back and the request waits for the load to end.\<close>

definition spawn_accepted :: "string \<Rightarrow> request \<Rightarrow> queue_state \<Rightarrow> request \<times> queue_state" where
  "spawn_accepted rid rq qs = (let (rq', qs') = release_token rq qs in (rq'\<lparr>rq_phase := Loading rid\<rparr>, qs'))"

datatype recovery = RetryNow | EvictAllThenRetry | WaitForCapacity

text \<open>A failed start that this request handles; \<open>evicted\<close> is what evicting the idle instances removed.\<close>

definition startup_failure :: "bool \<Rightarrow> nat \<Rightarrow> request \<Rightarrow> recovery \<times> request" where
  "startup_failure cold evicted rq =
     (let rq1 = rq\<lparr>rq_failures := rq_failures rq + 1\<rparr>;
          stage = rq_cold_stage rq + 1
      in if \<not> cold then (WaitForCapacity, rq1)
         else if stage = 1 then
           (if 0 < evicted then (RetryNow, rq1\<lparr>rq_cold_stage := 1\<rparr>)
            else (EvictAllThenRetry, rq1\<lparr>rq_cold_stage := 2\<rparr>))
         else if stage = 2 then (EvictAllThenRetry, rq1\<lparr>rq_cold_stage := 2\<rparr>)
         else (WaitForCapacity, rq1\<lparr>rq_cold_stage := stage\<rparr>))"

text \<open>The status is read twice, once before and once after the wait; another request may have claimed the failure.\<close>

definition load_ended :: "llama_instance \<Rightarrow> nat \<Rightarrow> bool \<Rightarrow> request \<Rightarrow> request \<times> llama_instance" where
  "load_ended i evicted is_draining rq =
     (if is_ready i then (rq\<lparr>rq_phase := Finished (Ok (i_id i))\<rparr>, i)
      else
        (let (first, i') = claim_startup_failure i in
         if \<not> first then (rq\<lparr>rq_phase := AtTop\<rparr>, i')
         else case startup_failure (is_cold_start i) evicted rq of
           (WaitForCapacity, rq') \<Rightarrow>
             (rq'\<lparr>rq_phase := (if is_draining then AtTop else AwaitingCapacity)\<rparr>, i')
         | (_, rq') \<Rightarrow> (rq'\<lparr>rq_phase := AtTop\<rparr>, i')))"

section \<open>Steps of a request among others\<close>

abbreviation leave_queue :: "string \<Rightarrow> u64 \<Rightarrow> queue_state \<Rightarrow> queue_state" where
  "leave_queue key tok qs \<equiv> remove_pending_token_from key tok (snd (remove_queue_entry_from key tok qs))"

text \<open>
  While it waits the request can be woken with a permit, run out of time, or lose its channel. It can be
  cancelled at every wait: the guards it owns then remove its entry and its token. The steps of others
  are those of the queues. The token counter does not wrap.
\<close>

inductive request_step :: "request \<times> queue_state \<Rightarrow> request \<times> queue_state \<Rightarrow> bool" where
  top: "rq_phase rq = AtTop \<Longrightarrow> pending_token_counter qs < - 1
    \<Longrightarrow> request_step (rq, qs) (loop_top env env' rq qs)"
| refused: "rq_phase rq = Trying \<Longrightarrow> pending_token_counter qs < - 1 \<Longrightarrow> (\<And>q. queue_step\<^sup>*\<^sup>* q (wake q))
    \<Longrightarrow> request_step (rq, qs) (snd (spawn_refused cfg now wake e needs rq qs))"
| accepted: "rq_phase rq = Trying \<Longrightarrow> request_step (rq, qs) (spawn_accepted rid rq qs)"
| woken: "rq_phase rq = Queued key tok \<Longrightarrow> (key, tok) \<in> set (delivered qs)
    \<Longrightarrow> request_step (rq, qs)
      (rq\<lparr>rq_token := Some \<lparr>pm_key = key, pm_token = tok, pm_released = False\<rparr>, rq_phase := AtTop\<rparr>, qs)"
| timed_out: "rq_phase rq = Queued key tok \<Longrightarrow> deadline_passed now rq
    \<Longrightarrow> request_step (rq, qs) (rq\<lparr>rq_phase := Finished (Err QueueTimeout)\<rparr>, leave_queue key tok qs)"
| channel_closed: "rq_phase rq = Queued key tok
    \<Longrightarrow> request_step (rq, qs) (rq\<lparr>rq_phase := Finished (Err QueueError)\<rparr>, leave_queue key tok qs)"
| ended: "rq_phase rq = Loading rid \<Longrightarrow> request_step (rq, qs) (fst (load_ended i evicted is_draining rq), qs)"
| capacity: "rq_phase rq = AwaitingCapacity \<Longrightarrow> request_step (rq, qs) (rq\<lparr>rq_phase := AtTop\<rparr>, qs)"
| cancel_queued: "rq_phase rq = Queued key tok
    \<Longrightarrow> request_step (rq, qs) (rq\<lparr>rq_phase := Cancelled\<rparr>,
      remove_pending_token_from key tok (drop_entry_guard True True key tok qs))"
| cancel: "rq_phase rq \<in> {AtTop, Trying, AwaitingCapacity} \<or> rq_phase rq = Loading rid \<Longrightarrow> release_token rq qs = (rq', qs')
    \<Longrightarrow> request_step (rq, qs) (rq'\<lparr>rq_phase := Cancelled\<rparr>, qs')"
| others: "queue_step qs qs' \<Longrightarrow> request_step (rq, qs) (rq, qs')"

definition new_request :: "string \<Rightarrow> profile \<Rightarrow> u64 \<Rightarrow> instant option \<Rightarrow> request" where
  "new_request model_name p version deadline =
     \<lparr>rq_model = model_name, rq_profile = p, rq_version = version, rq_deadline = deadline, rq_token = None,
      rq_cold_stage = 0, rq_failures = 0, rq_phase = AtTop, rq_issued = {}\<rparr>"

section \<open>Tokens move from the queue to a permit\<close>

definition queued_set :: "queue_state \<Rightarrow> (string \<times> u64) set" where
  "queued_set s = {(k, t). t \<in> set (queue_of k s)}"

definition issued_before :: "u64 set \<Rightarrow> queue_state \<Rightarrow> bool" where
  "issued_before T s = (\<forall>t \<in> T. t < pending_token_counter s)"

text \<open>A delivered token has left its queue for good.\<close>

definition delivered_ok :: "queue_state \<Rightarrow> bool" where
  "delivered_ok s = (\<forall>(k, t) \<in> set (delivered s). (k, t) \<notin> queued_set s \<and> t < pending_token_counter s)"

abbreviation sound :: "queue_state \<Rightarrow> bool" where
  "sound s \<equiv> queue_inv s \<and> delivered_ok s"

definition tame :: "u64 set \<Rightarrow> queue_state \<Rightarrow> queue_state \<Rightarrow> bool" where
  "tame T s s' \<longleftrightarrow> (sound s \<and> issued_before T s \<longrightarrow>
     sound s' \<and> pending_token_counter s \<le> pending_token_counter s'
     \<and> pending_set s' \<inter> UNIV \<times> T \<subseteq> pending_set s \<union> queued_set s
     \<and> queued_set s' \<inter> UNIV \<times> T \<subseteq> queued_set s)"

lemma tame_refl [simp]: "tame T s s"
  by (auto simp: tame_def)

lemma tame_trans: "tame T s s' \<Longrightarrow> tame T s' s'' \<Longrightarrow> tame T s s''"
  unfolding tame_def issued_before_def by (blast intro: order_less_le_trans order_trans)

lemma tame_shrink:
  assumes "queue_inv s \<Longrightarrow> queue_inv s'" "pending_token_counter s' = pending_token_counter s"
    and "queue_inv s \<Longrightarrow> pending_set s' \<subseteq> pending_set s \<union> queued_set s" "queued_set s' \<subseteq> queued_set s"
    and "queue_inv s \<Longrightarrow> set (delivered s') \<subseteq> set (delivered s) \<union> (queued_set s - queued_set s')"
  shows "tame T s s'"
proof -
  have "delivered_ok s'" if "queue_inv s" "delivered_ok s"
  proof -
    have "t < pending_token_counter s" if "(k, t) \<in> queued_set s" for k t
      using \<open>queue_inv s\<close> that by (auto simp: queue_inv_def token_inv_def queued_set_def)
    then show ?thesis using that assms(2,4) assms(5) [OF that(1)] by (fastforce simp: delivered_ok_def)
  qed
  then show ?thesis using assms by (auto simp: tame_def)
qed

lemma queued_remove_token [simp]: "queued_set (remove_pending_token_from key tok s) = queued_set s"
  by (simp add: queued_set_def)

lemma queued_remove_entry:
  "queued_set (snd (remove_queue_entry_from key tok s)) = queued_set s - {(key, tok)}"
proof -
  have "queue_of k (snd (remove_queue_entry_from key tok s)) = (if k = key then filter (\<lambda>t. t \<noteq> tok) (queue_of k s) else queue_of k s)" for k
    by (auto simp: remove_queue_entry_from_def Let_def queue_of_def [of key s] split: option.split)
  then show ?thesis by (auto simp: queued_set_def split: if_splits)
qed

lemma remove_entry_fields [simp]:
  "pending_set (snd (remove_queue_entry_from key tok s)) = pending_set s"
  "pending_token_counter (snd (remove_queue_entry_from key tok s)) = pending_token_counter s"
  "delivered (snd (remove_queue_entry_from key tok s)) = delivered s"
  by (auto simp: remove_queue_entry_from_def pending_set_def Let_def split: option.splits)

lemma tame_remove_token: "tame T s (remove_pending_token_from key tok s)"
  by (rule tame_shrink) (auto simp: queue_inv_remove_token pending_set_remove)

lemma tame_remove_entry: "tame T s (snd (remove_queue_entry_from key tok s))"
  by (rule tame_shrink) (auto simp: queue_inv_remove_entry queued_remove_entry)

lemma tame_notify: "tame T s (snd (notify_queue_by_key key s))"
proof (rule tame_shrink)
  have sub: "set (listening key s) \<subseteq> set (queue_of key s)" by (auto dest: set_dropWhileD)
  show "pending_set (snd (notify_queue_by_key key s)) \<subseteq> pending_set s \<union> queued_set s" if "queue_inv s"
  proof (cases "listening key s = []")
    case False
    then have "hd (listening key s) \<in> set (queue_of key s)" using hd_in_set sub by blast
    then show ?thesis using False by (simp add: notify_pending [OF that] queued_set_def)
  qed (simp add: notify_pending [OF that])
  have "set (tl xs) \<subseteq> set xs" for xs :: "u64 list" by (cases xs) auto
  with sub have "set (tl (listening key s)) \<subseteq> set (queue_of key s)" by blast
  then show "queued_set (snd (notify_queue_by_key key s)) \<subseteq> queued_set s"
    by (auto simp: queued_set_def notify_result split: if_splits)
  show "set (delivered (snd (notify_queue_by_key key s))) \<subseteq>
    set (delivered s) \<union> (queued_set s - queued_set (snd (notify_queue_by_key key s)))" if "queue_inv s"
  proof (cases "listening key s")
    case (Cons t ts)
    have "distinct (queue_of key s)" using that by (simp add: queue_inv_def token_inv_def)
    then have "t \<notin> set ts" using Cons distinct_dropWhile [of "queue_of key s" "\<lambda>t. t \<in> closed s"] by simp
    moreover have "t \<in> set (queue_of key s)" using sub Cons by auto
    ultimately show ?thesis using Cons by (auto simp: notify_result queued_set_def)
  qed (simp add: notify_result)
qed (simp_all add: queue_inv_notify notify_result)

lemma tame_wakes: "tame T s (snd (wake_up_to n key s))"
proof (induction n arbitrary: s)
  case (Suc n)
  obtain ok s' where r: "notify_queue_by_key key s = (ok, s')" by fastforce
  have "tame T s s'" using tame_notify [of T s key] r by simp
  then show ?case using Suc [of s'] by (auto simp: r case_prod_beta intro: tame_trans)
qed simp

lemma tame_slots: "tame T s (snd (notify_waiters_for_available_slots cfg alive insts m q s))"
  by (simp add: notify_waiters_for_available_slots_def Let_def tame_wakes)

lemma tame_wake_key: "tame T s (wake_key key s)"
proof (induction key s rule: wake_key.induct)
  case (1 key s)
  obtain ok s' where r: "notify_queue_by_key key s = (ok, s')" by fastforce
  have "tame T s s'" using tame_notify [of T s key] r by simp
  then show ?case using 1 [OF r [symmetric] refl] by (subst wake_key.simps) (auto simp: r intro: tame_trans)
qed

lemma tame_wake_all: "tame T s (notify_all_queues s)"
proof -
  have "tame T s (fold wake_key ks s)" for ks
    by (induction ks arbitrary: s) (auto intro: tame_trans [OF tame_wake_key])
  then show ?thesis by (simp add: notify_all_queues_def)
qed

lemma tame_flags:
  "tame T s (s\<lparr>closed := c\<rparr>)" "tame T s (s\<lparr>q_draining := b\<rparr>)"
  by (rule tame_shrink; simp add: pending_set_def queued_set_def queue_of_def; fail)+

text \<open>Joining adds one entry, with the token the counter gives.\<close>

lemma enqueue_adds:
  assumes "queue_inv s" "pending_token_counter s < - 1"
  shows "queue_inv (snd (enqueue cfg p key s))"
    and "pending_set (snd (enqueue cfg p key s)) = pending_set s"
    and "delivered (snd (enqueue cfg p key s)) = delivered s"
    and "fst (enqueue cfg p key s) = Err e \<Longrightarrow> e \<in> {Draining, QueueFull}
      \<and> pending_token_counter (snd (enqueue cfg p key s)) = pending_token_counter s
      \<and> queued_set (snd (enqueue cfg p key s)) \<subseteq> queued_set s"
    and "fst (enqueue cfg p key s) = Ok tok \<Longrightarrow> tok = pending_token_counter s
      \<and> pending_token_counter (snd (enqueue cfg p key s)) = tok + 1
      \<and> queued_set (snd (enqueue cfg p key s)) \<subseteq> insert (key, tok) (queued_set s)"
proof -
  show "queue_inv (snd (enqueue cfg p key s))" by (rule queue_inv_enqueue [OF assms])
  show "pending_set (snd (enqueue cfg p key s)) = pending_set s" "delivered (snd (enqueue cfg p key s)) = delivered s"
    by (simp_all add: enqueue_def pending_set_def Let_def)
  show "fst (enqueue cfg p key s) = Err e \<Longrightarrow> e \<in> {Draining, QueueFull}
      \<and> pending_token_counter (snd (enqueue cfg p key s)) = pending_token_counter s
      \<and> queued_set (snd (enqueue cfg p key s)) \<subseteq> queued_set s"
    by (auto simp: enqueue_def Let_def queued_set_def queue_of_def hm_simps remove_closed_queue_entries_def
        split: if_splits option.splits)
  show "fst (enqueue cfg p key s) = Ok tok \<Longrightarrow> tok = pending_token_counter s
      \<and> pending_token_counter (snd (enqueue cfg p key s)) = tok + 1
      \<and> queued_set (snd (enqueue cfg p key s)) \<subseteq> insert (key, tok) (queued_set s)"
    by (auto simp: enqueue_def Let_def queued_set_def queue_of_def hm_simps remove_closed_queue_entries_def
        split: if_splits option.splits)
qed

lemma counter_grows: "(c :: u64) < - 1 \<Longrightarrow> c < c + 1"
  using unat_add_one_less [of c "- 1"] by (simp add: word_less_nat_alt)

lemma tame_enqueue: "pending_token_counter s < - 1 \<Longrightarrow> tame T s (snd (enqueue cfg p key s))"
proof -
  assume wrap: "pending_token_counter s < - 1"
  show ?thesis
    unfolding tame_def
  proof (intro impI, elim conjE)
    assume inv: "queue_inv s" and del: "delivered_ok s" and T: "issued_before T s"
    note add = enqueue_adds [OF inv wrap, of cfg p key]
    show "sound (snd (enqueue cfg p key s)) \<and> pending_token_counter s \<le> pending_token_counter (snd (enqueue cfg p key s))
      \<and> pending_set (snd (enqueue cfg p key s)) \<inter> UNIV \<times> T \<subseteq> pending_set s \<union> queued_set s
      \<and> queued_set (snd (enqueue cfg p key s)) \<inter> UNIV \<times> T \<subseteq> queued_set s"
    proof (cases "fst (enqueue cfg p key s)")
      case (Inl e)
      then show ?thesis using del add(1-3) add(4) [OF Inl] by (auto simp: delivered_ok_def)
    next
      case (Inr tok)
      have "pending_token_counter s \<notin> T" using T by (auto simp: issued_before_def)
      then show ?thesis using del add(1-3) add(5) [OF Inr] counter_grows [OF wrap] by (fastforce simp: delivered_ok_def)
    qed
  qed
qed

lemma tame_step: "queue_step s s' \<Longrightarrow> tame T s s'"
proof (induction rule: queue_step.induct)
  case (q_release_permit s pm)
  then show ?case by (simp add: release_permit_def tame_remove_token)
next
  case (q_shutdown s)
  then show ?case unfolding begin_shutdown_drain_def by (rule tame_trans [OF tame_flags(2) tame_wake_all])
qed (simp_all add: tame_enqueue tame_flags tame_remove_entry tame_remove_token tame_notify tame_wake_all drop_entry_guard_def)

lemma tame_steps: "queue_step\<^sup>*\<^sup>* s s' \<Longrightarrow> tame T s s'"
  by (induction rule: rtranclp_induct) (auto intro: tame_trans tame_step)

section \<open>Errors and failures of a request\<close>

text \<open>Errors of the scheduler that lead into the queue instead of back to the caller.\<close>

definition internal_error :: "node_error \<Rightarrow> bool" where
  "internal_error e = (e \<in> {YieldToWaiters, MaxInstancesProfile, MaxInstancesNode, InsufficientResources})"

definition outcome_ok :: "request_phase \<Rightarrow> bool" where
  "outcome_ok ph = (case ph of Finished r \<Rightarrow> (case r of Inl e \<Rightarrow> \<not> internal_error e | Inr _ \<Rightarrow> True) | _ \<Rightarrow> True)"

definition failures_ok :: "request \<Rightarrow> bool" where
  "failures_ok rq \<longleftrightarrow> rq_failures rq \<le> 3 \<and> rq_cold_stage rq \<le> rq_failures rq + 1
     \<and> (case rq_phase rq of Trying \<Rightarrow> rq_failures rq < 3 | Loading _ \<Rightarrow> rq_failures rq < 3 | _ \<Rightarrow> True)"

definition progress_ok :: "request \<Rightarrow> bool" where
  "progress_ok rq = (failures_ok rq \<and> outcome_ok (rq_phase rq))"

lemma release_token_request:
  "release_token rq qs = (rq', qs') \<Longrightarrow> rq' = rq\<lparr>rq_token := None\<rparr>"
  by (auto simp: release_token_def split: option.splits)

lemma enqueue_error: "enqueue cfg p key s = (Err e, s') \<Longrightarrow> e = Draining \<or> e = QueueFull"
  by (auto simp: enqueue_def Let_def split: if_splits)

lemma join_queue_progress: "rq_failures rq < 3 \<Longrightarrow> progress_ok rq \<Longrightarrow> progress_ok (fst (join_queue cfg now rq qs))"
  by (auto simp: join_queue_def progress_ok_def failures_ok_def outcome_ok_def internal_error_def Let_def
      dest: enqueue_error split: prod.splits sum.splits)

lemma adopt_progress:
  assumes "adopt_reloaded_profile v v' look rq qs = (r, rq', qs')"
  shows "rq_failures rq' = rq_failures rq" "rq_cold_stage rq' = rq_cold_stage rq" "rq_phase rq' = rq_phase rq"
    "r = Err e \<Longrightarrow> \<not> internal_error e" "r = Ok b \<Longrightarrow> qs' = qs"
  using assms
  by (auto simp: adopt_reloaded_profile_def refresh_profile_after_reload_def internal_error_def
      dest!: release_token_request split: if_splits option.splits prod.splits sum.splits)

lemma finish_progress:
  "\<not> internal_error e \<Longrightarrow> rq_failures rq \<le> 3 \<Longrightarrow> rq_cold_stage rq \<le> rq_failures rq + 1 \<Longrightarrow>
   progress_ok (fst (finish_with (Err e) rq qs))"
  by (auto simp: finish_with_def progress_ok_def failures_ok_def outcome_ok_def dest: release_token_request split: prod.splits)

lemma try_phase_progress:
  assumes "rq_failures rq < 3" "rq_cold_stage rq \<le> rq_failures rq + 1"
  shows "progress_ok (fst (try_phase env rq qs))"
proof -
  obtain r rq' qs' where a: "adopt_reloaded_profile (le_observed env) (le_observed_after env) (le_look env) rq qs = (r, rq', qs')"
    by (cases "adopt_reloaded_profile (le_observed env) (le_observed_after env) (le_look env) rq qs") auto
  show ?thesis
    using assms adopt_progress [OF a]
    by (cases r; cases "projr r")
      (auto simp: try_phase_def a progress_ok_def failures_ok_def outcome_ok_def split: bool.splits)
qed

lemma loop_top_progress:
  assumes "progress_ok rq"
  shows "progress_ok (fst (loop_top env env' rq qs))"
proof -
  obtain r rq1 qs1 where a: "adopt_reloaded_profile (le_observed env) (le_observed_after env) (le_look env) rq qs = (r, rq1, qs1)"
    by (cases "adopt_reloaded_profile (le_observed env) (le_observed_after env) (le_look env) rq qs") auto
  note adopted = adopt_progress [OF a]
  have bounds: "rq_failures rq1 \<le> 3" "rq_cold_stage rq1 \<le> rq_failures rq1 + 1"
    using assms adopted by (auto simp: progress_ok_def failures_ok_def)
  have fair: "progress_ok (fst (fairness env env' rq1 qs1))" if "rq_failures rq1 < 3"
  proof -
    have "progress_ok rq1"
      using assms adopted that by (auto simp: progress_ok_def failures_ok_def split: request_phase.splits)
    moreover have "progress_ok (rq1\<lparr>rq_phase := AtTop\<rparr>)"
      using bounds by (simp add: progress_ok_def failures_ok_def outcome_ok_def)
    ultimately show ?thesis
      using bounds by (simp add: fairness_def Let_def join_queue_progress try_phase_progress that)
  qed
  show ?thesis
  proof (cases r)
    case (Inl e)
    then show ?thesis
      using bounds adopted(4) by (auto simp: loop_top_def a progress_ok_def failures_ok_def outcome_ok_def)
  next
    case (Inr b)
    have end_ok: "progress_ok (fst (finish_with (Err e) rq1 qs1))" if "\<not> internal_error e" for e
      by (rule finish_progress [OF that bounds])
    have "progress_ok (rq1\<lparr>rq_phase := AtTop\<rparr>)"
      using bounds by (simp add: progress_ok_def failures_ok_def outcome_ok_def)
    then show ?thesis
      using fair by (cases b) (simp_all add: loop_top_def a Inr end_ok internal_error_def MAX_LOCAL_SPAWN_FAILURES_def)
  qed
qed

lemma refused_progress:
  assumes "progress_ok rq" "rq_phase rq = Trying"
  shows "progress_ok (fst (snd (spawn_refused cfg now wake e needs rq qs)))"
proof -
  have bounds: "rq_failures rq < 3" "rq_cold_stage rq \<le> rq_failures rq + 1"
    using assms by (auto simp: progress_ok_def failures_ok_def)
  show ?thesis
  proof (cases "queueable e")
    case True
    then show ?thesis
      using bounds
      by (auto simp: spawn_refused_def Let_def progress_ok_def failures_ok_def outcome_ok_def internal_error_def
          dest!: release_token_request enqueue_error split: prod.splits sum.splits)
  next
    case False
    then have "\<not> internal_error e" by (auto simp: queueable_def internal_error_def)
    then show ?thesis using bounds False by (simp add: spawn_refused_def finish_progress)
  qed
qed

lemma load_ended_progress:
  "progress_ok rq \<Longrightarrow> rq_phase rq = Loading rid \<Longrightarrow> progress_ok (fst (load_ended i evicted dr rq))"
  by (auto simp: load_ended_def startup_failure_def claim_startup_failure_def progress_ok_def failures_ok_def
      outcome_ok_def Let_def split: prod.splits if_splits recovery.splits)

lemma step_progress: "request_step a b \<Longrightarrow> progress_ok (fst a) \<Longrightarrow> progress_ok (fst b)"
proof (induction rule: request_step.induct)
  case (accepted rq qs rid)
  then show ?case
    by (auto simp: spawn_accepted_def progress_ok_def failures_ok_def outcome_ok_def dest: release_token_request split: prod.splits)
next
  case (cancel rq rid qs rq' qs')
  then show ?case by (auto simp: progress_ok_def failures_ok_def outcome_ok_def dest: release_token_request)
next
  case (top rq qs env env')
  then show ?case by (simp add: loop_top_progress)
next
  case (refused rq qs wake cfg now e needs)
  then show ?case by (simp add: refused_progress)
next
  case (ended rq rid qs i evicted is_draining)
  then show ?case by (simp add: load_ended_progress)
qed (auto simp: progress_ok_def failures_ok_def outcome_ok_def internal_error_def)

lemma steps_progress:
  "request_step\<^sup>*\<^sup>* (new_request m p v d, qs0) (rq, qs) \<Longrightarrow> progress_ok rq"
proof -
  have "request_step\<^sup>*\<^sup>* a b \<Longrightarrow> progress_ok (fst a) \<Longrightarrow> progress_ok (fst b)" for a b
    by (induction rule: rtranclp_induct) (auto intro: step_progress)
  from this [of "(new_request m p v d, qs0)" "(rq, qs)"] show "request_step\<^sup>*\<^sup>* (new_request m p v d, qs0) (rq, qs) \<Longrightarrow> progress_ok rq"
    by (simp add: new_request_def progress_ok_def failures_ok_def outcome_ok_def)
qed


section \<open>Tokens of a request\<close>

text \<open>The token the request holds as a permit, and its place in a queue.\<close>

definition held :: "request \<Rightarrow> (string \<times> u64) set" where
  "held rq = (case rq_token rq of
     Some pm \<Rightarrow> (if pm_released pm then {} else {(pm_key pm, pm_token pm)}) | None \<Rightarrow> {})"

definition place :: "request_phase \<Rightarrow> (string \<times> u64) set" where
  "place ph = (case ph of Queued key tok \<Rightarrow> {(key, tok)} | _ \<Rightarrow> {})"

text \<open>Every token the request has drawn is held, or waits where the request waits, or is gone.\<close>

definition accounted :: "request \<Rightarrow> queue_state \<Rightarrow> bool" where
  "accounted rq qs \<longleftrightarrow> sound qs \<and> issued_before (rq_issued rq) qs
     \<and> pending_set qs \<inter> UNIV \<times> rq_issued rq \<subseteq> held rq \<union> place (rq_phase rq)
     \<and> queued_set qs \<inter> UNIV \<times> rq_issued rq \<subseteq> place (rq_phase rq)
     \<and> (rq_token rq \<noteq> None \<longrightarrow> rq_phase rq \<in> {AtTop, Trying})"

lemma accounted_others: "accounted rq qs \<Longrightarrow> tame (rq_issued rq) qs qs' \<Longrightarrow> accounted rq qs'"
  unfolding accounted_def tame_def issued_before_def by (blast intro: order_less_le_trans)

lemma accounted_phase:
  "accounted rq qs \<Longrightarrow> place (rq_phase rq) = {} \<Longrightarrow> rq_token rq = None \<or> ph \<in> {AtTop, Trying} \<Longrightarrow>
   accounted (rq\<lparr>rq_phase := ph\<rparr>) qs"
  by (auto simp: accounted_def held_def)

lemma accounted_same:
  "accounted rq qs \<Longrightarrow> place (rq_phase rq) = {} \<Longrightarrow> rq_token rq = None \<Longrightarrow> rq_token rq' = None \<Longrightarrow>
   rq_issued rq' = rq_issued rq \<Longrightarrow> accounted rq' qs"
  by (auto simp: accounted_def held_def)

lemma accounted_release:
  assumes "accounted rq qs" "place (rq_phase rq) = {}" "release_token rq qs = (rq', qs')"
  shows "accounted rq' qs' \<and> rq' = rq\<lparr>rq_token := None\<rparr>"
proof (cases "rq_token rq")
  case None
  then show ?thesis using assms by (auto simp: release_token_def)
next
  case (Some pm)
  have t: "tame (rq_issued rq) qs qs'"
    using assms(3) Some by (auto simp: release_token_def release_permit_def tame_remove_token split: if_splits)
  have "rq' = rq\<lparr>rq_token := None\<rparr>" "pending_set qs' \<subseteq> pending_set qs - held rq"
    using assms(3) Some by (auto simp: release_token_def release_permit_def held_def pending_set_remove split: if_splits)
  then show ?thesis
    using accounted_others [OF assms(1) t] assms(1,2) by (auto simp: accounted_def held_def)
qed

lemma accounted_finish:
  assumes "accounted rq qs" "place (rq_phase rq) = {}"
  shows "accounted (fst (finish_with r rq qs)) (snd (finish_with r rq qs))"
proof -
  obtain rq' qs' where r: "release_token rq qs = (rq', qs')" by fastforce
  show ?thesis
    using accounted_release [OF assms r] accounted_phase [of rq' qs'] assms(2) by (auto simp: finish_with_def r)
qed

lemma accounted_adopt:
  assumes "accounted rq qs" "place (rq_phase rq) = {}" "adopt_reloaded_profile v v' look rq qs = (r, rq', qs')"
  shows "accounted rq' qs'" "place (rq_phase rq') = {}" "r = Err e \<Longrightarrow> rq_token rq' = None"
    "r = Ok b \<Longrightarrow> rq_token rq' = rq_token rq"
proof -
  obtain rq1 qs1 where rel: "release_token rq qs = (rq1, qs1)" by fastforce
  note released = accounted_release [OF assms(1,2) rel]
  have "accounted (rq\<lparr>rq_profile := p, rq_version := x\<rparr>) qs" for p x
    using assms(1) by (simp add: accounted_def held_def)
  moreover have "accounted rq1 (snd (notify_queue m p qs1))" for m p
    using released accounted_others tame_notify by (auto simp: notify_queue_def)
  ultimately show "accounted rq' qs'" "place (rq_phase rq') = {}" "r = Err e \<Longrightarrow> rq_token rq' = None"
    "r = Ok b \<Longrightarrow> rq_token rq' = rq_token rq"
    using assms released
    by (auto simp: adopt_reloaded_profile_def refresh_profile_after_reload_def rel split: if_splits option.splits)
qed

text \<open>Joining the queue.\<close>

lemma accounted_enqueue:
  assumes acc: "accounted rq qs" and free: "place (rq_phase rq) = {}" "rq_token rq = None"
    and wrap: "pending_token_counter qs < - 1" and enq: "enqueue cfg p key qs = (Ok tok, qs')"
  shows "accounted (rq\<lparr>rq_issued := insert tok (rq_issued rq), rq_phase := Queued key tok\<rparr>) qs'"
proof -
  have inv: "queue_inv qs" using acc by (simp add: accounted_def)
  note add = enqueue_adds [OF inv wrap, of cfg p key]
  have tok: "tok = pending_token_counter qs" "pending_token_counter qs' = tok + 1"
    "queued_set qs' \<subseteq> insert (key, tok) (queued_set qs)" "pending_set qs' = pending_set qs"
    using add(2,5) enq by auto
  have fresh: "(k, tok) \<notin> pending_set qs" "(k, tok) \<notin> queued_set qs" for k
    using inv by (auto simp: queue_inv_def token_inv_def queued_set_def tok(1))
  have "accounted rq qs'" using accounted_others [OF acc tame_enqueue [OF wrap, of _ cfg p key]] enq by simp
  moreover have "issued_before (insert tok (rq_issued rq)) qs'"
    using calculation counter_grows [OF wrap] tok by (auto simp: accounted_def issued_before_def)
  ultimately show ?thesis
    using free tok fresh by (auto simp: accounted_def held_def place_def)
qed

lemma accounted_enqueue_error:
  assumes "accounted rq qs" "place (rq_phase rq) = {}" "rq_token rq = None" "pending_token_counter qs < - 1"
    and "enqueue cfg p key qs = (Err e, qs')"
  shows "accounted (rq\<lparr>rq_phase := ph\<rparr>) qs'"
  using accounted_others [OF assms(1) tame_enqueue [OF assms(4), of _ cfg p key]] accounted_phase [of rq qs' ph] assms
  by simp

text \<open>Leaving it takes the entry and the token along.\<close>

lemma accounted_leave:
  assumes "accounted rq qs" "rq_phase rq = Queued key tok" "place ph = {}"
  shows "accounted (rq\<lparr>rq_phase := ph\<rparr>) (leave_queue key tok qs)"
proof -
  have "tame (rq_issued rq) qs (leave_queue key tok qs)"
    by (rule tame_trans [OF tame_remove_entry tame_remove_token])
  from accounted_others [OF assms(1) this] show ?thesis
    using assms by (auto simp: accounted_def held_def place_def pending_set_remove queued_remove_entry)
qed


lemma accounted_join:
  assumes "accounted rq qs" "place (rq_phase rq) = {}" "rq_token rq = None" "pending_token_counter qs < - 1"
  shows "accounted (fst (join_queue cfg now rq qs)) (snd (join_queue cfg now rq qs))"
proof -
  obtain r qs' where e: "enqueue cfg (rq_profile rq) (request_key_of rq) qs = (r, qs')" by fastforce
  show ?thesis
  proof (cases r)
    case (Inl err)
    then show ?thesis using accounted_enqueue_error [OF assms] e by (simp add: join_queue_def)
  next
    case (Inr tok)
    note queued = accounted_enqueue [OF assms e [unfolded Inr]]
    note left = accounted_leave [OF queued, of "request_key_of rq" tok "Finished (Err QueueTimeout)"]
    show ?thesis using queued left by (simp add: join_queue_def e Inr Let_def place_def)
  qed
qed

lemma accounted_try:
  assumes "accounted rq qs" "place (rq_phase rq) = {}"
  shows "accounted (fst (try_phase env rq qs)) (snd (try_phase env rq qs))"
proof -
  obtain r rq' qs' where a: "adopt_reloaded_profile (le_observed env) (le_observed_after env) (le_look env) rq qs = (r, rq', qs')"
    by (cases "adopt_reloaded_profile (le_observed env) (le_observed_after env) (le_look env) rq qs") auto
  note adopted = accounted_adopt [OF assms a]
  show ?thesis
    using accounted_phase [OF adopted(1,2)] adopted(3)
    by (cases r; cases "projr r") (auto simp: try_phase_def a)
qed

lemma accounted_fairness:
  assumes "accounted rq qs" "place (rq_phase rq) = {}" "pending_token_counter qs < - 1"
  shows "accounted (fst (fairness env env' rq qs)) (snd (fairness env env' rq qs))"
proof -
  define qs' where "qs' = snd (notify_waiters_for_available_slots (le_config env) (le_alive env) (le_instances env)
    (rq_model rq) (p_id (rq_profile rq)) qs)"
  have acc: "accounted rq qs'" unfolding qs'_def by (rule accounted_others [OF assms(1) tame_slots])
  have same: "pending_token_counter (snd (wake_up_to n key s)) = pending_token_counter s" for n key s
    by (induction n arbitrary: s) (auto simp: case_prod_beta notify_result)
  have "pending_token_counter qs' < - 1"
    using assms(3) by (simp add: qs'_def notify_waiters_for_available_slots_def Let_def same)
  then show ?thesis
    using accounted_join [OF acc assms(2)] accounted_try [OF assms(1,2)] accounted_phase [OF acc assms(2)]
    by (simp add: fairness_def qs'_def [symmetric] Let_def)
qed

lemma accounted_top:
  assumes "accounted rq qs" "place (rq_phase rq) = {}" "pending_token_counter qs < - 1"
  shows "accounted (fst (loop_top env env' rq qs)) (snd (loop_top env env' rq qs))"
proof -
  obtain r rq1 qs1 where a: "adopt_reloaded_profile (le_observed env) (le_observed_after env) (le_look env) rq qs = (r, rq1, qs1)"
    by (cases "adopt_reloaded_profile (le_observed env) (le_observed_after env) (le_look env) rq qs") auto
  note adopted = accounted_adopt [OF assms(1,2) a]
  show ?thesis
  proof (cases r)
    case (Inl e)
    then show ?thesis using accounted_phase [OF adopted(1,2)] adopted(3) by (simp add: loop_top_def a)
  next
    case (Inr b)
    have "qs1 = qs" using adopt_progress(5) [OF a] Inr by simp
    then have "accounted (fst (fairness env env' rq1 qs1)) (snd (fairness env env' rq1 qs1))"
      using accounted_fairness [OF adopted(1,2)] assms(3) by simp
    then show ?thesis
      using accounted_finish [OF adopted(1,2)] accounted_phase [OF adopted(1,2)]
      by (cases b) (simp_all add: loop_top_def a Inr)
  qed
qed

lemma accounted_refused:
  assumes "accounted rq qs" "place (rq_phase rq) = {}" "pending_token_counter qs < - 1" "\<And>q. queue_step\<^sup>*\<^sup>* q (wake q)"
  shows "accounted (fst (snd (spawn_refused cfg now wake e needs rq qs))) (snd (snd (spawn_refused cfg now wake e needs rq qs)))"
proof -
  obtain rq1 qs1 where rel: "release_token rq qs = (rq1, qs1)" by fastforce
  obtain r qs2 where enq: "enqueue cfg (rq_profile rq1) (request_key_of rq1) qs1 = (r, qs2)" by fastforce
  have one: "accounted rq1 qs1" "rq_token rq1 = None" "place (rq_phase rq1) = {}"
    using accounted_release [OF assms(1,2) rel] assms(2) by auto
  have wrap: "pending_token_counter qs1 < - 1"
    using assms(3) rel by (auto simp: release_token_def release_permit_def split: option.splits if_splits)
  show ?thesis
  proof (cases r)
    case (Inl err)
    then show ?thesis
      using accounted_finish [OF assms(1,2)] accounted_enqueue_error [OF one(1,3,2) wrap] enq
      by (simp add: spawn_refused_def rel)
  next
    case (Inr tok)
    note queued = accounted_enqueue [OF one(1,3,2) wrap enq [unfolded Inr]]
    note woken = accounted_others [OF queued tame_steps [OF assms(4)]]
    note left = queued [THEN accounted_leave, of "request_key_of rq1" tok "Finished (Err QueueTimeout)"]
      woken [THEN accounted_leave, of "request_key_of rq1" tok "Finished (Err QueueTimeout)"]
    show ?thesis
      using accounted_finish [OF assms(1,2)] queued woken left
      by (simp add: spawn_refused_def rel enq Inr Let_def place_def)
  qed
qed


lemma accounted_step: "request_step a b \<Longrightarrow> accounted (fst a) (snd a) \<Longrightarrow> accounted (fst b) (snd b)"
proof (induction rule: request_step.induct)
  case (top rq qs env env')
  then show ?case by (simp add: accounted_top place_def)
next
  case (refused rq qs wake cfg now e needs)
  then show ?case using accounted_refused [of rq qs wake] by (simp add: place_def)
next
  case (accepted rq qs rid)
  obtain rq' qs' where r: "release_token rq qs = (rq', qs')" by fastforce
  have free: "place (rq_phase rq) = {}" using accepted by (simp add: place_def)
  have "accounted rq' qs'" "rq' = rq\<lparr>rq_token := None\<rparr>" using accounted_release [OF _ free r] accepted by auto
  then show ?case using accounted_phase [of rq' qs' "Loading rid"] free by (simp add: spawn_accepted_def r)
next
  case (woken rq key tok qs)
  then have "(key, tok) \<notin> queued_set qs" by (auto simp: accounted_def delivered_ok_def)
  then show ?case using woken by (auto simp: accounted_def held_def place_def)
next
  case (timed_out rq key tok now qs)
  then show ?case using accounted_leave [of rq qs key tok "Finished (Err QueueTimeout)"] by (simp add: place_def)
next
  case (channel_closed rq key tok qs)
  then show ?case using accounted_leave [of rq qs key tok "Finished (Err QueueError)"] by (simp add: place_def)
next
  case (ended rq rid qs i evicted is_draining)
  then have none: "rq_token rq = None" and free: "place (rq_phase rq) = {}" by (auto simp: accounted_def place_def)
  have "rq_token (fst (load_ended i evicted is_draining rq)) = rq_token rq"
    "rq_issued (fst (load_ended i evicted is_draining rq)) = rq_issued rq"
    by (simp_all add: load_ended_def startup_failure_def Let_def split: prod.splits recovery.splits)
  then show ?case using accounted_same [of rq qs "fst (load_ended i evicted is_draining rq)"] ended none free by simp
next
  case (capacity rq qs)
  then show ?case using accounted_phase [of rq qs AtTop] by (simp add: place_def)
next
  case (cancel_queued rq key tok qs)
  then show ?case
    using accounted_leave [of rq qs key tok Cancelled] by (simp add: place_def drop_entry_guard_def)
next
  case (cancel rq rid qs rq' qs')
  then have free: "place (rq_phase rq) = {}" by (auto simp: place_def)
  have "accounted rq' qs'" "rq' = rq\<lparr>rq_token := None\<rparr>"
    using accounted_release [OF _ free] cancel by auto
  then show ?case using accounted_phase [of rq' qs' Cancelled] free by simp
next
  case (others qs qs' rq)
  then show ?case using accounted_others tame_step by (metis fst_conv snd_conv)
qed


lemma accounted_steps:
  "request_step\<^sup>*\<^sup>* a b \<Longrightarrow> accounted (fst a) (snd a) \<Longrightarrow> accounted (fst b) (snd b)"
  by (induction rule: rtranclp_induct) (auto intro: accounted_step)

lemma sound_steps: "queue_step\<^sup>*\<^sup>* empty_queues qs \<Longrightarrow> sound qs"
proof -
  have "sound empty_queues"
    by (simp add: empty_queues_def queue_inv_def token_inv_def pending_set_def queue_of_def delivered_ok_def)
  then show "queue_step\<^sup>*\<^sup>* empty_queues qs \<Longrightarrow> sound qs"
    using tame_steps [of empty_queues qs "{}"] by (auto simp: tame_def issued_before_def)
qed

section \<open>What a request leaves behind\<close>


text \<open>The scheduler's refusals (an instance limit, missing memory, waiters first) put a request into the
  queue; the caller never sees them, so the router forwards a request only after a real failure.
\<close>

theorem refusals_stay_internal:
  assumes "request_step\<^sup>*\<^sup>* (new_request m p v d, qs0) (rq, qs)" "rq_phase rq = Finished (Err e)"
  shows "e \<notin> {YieldToWaiters, MaxInstancesProfile, MaxInstancesNode, InsufficientResources}"
  using steps_progress [OF assms(1)] assms(2) by (simp add: progress_ok_def outcome_ok_def internal_error_def)

text \<open>A request handles at most three failed starts, and its stage of cold-start recovery stays at four
  or below, so the eight-bit stage counter cannot overflow.
\<close>

theorem recovery_is_bounded:
  assumes "request_step\<^sup>*\<^sup>* (new_request m p v d, qs0) (rq, qs)"
  shows "rq_failures rq \<le> 3 \<and> rq_cold_stage rq \<le> 4
    \<and> (rq_phase rq = Trying \<longrightarrow> rq_failures rq < 3)"
  using steps_progress [OF assms(1)] by (auto simp: progress_ok_def failures_ok_def)


section \<open>A run\<close>

text \<open>A request tries, is refused for lack of room, queues, and is out of time; another one starts to load.\<close>

definition demo_loop_env :: loop_env where
  "demo_loop_env = \<lparr>le_config = demo_config, le_observed = 1, le_observed_after = 1, le_look = (\<lambda>_. None), le_now = 1,
     le_alive = (\<lambda>_. True), le_instances = []\<rparr>"

definition demo_request :: request where
  "demo_request = new_request ''m'' (blank_profile ''p'') 1 (Some 5)"

definition demo_refused :: "request \<times> queue_state" where
  "demo_refused = snd (spawn_refused demo_config 7 id MaxInstancesNode [] (demo_request\<lparr>rq_phase := Trying\<rparr>) empty_queues)"

lemma demo_trying: "request_step\<^sup>*\<^sup>* (demo_request, empty_queues) (demo_request\<lparr>rq_phase := Trying\<rparr>, empty_queues)"
proof -
  have "request_step (demo_request, empty_queues) (loop_top demo_loop_env demo_loop_env demo_request empty_queues)"
    by (rule top) (simp_all add: demo_request_def new_request_def empty_queues_def word_neq_0_conv [symmetric])
  moreover have "loop_top demo_loop_env demo_loop_env demo_request empty_queues = (demo_request\<lparr>rq_phase := Trying\<rparr>, empty_queues)"
    by (simp add: loop_top_def demo_loop_env_def demo_request_def new_request_def adopt_reloaded_profile_def
        refresh_profile_after_reload_def deadline_passed_def fairness_def try_phase_def MAX_LOCAL_SPAWN_FAILURES_def
        has_pending_waiters_def empty_queues_def)
  ultimately show ?thesis by (simp add: r_into_rtranclp)
qed

lemma demo_refused_step:
  "request_step\<^sup>*\<^sup>* (demo_request, empty_queues) (fst demo_refused, snd demo_refused)"
proof -
  have "request_step (demo_request\<lparr>rq_phase := Trying\<rparr>, empty_queues) demo_refused"
    unfolding demo_refused_def by (rule refused) (simp_all add: empty_queues_def word_neq_0_conv [symmetric])
  then show ?thesis using demo_trying by simp
qed

lemma demo_refused_value: "rq_phase (fst demo_refused) = Finished (Err QueueTimeout) \<and> rq_issued (fst demo_refused) = {0}"
  by (simp add: demo_refused_def demo_request_def new_request_def spawn_refused_def queueable_def release_token_def enqueue_def
      deadline_passed_def demo_config_def empty_queues_def Let_def remove_closed_queue_entries_def
      effective_max_queue_size_def blank_profile_def queue_of_def)


theorem refusals_stay_internal_witness:
  "QueueTimeout \<notin> {YieldToWaiters, MaxInstancesProfile, MaxInstancesNode, InsufficientResources}"
  by (rule refusals_stay_internal [OF demo_refused_step [unfolded demo_request_def]])
    (simp add: demo_refused_value)

theorem recovery_is_bounded_witness:
  "rq_cold_stage (demo_request\<lparr>rq_phase := Trying\<rparr>) \<le> 4 \<and> rq_failures (demo_request\<lparr>rq_phase := Trying\<rparr>) < 3"
  using recovery_is_bounded [OF demo_trying [unfolded demo_request_def]] by (simp add: demo_request_def)

end
