(* ===== verification/Metrics.thy ===== *)
theory Metrics
  imports Launch_Args Circuit_Breaker Net_Addr Std_Text Complex_Main
begin

text \<open>
  The metrics of a node, \<^verbatim>\<open>src/metrics.rs\<close>: the counters of the node and of each argument hash, the snapshot
  that is written to disk and read back after a restart, the migration of the hashes of older versions, and
  the text a scraper reads. Atomic counters are words that wrap; what is learned from a start of an
  instance is a type variable, texts of the clock and the digest are arguments.
\<close>

section \<open>Metrics of one argument hash\<close>

record 'p persisted_params =
  pp_params :: 'p
  pp_llama_cpp_version :: "string option"

text \<open>The set of names is a list without repetition; the samples are in the order of the queue.\<close>

record 'p hash_metrics =
  hx_requests_total :: u64
  hx_errors_total :: u64
  hx_tokens_generated_total :: u64
  hx_total_latency_ms :: u64
  hx_latency_samples :: "u64 list"
  hx_peak_vram_mb :: u64
  hx_peak_sysmem_mb :: u64
  hx_sample_count :: u64
  hx_last_memory_update :: string
  hx_display_names :: "string list"
  hx_parsed_params :: "'p persisted_params option"

definition default_hash_metrics :: "'p hash_metrics" where
  "default_hash_metrics = \<lparr>hx_requests_total = 0, hx_errors_total = 0, hx_tokens_generated_total = 0,
     hx_total_latency_ms = 0, hx_latency_samples = [], hx_peak_vram_mb = 0, hx_peak_sysmem_mb = 0, hx_sample_count = 0,
     hx_last_memory_update = [], hx_display_names = [], hx_parsed_params = None\<rparr>"

definition observe_latency :: "u64 \<Rightarrow> 'p hash_metrics \<Rightarrow> 'p hash_metrics" where
  "observe_latency ms h =
     (let samples = (if 100 \<le> length (hx_latency_samples h) then tl (hx_latency_samples h) else hx_latency_samples h)
      in h\<lparr>hx_total_latency_ms := hx_total_latency_ms h + ms, hx_latency_samples := samples @ [ms]\<rparr>)"

definition observe_forwarded_latency :: "u64 \<Rightarrow> 'p hash_metrics \<Rightarrow> 'p hash_metrics" where
  "observe_forwarded_latency ms h = h\<lparr>hx_total_latency_ms := hx_total_latency_ms h + ms\<rparr>"

definition observe_memory :: "string \<Rightarrow> u64 \<Rightarrow> u64 \<Rightarrow> 'p hash_metrics \<Rightarrow> 'p hash_metrics" where
  "observe_memory now vram sysmem h =
     h\<lparr>hx_peak_vram_mb := max (hx_peak_vram_mb h) vram, hx_peak_sysmem_mb := max (hx_peak_sysmem_mb h) sysmem,
       hx_sample_count := hx_sample_count h + 1, hx_last_memory_update := now\<rparr>"

definition add_display_name :: "string \<Rightarrow> 'p hash_metrics \<Rightarrow> 'p hash_metrics" where
  "add_display_name name h = h\<lparr>hx_display_names := List.insert name (hx_display_names h)\<rparr>"

definition set_parsed_params :: "'p \<Rightarrow> string option \<Rightarrow> 'p hash_metrics \<Rightarrow> 'p hash_metrics" where
  "set_parsed_params params version h =
     h\<lparr>hx_parsed_params := Some \<lparr>pp_params = params, pp_llama_cpp_version = version\<rparr>\<rparr>"

definition get_parsed_params :: "string option \<Rightarrow> 'p hash_metrics \<Rightarrow> 'p option" where
  "get_parsed_params current h = (case hx_parsed_params h of
     None \<Rightarrow> None
   | Some stored \<Rightarrow> (case (pp_llama_cpp_version stored, current) of
       (Some s, Some c) \<Rightarrow> if s \<noteq> c then None else Some (pp_params stored)
     | _ \<Rightarrow> Some (pp_params stored)))"

definition tokens_per_second :: "'p hash_metrics \<Rightarrow> rat" where
  "tokens_per_second h =
     (if 0 < hx_total_latency_ms h
      then of_nat (unat (hx_tokens_generated_total h)) * 1000 / of_nat (unat (hx_total_latency_ms h)) else 0)"

text \<open>
  The 95th percentile. There are at most a hundred samples, and for these the rounding of the floating
  point product gives \<open>(n - 1) * 95 div 100\<close>.
\<close>

definition p95_latency :: "u64 list \<Rightarrow> u64" where
  "p95_latency samples = (if samples = [] then 0 else sort samples ! ((length samples - 1) * 95 div 100))"

section \<open>Metrics of the node\<close>

datatype queue_drop_reason = DropFull | DropTimeout | DropGlobalLimit

record node_resource_metrics =
  nr_llamesh_vram_mb :: u64
  nr_llamesh_sysmem_mb :: u64
  nr_external_vram_mb :: u64
  nr_effective_vram_mb :: u64
  nr_effective_sysmem_mb :: u64
  nr_device_vram_used_mb :: u64
  nr_device_vram_total_mb :: u64
  nr_gpu_telemetry_available :: bool
  nr_active_instances :: u64
  nr_max_vram_mb :: u64
  nr_max_sysmem_mb :: u64

definition default_resources :: node_resource_metrics where
  "default_resources = \<lparr>nr_llamesh_vram_mb = 0, nr_llamesh_sysmem_mb = 0, nr_external_vram_mb = 0, nr_effective_vram_mb = 0,
     nr_effective_sysmem_mb = 0, nr_device_vram_used_mb = 0, nr_device_vram_total_mb = 0, nr_gpu_telemetry_available = False,
     nr_active_instances = 0, nr_max_vram_mb = 0, nr_max_sysmem_mb = 0\<rparr>"

text \<open>The gauges of the node's resources are kept together.\<close>

record 'p metrics =
  mt_requests_total :: u64
  mt_errors_total :: u64
  mt_current_requests :: u64
  mt_queue_pending_tokens :: u64
  mt_queue_wait_total_ms :: u64
  mt_queue_wait_count :: u64
  mt_queue_length :: u64
  mt_queue_drops_full :: u64
  mt_queue_drops_timeout :: u64
  mt_queue_drops_global_limit :: u64
  mt_wedged_instances_killed_total :: u64
  mt_hash_metrics :: "(string, 'p hash_metrics) hashmap"
  mt_resources :: node_resource_metrics

definition new_metrics :: "'p metrics" where
  "new_metrics = \<lparr>mt_requests_total = 0, mt_errors_total = 0, mt_current_requests = 0, mt_queue_pending_tokens = 0,
     mt_queue_wait_total_ms = 0, mt_queue_wait_count = 0, mt_queue_length = 0, mt_queue_drops_full = 0,
     mt_queue_drops_timeout = 0, mt_queue_drops_global_limit = 0, mt_wedged_instances_killed_total = 0,
     mt_hash_metrics = [], mt_resources = default_resources\<rparr>"

definition inc_requests :: "'p metrics \<Rightarrow> 'p metrics" where
  "inc_requests m = m\<lparr>mt_requests_total := mt_requests_total m + 1, mt_current_requests := mt_current_requests m + 1\<rparr>"

text \<open>A decrement that corrects itself, as its two atomic steps and as a whole.\<close>

definition fetch_dec :: "u64 \<Rightarrow> u64 \<times> u64" where
  "fetch_dec c = (c, c - 1)"

definition correct_dec :: "u64 \<Rightarrow> u64 \<Rightarrow> u64" where
  "correct_dec prev c = (if prev = 0 then c + 1 else c)"

definition dec_counter :: "u64 \<Rightarrow> u64" where
  "dec_counter c = (case fetch_dec c of (prev, c') \<Rightarrow> correct_dec prev c')"

definition dec_current_requests :: "'p metrics \<Rightarrow> 'p metrics" where
  "dec_current_requests m = m\<lparr>mt_current_requests := dec_counter (mt_current_requests m)\<rparr>"

definition inc_errors :: "'p metrics \<Rightarrow> 'p metrics" where
  "inc_errors m = m\<lparr>mt_errors_total := mt_errors_total m + 1\<rparr>"

definition inc_pending_tokens :: "'p metrics \<Rightarrow> 'p metrics" where
  "inc_pending_tokens m = m\<lparr>mt_queue_pending_tokens := mt_queue_pending_tokens m + 1\<rparr>"

definition dec_pending_tokens :: "'p metrics \<Rightarrow> 'p metrics" where
  "dec_pending_tokens m = m\<lparr>mt_queue_pending_tokens := dec_counter (mt_queue_pending_tokens m)\<rparr>"

definition observe_queue_wait :: "u64 \<Rightarrow> 'p metrics \<Rightarrow> 'p metrics" where
  "observe_queue_wait ms m =
     m\<lparr>mt_queue_wait_total_ms := mt_queue_wait_total_ms m + ms, mt_queue_wait_count := mt_queue_wait_count m + 1\<rparr>"

definition set_queue_length :: "u64 \<Rightarrow> 'p metrics \<Rightarrow> 'p metrics" where
  "set_queue_length n m = m\<lparr>mt_queue_length := n\<rparr>"

definition record_queue_drop :: "queue_drop_reason \<Rightarrow> 'p metrics \<Rightarrow> 'p metrics" where
  "record_queue_drop reason m = (case reason of
     DropFull \<Rightarrow> m\<lparr>mt_queue_drops_full := mt_queue_drops_full m + 1\<rparr>
   | DropTimeout \<Rightarrow> m\<lparr>mt_queue_drops_timeout := mt_queue_drops_timeout m + 1\<rparr>
   | DropGlobalLimit \<Rightarrow> m\<lparr>mt_queue_drops_global_limit := mt_queue_drops_global_limit m + 1\<rparr>)"

definition get_hash_metrics :: "string \<Rightarrow> 'p metrics \<Rightarrow> 'p hash_metrics \<times> 'p metrics" where
  "get_hash_metrics args_hash m = (case hm_get (mt_hash_metrics m) args_hash of
     Some h \<Rightarrow> (h, m)
   | None \<Rightarrow> (default_hash_metrics, m\<lparr>mt_hash_metrics := hm_insert args_hash default_hash_metrics (mt_hash_metrics m)\<rparr>))"

definition get_learned_memory :: "string \<Rightarrow> 'p metrics \<Rightarrow> (u64 \<times> u64) option" where
  "get_learned_memory args_hash m = (case hm_get (mt_hash_metrics m) args_hash of
     None \<Rightarrow> None
   | Some h \<Rightarrow> if hx_sample_count h = 0 then None else Some (hx_peak_vram_mb h, hx_peak_sysmem_mb h))"

definition has_memory_data :: "string \<Rightarrow> 'p metrics \<Rightarrow> bool" where
  "has_memory_data args_hash m = (case hm_get (mt_hash_metrics m) args_hash of
     None \<Rightarrow> False | Some h \<Rightarrow> 0 < hx_sample_count h)"

definition observe_node_resources :: "node_resource_metrics \<Rightarrow> 'p metrics \<Rightarrow> 'p metrics" where
  "observe_node_resources snap m = m\<lparr>mt_resources := snap\<rparr>"

text \<open>\<^verbatim>\<open>served_hash_metrics\<close> of \<^verbatim>\<open>router.rs\<close>: a request moves to the hash of the instance that serves it.\<close>

definition change_hash :: "string \<Rightarrow> ('p hash_metrics \<Rightarrow> 'p hash_metrics) \<Rightarrow> 'p metrics \<Rightarrow> 'p metrics" where
  "change_hash key f m = (case get_hash_metrics key m of
     (h, m') \<Rightarrow> m'\<lparr>mt_hash_metrics := hm_insert key (f h) (mt_hash_metrics m')\<rparr>)"

definition served_hash_metrics :: "string \<Rightarrow> string \<Rightarrow> string \<Rightarrow> 'p metrics \<Rightarrow> 'p metrics" where
  "served_hash_metrics counted served model_key m =
     (if served = counted then m
      else change_hash served (\<lambda>h. (add_display_name model_key h)\<lparr>hx_requests_total := hx_requests_total h + 1\<rparr>)
        (change_hash counted (\<lambda>h. h\<lparr>hx_requests_total := hx_requests_total h - 1\<rparr>) m))"


section \<open>Snapshots\<close>

record build_status =
  bs_is_building :: bool
  bs_last_build_error :: "string option"
  bs_last_build_at :: "string option"

record 'p hash_snapshot =
  hs_display_names :: "string list"
  hs_requests_total :: u64
  hs_errors_total :: u64
  hs_tokens_generated_total :: u64
  hs_avg_latency_ms :: rat
  hs_total_latency_ms :: u64
  hs_p95_latency_ms :: u64
  hs_peak_vram_mb :: u64
  hs_peak_sysmem_mb :: u64
  hs_sample_count :: u64
  hs_parsed_model_params :: "'p persisted_params option"

text \<open>The counters kept outside of the metrics: those of the router and of the instances.\<close>

record process_counters =
  pc_token_counting_disabled :: u64
  pc_skipped_stream_cleanups :: u64
  pc_peer_stream_body_aborts :: u64
  pc_instances_crashed :: u64

record 'p metrics_snapshot =
  ms_node_id :: string
  ms_version :: string
  ms_llama_cpp_version :: string
  ms_started_at_unix :: u64
  ms_requests_total :: u64
  ms_errors_total :: u64
  ms_current_requests :: u64
  ms_queue_length :: u64
  ms_queue_drops_full :: u64
  ms_queue_drops_timeout :: u64
  ms_queue_drops_global_limit :: u64
  ms_wedged_instances_killed_total :: u64
  ms_queue_pending_tokens :: u64
  ms_queue_wait_total_ms :: u64
  ms_queue_wait_count :: u64
  ms_counters :: process_counters
  ms_hashes :: "(string, 'p hash_snapshot) hashmap"
  ms_updated_at :: string
  ms_is_building :: bool
  ms_last_build_error :: "string option"
  ms_last_build_at :: "string option"
  ms_node_resources :: node_resource_metrics

definition snapshot_hash :: "'p hash_metrics \<Rightarrow> 'p hash_snapshot" where
  "snapshot_hash v =
     (let reqs = hx_requests_total v; latency = hx_total_latency_ms v in
      \<lparr>hs_display_names = hx_display_names v, hs_requests_total = reqs, hs_errors_total = hx_errors_total v,
       hs_tokens_generated_total = hx_tokens_generated_total v,
       hs_avg_latency_ms = (if 0 < reqs then of_nat (unat latency) / of_nat (unat reqs) else 0),
       hs_total_latency_ms = latency, hs_p95_latency_ms = p95_latency (hx_latency_samples v),
       hs_peak_vram_mb = hx_peak_vram_mb v, hs_peak_sysmem_mb = hx_peak_sysmem_mb v, hs_sample_count = hx_sample_count v,
       hs_parsed_model_params = hx_parsed_params v\<rparr>)"

definition metrics_snapshot_of ::
  "string \<Rightarrow> string \<Rightarrow> string \<Rightarrow> build_status option \<Rightarrow> u64 \<Rightarrow> process_counters \<Rightarrow> string \<Rightarrow> 'p metrics \<Rightarrow> 'p metrics_snapshot" where
  "metrics_snapshot_of pkg_version node_id version status started counters now m =
     \<lparr>ms_node_id = node_id, ms_version = pkg_version, ms_llama_cpp_version = version, ms_started_at_unix = started,
      ms_requests_total = mt_requests_total m, ms_errors_total = mt_errors_total m,
      ms_current_requests = mt_current_requests m, ms_queue_length = mt_queue_length m,
      ms_queue_drops_full = mt_queue_drops_full m, ms_queue_drops_timeout = mt_queue_drops_timeout m,
      ms_queue_drops_global_limit = mt_queue_drops_global_limit m,
      ms_wedged_instances_killed_total = mt_wedged_instances_killed_total m,
      ms_queue_pending_tokens = mt_queue_pending_tokens m, ms_queue_wait_total_ms = mt_queue_wait_total_ms m,
      ms_queue_wait_count = mt_queue_wait_count m, ms_counters = counters,
      ms_hashes = map (\<lambda>(key, v). (key, snapshot_hash v)) (mt_hash_metrics m), ms_updated_at = now,
      ms_is_building = (case status of None \<Rightarrow> False | Some s \<Rightarrow> bs_is_building s),
      ms_last_build_error = Option.bind status bs_last_build_error, ms_last_build_at = Option.bind status bs_last_build_at,
      ms_node_resources = mt_resources m\<rparr>"

text \<open>\<^verbatim>\<open>as u64\<close> of a number that is not negative: the fraction is dropped, too large numbers saturate.\<close>

definition as_u64 :: "rat \<Rightarrow> u64" where
  "as_u64 q = (if 2 ^ 64 \<le> q then - 1 else of_nat (nat \<lfloor>q\<rfloor>))"

definition restore_hash :: "'p hash_snapshot \<Rightarrow> 'p hash_metrics" where
  "restore_hash v =
     \<lparr>hx_requests_total = hs_requests_total v, hx_errors_total = hs_errors_total v,
      hx_tokens_generated_total = hs_tokens_generated_total v,
      hx_total_latency_ms = (if 0 < hs_total_latency_ms v then hs_total_latency_ms v
        else as_u64 (hs_avg_latency_ms v * of_nat (unat (hs_requests_total v)))),
      hx_latency_samples = [], hx_peak_vram_mb = hs_peak_vram_mb v, hx_peak_sysmem_mb = hs_peak_sysmem_mb v,
      hx_sample_count = hs_sample_count v, hx_last_memory_update = [], hx_display_names = remdups (hs_display_names v),
      hx_parsed_params = hs_parsed_model_params v\<rparr>"

definition from_snapshot :: "'p metrics_snapshot \<Rightarrow> 'p metrics" where
  "from_snapshot snap = new_metrics
     \<lparr>mt_requests_total := ms_requests_total snap, mt_errors_total := ms_errors_total snap, mt_current_requests := 0,
      mt_queue_drops_full := ms_queue_drops_full snap, mt_queue_drops_timeout := ms_queue_drops_timeout snap,
      mt_queue_drops_global_limit := ms_queue_drops_global_limit snap,
      mt_wedged_instances_killed_total := ms_wedged_instances_killed_total snap,
      mt_hash_metrics := fold (\<lambda>(key, v). hm_insert key (restore_hash v)) (ms_hashes snap) []\<rparr>"

section \<open>Hashes of older versions\<close>

fun legacy_filter :: "bool \<Rightarrow> string list \<Rightarrow> string list" where
  "legacy_filter skip_next [] = []"
| "legacy_filter skip_next (arg # rest) =
     (if skip_next then legacy_filter False rest
      else if arg = ''--host'' \<or> arg = ''--port'' then legacy_filter True rest
      else if starts_with arg ''--host='' \<or> starts_with arg ''--port='' then legacy_filter False rest
      else arg # legacy_filter False rest)"

definition legacy_args_hash :: "(string \<Rightarrow> string) \<Rightarrow> string list \<Rightarrow> string" where
  "legacy_args_hash sha256 args =
     hex_fixed 16 (from_be_bytes (take 8 (sha256 (concat (map (\<lambda>a. a @ [CHR 0x00]) (sort (legacy_filter False args)))))))"

text \<open>The loop over the profiles: the copies made so far and the old hashes that were used.\<close>

definition migrate_profile ::
  "(string \<Rightarrow> string) \<Rightarrow> (string, 'p hash_metrics) hashmap \<Rightarrow> profile \<Rightarrow>
   (string, 'p hash_metrics) hashmap \<times> string set \<Rightarrow> (string, 'p hash_metrics) hashmap \<times> string set" where
  "migrate_profile sha256 hashes p acc =
     (let (migrated, legacy_hashes) = acc; args = fst (build_pre_args p);
          legacy = legacy_args_hash sha256 args; new = compute_args_hash sha256 args
      in if legacy = new then acc
         else case hm_get hashes legacy of
           None \<Rightarrow> acc
         | Some metrics \<Rightarrow>
             (if hm_get hashes new = None \<and> hm_get migrated new = None then hm_insert new metrics migrated else migrated,
              insert legacy legacy_hashes))"

definition migrate_args_hashes :: "(string \<Rightarrow> string) \<Rightarrow> cookbook \<Rightarrow> 'p metrics \<Rightarrow> nat \<times> 'p metrics" where
  "migrate_args_hashes sha256 cb m =
     (let hashes = mt_hash_metrics m;
          (migrated, legacy_hashes) = fold (migrate_profile sha256 hashes) (concat (map profiles (models cb))) ([], {});
          kept = filter (\<lambda>(key, _). key \<notin> legacy_hashes) hashes
      in (length migrated, m\<lparr>mt_hash_metrics := fold (\<lambda>(key, v). hm_insert key v) migrated kept\<rparr>))"

text \<open>The file as it was found: there is none, it could not be read or parsed, or it holds a snapshot.\<close>

datatype 'p metrics_file = NoMetricsFile | UnreadableMetrics | MetricsFile "'p metrics_snapshot"

definition load_metrics :: "(string \<Rightarrow> string) \<Rightarrow> cookbook \<Rightarrow> 'p metrics_file \<Rightarrow> 'p metrics" where
  "load_metrics sha256 cb file = (case file of
     NoMetricsFile \<Rightarrow> new_metrics
   | UnreadableMetrics \<Rightarrow> new_metrics
   | MetricsFile snap \<Rightarrow> snd (migrate_args_hashes sha256 cb (from_snapshot snap)))"

section \<open>What survives a restart\<close>

text \<open>What a metrics object keeps: one entry per hash, and each name once.\<close>

definition metrics_ok :: "'p metrics \<Rightarrow> bool" where
  "metrics_ok m \<longleftrightarrow> hm_ok (mt_hash_metrics m)
     \<and> (\<forall>h \<in> set (hm_values (mt_hash_metrics m)). distinct (hx_display_names h) \<and> length (hx_latency_samples h) \<le> 100)"

text \<open>The state right after a restart: gauges are zero, samples are gone, everything else is kept.\<close>

definition restarted :: "'p metrics \<Rightarrow> 'p metrics" where
  "restarted m = m\<lparr>mt_current_requests := 0, mt_queue_pending_tokens := 0, mt_queue_wait_total_ms := 0,
     mt_queue_wait_count := 0, mt_queue_length := 0, mt_resources := default_resources,
     mt_hash_metrics := map (\<lambda>(key, h). (key, h\<lparr>hx_latency_samples := [], hx_last_memory_update := []\<rparr>)) (mt_hash_metrics m)\<rparr>"

lemma restore_snapshot_hash:
  "distinct (hx_display_names h) \<Longrightarrow>
   restore_hash (snapshot_hash h) = h\<lparr>hx_latency_samples := [], hx_last_memory_update := []\<rparr>"
  by (auto simp: restore_hash_def snapshot_hash_def Let_def as_u64_def word_gt_0 distinct_remdups_id intro!: hash_metrics.equality)

lemma hm_insert_new: "hm_get m k = None \<Longrightarrow> hm_insert k v m = m @ [(k, v)]"
  by (induction m) (auto split: if_splits)

lemma fold_hm_insert:
  "distinct (map fst acc @ map fst xs) \<Longrightarrow> fold (\<lambda>(key, v). hm_insert key (f v)) xs acc = acc @ map (\<lambda>(key, v). (key, f v)) xs"
proof (induction xs arbitrary: acc)
  case (Cons x xs)
  obtain k v where x: "x = (k, v)" by (cases x)
  then have "hm_get acc k = None" using Cons.prems by (auto simp: map_of_eq_None_iff)
  then show ?case using Cons x by (auto simp: hm_insert_new)
qed simp


text \<open>C31. What a node writes at its end it has again after a restart: every counter of the node and of every hash,
  the peaks, names and parameters, with the gauges at zero and the latency samples empty; the total
  latency comes back exactly although the file also holds the average it was once rebuilt from.\<close>

theorem metrics_survive_restart:
  assumes "metrics_ok m"
  shows "from_snapshot (metrics_snapshot_of pkg_version node_id version status started counters now m) = restarted m"
proof -
  have "map (\<lambda>(key, v). (key, restore_hash (snapshot_hash v))) (mt_hash_metrics m)
      = map (\<lambda>(key, h). (key, h\<lparr>hx_latency_samples := [], hx_last_memory_update := []\<rparr>)) (mt_hash_metrics m)"
    using assms by (auto simp: metrics_ok_def restore_snapshot_hash)
  moreover have "fold (\<lambda>(key, v). hm_insert key (restore_hash v)) (map (\<lambda>(key, v). (key, snapshot_hash v)) (mt_hash_metrics m)) []
      = map (\<lambda>(key, v). (key, restore_hash (snapshot_hash v))) (mt_hash_metrics m)"
    using assms by (subst fold_hm_insert) (auto simp: metrics_ok_def case_prod_beta comp_def)
  ultimately show ?thesis
    by (simp add: from_snapshot_def metrics_snapshot_of_def restarted_def new_metrics_def)
qed

text \<open>Both hashes are of the same tokens: one sorts them alone, the other keeps options and values together.\<close>

lemma concat_push_last: "gs \<noteq> [] \<Longrightarrow> concat (push_last gs x) = concat gs @ [x]"
  by (cases gs rule: rev_cases) (simp_all add: push_last_def)

lemma arg_groups_tokens:
  "(has_option \<longrightarrow> gs \<noteq> []) \<Longrightarrow>
   concat (arg_groups skip has_option gs args) = concat gs @ legacy_filter skip args"
proof (induction args arbitrary: skip has_option gs)
  case (Cons a args)
  show ?case
    using Cons.IH [of has_option gs] Cons.IH [of True "gs @ [[a]]"] Cons.IH [of has_option "push_last gs a"]
      Cons.IH [of has_option "gs @ [[a]]"] Cons.prems
    by (auto simp: concat_push_last) (auto simp: push_last_def)
qed simp

lemma same_groups_same_legacy:
  assumes "mset (option_groups a) = mset (option_groups b)"
  shows "legacy_args_hash sha256 a = legacy_args_hash sha256 b"
proof -
  have tokens: "mset (legacy_filter False args) = \<Sum>\<^sub># (image_mset mset (mset (option_groups args)))" for args
    using mset_concat [of "option_groups args"] arg_groups_tokens [of False "[]" False args]
    by (simp add: option_groups_def sum_mset_sum_list flip: mset_map)
  have "sort (legacy_filter False a) = sort (legacy_filter False b)"
    by (simp add: sort_eq_iff tokens assms)
  then show ?thesis by (simp add: legacy_args_hash_def)
qed


abbreviation all_profiles :: "cookbook \<Rightarrow> profile list" where
  "all_profiles cb \<equiv> concat (map profiles (models cb))"

definition legacy_hash_of :: "(string \<Rightarrow> string) \<Rightarrow> profile \<Rightarrow> string" where
  "legacy_hash_of sha256 p = legacy_args_hash sha256 (fst (build_pre_args p))"

lemma migrate_profile_eq:
  "migrate_profile sha256 hashes p (migrated, used) =
     (if legacy_hash_of sha256 p = args_hash_for_profile sha256 p then (migrated, used)
      else case hm_get hashes (legacy_hash_of sha256 p) of
        None \<Rightarrow> (migrated, used)
      | Some h \<Rightarrow> (let new = args_hash_for_profile sha256 p in
          (if hm_get hashes new = None \<and> hm_get migrated new = None then hm_insert new h migrated else migrated,
           insert (legacy_hash_of sha256 p) used)))"
  unfolding migrate_profile_def legacy_hash_of_def args_hash_for_profile_def Let_def by (simp split: option.split)

lemma migrated_used:
  "snd (fold (migrate_profile sha256 hashes) ps acc) \<subseteq> snd acc \<union> legacy_hash_of sha256 ` set ps"
proof (induction ps arbitrary: acc)
  case (Cons p ps)
  have "snd (migrate_profile sha256 hashes p acc) \<subseteq> insert (legacy_hash_of sha256 p) (snd acc)"
    by (cases acc) (auto simp: migrate_profile_eq Let_def split: option.splits if_splits)
  then show ?case using Cons.IH [of "migrate_profile sha256 hashes p acc"] by auto
qed simp

lemma migrated_ok: "hm_ok (fst acc) \<Longrightarrow> hm_ok (fst (fold (migrate_profile sha256 hashes) ps acc))"
proof (induction ps arbitrary: acc)
  case (Cons p ps)
  have "hm_ok (fst (migrate_profile sha256 hashes p acc))"
    using Cons.prems by (cases acc) (auto simp: migrate_profile_eq Let_def hm_ok_insert split: option.splits)
  then show ?case using Cons.IH [of "migrate_profile sha256 hashes p acc"] by simp
qed simp

lemma migrated_get:
  assumes "\<And>q. q \<in> set ps \<Longrightarrow> args_hash_for_profile sha256 q = new \<Longrightarrow> legacy_hash_of sha256 q = legacy"
    and "legacy \<noteq> new"
  shows "hm_get (fst (fold (migrate_profile sha256 hashes) ps acc)) new = (case hm_get (fst acc) new of
     Some h \<Rightarrow> Some h
   | None \<Rightarrow> if hm_get hashes new = None \<and> new \<in> args_hash_for_profile sha256 ` set ps then hm_get hashes legacy else None)"
  using assms(1)
proof (induction ps arbitrary: acc)
  case (Cons p ps)
  let ?acc = "migrate_profile sha256 hashes p acc"
  have step: "hm_get (fst ?acc) new = (case hm_get (fst acc) new of
      Some h \<Rightarrow> Some h
    | None \<Rightarrow> if hm_get hashes new = None \<and> args_hash_for_profile sha256 p = new then hm_get hashes legacy else None)"
    using Cons.prems [of p] assms(2)
    by (cases acc) (auto simp: migrate_profile_eq Let_def hm_simps split: option.splits)
  have "hm_get (fst (fold (migrate_profile sha256 hashes) ps ?acc)) new = (case hm_get (fst ?acc) new of
     Some h \<Rightarrow> Some h
   | None \<Rightarrow> if hm_get hashes new = None \<and> new \<in> args_hash_for_profile sha256 ` set ps then hm_get hashes legacy else None)"
    using Cons.IH Cons.prems by simp
  then show ?case using step by (auto split: option.splits if_splits)
qed (simp split: option.split)

lemma hm_get_kept: "P k \<Longrightarrow> hm_get (filter (\<lambda>(key, _). P key) m) k = hm_get m k"
  by (induction m) auto

lemma get_extended:
  "hm_ok xs \<Longrightarrow> hm_get (fold (\<lambda>(key, v). hm_insert key v) xs m) k = (case hm_get xs k of Some v \<Rightarrow> Some v | None \<Rightarrow> hm_get m k)"
proof (induction xs arbitrary: m)
  case (Cons x xs)
  obtain a b where x: "x = (a, b)" by (cases x)
  then have "hm_get xs a = None" using Cons.prems by (auto simp: map_of_eq_None_iff)
  then show ?case using Cons.IH [of "hm_insert a b m"] Cons.prems x by (cases "hm_get xs k") (auto simp: hm_simps)
qed simp



text \<open>A digest that tells only the two formats apart, and one profile.\<close>

definition demo_digest :: "string \<Rightarrow> string" where
  "demo_digest x = replicate 1 (if x \<noteq> [] \<and> hd x = CHR 0x00 then CHR 0x01 else CHR 0x02)"

definition one_profile :: cookbook where
  "one_profile = \<lparr>models = [\<lparr>m_name = ''m'', m_description = None, m_enabled = False, profiles = [blank_profile ''p'']\<rparr>]\<rparr>"

lemma hex_fixed_16: "n < 16 \<Longrightarrow> hex_fixed 16 n = replicate 15 (hex_digit 0) @ [hex_digit n]"
proof -
  have zero: "hex_fixed k 0 = replicate k (hex_digit 0)" for k
    by (induction k) (simp_all add: replicate_append_same)
  assume "n < 16"
  then have "hex_fixed (Suc 15) n = replicate 15 (hex_digit 0) @ [hex_digit n]" by (simp only: hex_fixed.simps zero div_less mod_less)
  then show ?thesis by simp
qed

lemma be_bytes_small: "n < 256 \<Longrightarrow> be_bytes (Suc k) n = replicate k (char_of (0 :: nat)) @ [char_of n]"
proof -
  have "be_bytes k 0 = replicate k (char_of (0 :: nat))" for k
    by (induction k) (simp_all add: replicate_append_same)
  then show "n < 256 \<Longrightarrow> ?thesis" by simp
qed

lemma sort_first: "xs \<noteq> [] \<Longrightarrow> \<exists>y ys. sort xs = y # ys \<and> y \<in> set xs" for xs :: "'a::linorder list"
proof -
  assume "xs \<noteq> []"
  then have "sort xs \<noteq> []" by (metis set_empty set_sort)
  then obtain y ys where "sort xs = y # ys" by (cases "sort xs") auto
  then show ?thesis by (metis list.set_intros(1) set_sort)
qed

lemma demo_hashes:
  "args_hash_for_profile demo_digest (blank_profile ''p'') = ''0000000000000001''"
  "legacy_hash_of demo_digest (blank_profile ''p'') = ''0000000000000002''"
proof -
  have args: "fst (build_pre_args (blank_profile ''p'')) = [''-c'', ''0'', ''--fit'', ''off'']"
    by (simp add: build_pre_args_def blank_profile_def no_pre_args_def source_args_def Let_def)
  have groups: "option_groups [''-c'', ''0'', ''--fit'', ''off''] = [[''-c'', ''0''], [''--fit'', ''off'']]"
    by (simp add: option_groups_def starts_with_def parses_f64_def strip_sign_def Let_def to_lowercase_def ascii_lower_def
        is_decimal_def is_digit_def is_exponent_def push_last_def)
  have "Suc 7 = 8" by simp
  then have two: "be_bytes 8 2 = replicate 7 (char_of (0 :: nat)) @ [char_of (2 :: nat)]"
    using be_bytes_small [of 2 7] by simp
  have new: "demo_digest (hash_input [''-c'', ''0'', ''--fit'', ''off'']) = [CHR 0x01]"
  proof -
    obtain g gs where "sort (option_groups [''-c'', ''0'', ''--fit'', ''off'']) = g # gs"
      "g \<in> set (option_groups [''-c'', ''0'', ''--fit'', ''off''])"
      using sort_first [of "option_groups [''-c'', ''0'', ''--fit'', ''off'']"] by (auto simp: groups)
    note sorted = this
    have "be_bytes 8 2 \<noteq> [] \<and> hd (be_bytes 8 2) = CHR 0x00"
      unfolding two by (simp add: hd_append) (simp add: char_of_def)
    then have "be_bytes 8 (Suc (Suc 0)) \<noteq> [] \<and> hd (be_bytes 8 (Suc (Suc 0))) = CHR 0x00" by (simp add: numeral_2_eq_2)
    with sorted show ?thesis by (auto simp: hash_input_def hash_group_def demo_digest_def groups)
  qed
  have old: "demo_digest (concat (map (\<lambda>a. a @ [CHR 0x00]) (sort (legacy_filter False [''-c'', ''0'', ''--fit'', ''off''])))) = [CHR 0x02]"
  proof -
    have filt: "legacy_filter False [''-c'', ''0'', ''--fit'', ''off''] = [''-c'', ''0'', ''--fit'', ''off'']"
      by (simp add: starts_with_def)
    obtain t ts where "sort [''-c'', ''0'', ''--fit'', ''off''] = t # ts" "t \<in> {''-c'', ''0'', ''--fit'', ''off''}"
      using sort_first [of "[''-c'', ''0'', ''--fit'', ''off'']"] unfolding list.set by blast
    then show ?thesis unfolding filt by (auto simp: demo_digest_def)
  qed
  show "args_hash_for_profile demo_digest (blank_profile ''p'') = ''0000000000000001''"
    unfolding args_hash_for_profile_def compute_args_hash_def args new
    by (simp add: from_be_bytes_def hex_fixed_16) code_simp
  show "legacy_hash_of demo_digest (blank_profile ''p'') = ''0000000000000002''"
    unfolding legacy_hash_of_def legacy_args_hash_def args old
    by (simp add: from_be_bytes_def hex_fixed_16) code_simp
qed


theorem metrics_survive_restart_witness:
  "from_snapshot (metrics_snapshot_of ''1.0'' ''n1'' ''v'' None 5 \<lparr>pc_token_counting_disabled = 0, pc_skipped_stream_cleanups = 0,
       pc_peer_stream_body_aborts = 0, pc_instances_crashed = 0\<rparr> ''t''
       (change_hash ''h'' (\<lambda>h. observe_latency 7 (add_display_name ''m:p'' h)) (inc_requests (new_metrics :: unit metrics)))) =
   restarted (change_hash ''h'' (\<lambda>h. observe_latency 7 (add_display_name ''m:p'' h)) (inc_requests new_metrics))"
  by (rule metrics_survive_restart)
    (simp add: metrics_ok_def change_hash_def get_hash_metrics_def inc_requests_def new_metrics_def default_hash_metrics_def
      observe_latency_def add_display_name_def)


section \<open>The window of samples and learned memory\<close>

lemma observe_window:
  assumes "length (hx_latency_samples h) \<le> 100"
  shows "hx_latency_samples (observe_latency ms h) =
     drop (length (hx_latency_samples h) + 1 - 100) (hx_latency_samples h @ [ms])"
  using assms by (cases "length (hx_latency_samples h) = 100")
    (auto simp: observe_latency_def Let_def drop_Suc simp del: drop_eq_Nil)

lemma observe_total: "hx_total_latency_ms (observe_latency ms h) = hx_total_latency_ms h + ms"
  by (simp add: observe_latency_def Let_def)

text \<open>The window holds the last hundred latencies, in order, and the total is the sum of all.\<close>

lemma latencies_observed:
  "hx_latency_samples (fold observe_latency xs (default_hash_metrics :: 'p hash_metrics)) = drop (length xs - 100) xs
   \<and> hx_total_latency_ms (fold observe_latency xs (default_hash_metrics :: 'p hash_metrics)) = sum_list xs"
proof (induction xs rule: rev_induct)
  case (snoc x xs)
  let ?h = "fold observe_latency xs (default_hash_metrics :: 'p hash_metrics)"
  have "hx_latency_samples (observe_latency x ?h) = drop (length xs + 1 - 100) (xs @ [x])"
    by (subst observe_window) (use snoc in \<open>auto intro!: arg_cong [where f = "\<lambda>n. drop n xs"]\<close>)
  moreover have "hx_total_latency_ms (observe_latency x ?h) = sum_list xs + x" using snoc by (simp add: observe_total)
  ultimately show ?case by simp
qed (simp add: default_hash_metrics_def)

lemma p95_is_a_sample: "samples \<noteq> [] \<Longrightarrow> p95_latency samples \<in> set samples"
proof -
  assume "samples \<noteq> []"
  then have "(length samples - 1) * 95 div 100 < length (sort samples)" by (cases samples) auto
  then have "sort samples ! ((length samples - 1) * 95 div 100) \<in> set (sort samples)" by (rule nth_mem)
  then show ?thesis using \<open>samples \<noteq> []\<close> by (simp add: p95_latency_def)
qed

text \<open>A decrement at zero leaves zero. But its two steps are not one: a request that is counted and ends between them stays counted.\<close>

lemma dec_counter_saturates: "dec_counter c = (if c = 0 then 0 else c - 1)"
  by (simp add: dec_counter_def fetch_dec_def correct_dec_def)

lemma dec_race:
  "let (prev_a, c1) = fetch_dec 0; c2 = c1 + 1; (prev_b, c3) = fetch_dec c2 in correct_dec prev_b (correct_dec prev_a c3) = 1"
  by (simp add: fetch_dec_def correct_dec_def)

end
