(* ===== verification/Exposition.thy ===== *)
theory Exposition
  imports Metrics
begin

text \<open>
  The text a scraper reads, \<^verbatim>\<open>render_prometheus_with_circuit_breaker\<close> of \<^verbatim>\<open>src/metrics.rs\<close>: one block for each
  family of metrics, with its help, its type and its samples. The blocks are listed in the order in
  which the code writes them. The reader below is that of the exposition format.
\<close>

section \<open>Families\<close>

definition CARGO_PKG_VERSION :: string where "CARGO_PKG_VERSION = ''1.22.6''"

abbreviation dquote :: char where "dquote \<equiv> CHR 0x22"
abbreviation backslash :: char where "backslash \<equiv> CHR 0x5C"

definition replace_char :: "char \<Rightarrow> string \<Rightarrow> string \<Rightarrow> string" where
  "replace_char c by s = concat (map (\<lambda>x. if x = c then by else [x]) s)"

definition escape_label_value :: "string \<Rightarrow> string" where
  "escape_label_value s = replace_char newline [backslash, CHR ''n'']
     (replace_char dquote [backslash, dquote] (replace_char backslash [backslash, backslash] s))"

text \<open>A sample has labels and a value; the labels are written with their values escaped.\<close>

record family =
  fa_name :: string
  fa_type :: string
  fa_help :: string
  fa_samples :: "((string \<times> string) list \<times> nat) list"

fun print_labels :: "(string \<times> string) list \<Rightarrow> string" where
  "print_labels [] = []"
| "print_labels [(k, v)] = k @ ''='' @ [dquote] @ escape_label_value v @ [dquote]"
| "print_labels ((k, v) # ls) = k @ ''='' @ [dquote] @ escape_label_value v @ [dquote] @ '','' @ print_labels ls"

definition print_sample :: "string \<Rightarrow> (string \<times> string) list \<times> nat \<Rightarrow> string" where
  "print_sample name s =
     name @ (if fst s = [] then [] else ''{'' @ print_labels (fst s) @ ''}'') @ '' '' @ show_base 10 (snd s)"

definition family_lines :: "family \<Rightarrow> string list" where
  "family_lines f = [''# HELP '' @ fa_name f @ '' '' @ fa_help f, ''# TYPE '' @ fa_name f @ '' '' @ fa_type f]
     @ map (print_sample (fa_name f)) (fa_samples f)"

definition print_family :: "family \<Rightarrow> string" where
  "print_family f = concat (map (\<lambda>l. l @ [newline]) (family_lines f))"

abbreviation single_family :: "string \<Rightarrow> string \<Rightarrow> string \<Rightarrow> nat \<Rightarrow> family" where
  "single_family name typ help v \<equiv> \<lparr>fa_name = name, fa_type = typ, fa_help = help, fa_samples = [([], v)]\<rparr>"

definition node_families :: "string \<Rightarrow> u64 \<Rightarrow> 'p metrics \<Rightarrow> family list" where
  "node_families llama_cpp_version start_time_unix m =
    [\<lparr>fa_name = ''proxy_build_info'', fa_type = ''gauge'', fa_help = ''Build information for the llamesh proxy; value is always 1.'',
      fa_samples = [([(''version'', CARGO_PKG_VERSION), (''llama_cpp_version'', llama_cpp_version)], 1)]\<rparr>,
     single_family ''process_start_time_seconds'' ''gauge''
       ''Start time of the process since unix epoch in seconds.''
       (unat (start_time_unix)),
     single_family ''proxy_requests_total'' ''counter''
       ''Total number of requests received.''
       (unat (mt_requests_total m)),
     single_family ''proxy_errors_total'' ''counter''
       ''Total number of request errors.''
       (unat (mt_errors_total m)),
     single_family ''proxy_current_requests'' ''gauge''
       ''Number of requests currently in flight.''
       (unat (mt_current_requests m)),
     single_family ''proxy_node_llamesh_vram_mb'' ''gauge''
       ''VRAM attributed to llamesh-managed instances.''
       (unat (nr_llamesh_vram_mb (mt_resources m))),
     single_family ''proxy_node_llamesh_sysmem_mb'' ''gauge''
       ''System memory attributed to llamesh-managed instances.''
       (unat (nr_llamesh_sysmem_mb (mt_resources m))),
     single_family ''proxy_node_external_vram_mb'' ''gauge''
       ''Device VRAM used outside llamesh-managed instances.''
       (unat (nr_external_vram_mb (mt_resources m))),
     single_family ''proxy_node_effective_vram_mb'' ''gauge''
       ''VRAM used for admission control after external usage is included.''
       (unat (nr_effective_vram_mb (mt_resources m))),
     single_family ''proxy_node_effective_sysmem_mb'' ''gauge''
       ''System memory used for admission control.''
       (unat (nr_effective_sysmem_mb (mt_resources m))),
     single_family ''proxy_node_device_vram_used_mb'' ''gauge''
       ''Device-wide used VRAM reported by GPU telemetry.''
       (unat (nr_device_vram_used_mb (mt_resources m))),
     single_family ''proxy_node_device_vram_total_mb'' ''gauge''
       ''Device-wide total VRAM reported by GPU telemetry.''
       (unat (nr_device_vram_total_mb (mt_resources m))),
     single_family ''proxy_node_gpu_telemetry_available'' ''gauge''
       ''Whether device-wide GPU telemetry is available (1=true, 0=false).''
       (if nr_gpu_telemetry_available (mt_resources m) then 1 else 0),
     single_family ''proxy_node_active_instances'' ''gauge''
       ''Number of llama-server instances currently managed on this node.''
       (unat (nr_active_instances (mt_resources m))),
     single_family ''proxy_node_max_vram_mb'' ''gauge''
       ''Configured VRAM admission guardrail in MB (max_vram_mb); a new instance is spawned only while effective VRAM plus its estimated usage stays within this limit.''
       (unat (nr_max_vram_mb (mt_resources m))),
     single_family ''proxy_node_max_sysmem_mb'' ''gauge''
       ''Configured system-memory admission guardrail in MB (max_sysmem_mb).''
       (unat (nr_max_sysmem_mb (mt_resources m)))]"

definition queue_families :: "'p metrics \<Rightarrow> family list" where
  "queue_families m =
    [single_family ''proxy_queue_pending_tokens'' ''gauge''
       ''Number of pending queue tokens.''
       (unat (mt_queue_pending_tokens m)),
     single_family ''proxy_queue_wait_total_ms'' ''counter''
       ''Total queue wait time in milliseconds.''
       (unat (mt_queue_wait_total_ms m)),
     single_family ''proxy_queue_wait_count'' ''counter''
       ''Total number of requests that waited in queue.''
       (unat (mt_queue_wait_count m)),
     single_family ''proxy_queue_length'' ''gauge''
       ''Current number of requests waiting in model queues.''
       (unat (mt_queue_length m)),
     \<lparr>fa_name = ''proxy_queue_drops_total'', fa_type = ''counter'', fa_help = ''Requests dropped from model queues, by reason.'',
      fa_samples = [([(''reason'', ''full'')], unat (mt_queue_drops_full m)), ([(''reason'', ''timeout'')], unat (mt_queue_drops_timeout m)),
        ([(''reason'', ''global_limit'')], unat (mt_queue_drops_global_limit m))]\<rparr>]"

definition process_families :: "process_counters \<Rightarrow> 'p metrics \<Rightarrow> family list" where
  "process_families pc m =
    [single_family ''proxy_wedged_instances_killed_total'' ''counter''
       ''Local instances stopped by the wedged-instance watchdog.''
       (unat (mt_wedged_instances_killed_total m)),
     single_family ''proxy_token_counting_disabled_total'' ''counter''
       ''Times token counting was disabled.''
       (unat (pc_token_counting_disabled pc)),
     single_family ''proxy_skipped_stream_cleanups_total'' ''counter''
       ''Stream cleanups skipped during shutdown.''
       (unat (pc_skipped_stream_cleanups pc)),
     single_family ''proxy_peer_stream_body_aborts_total'' ''counter''
       ''Forwarded peer streaming responses whose body aborted mid-stream.''
       (unat (pc_peer_stream_body_aborts pc)),
     single_family ''proxy_instances_crashed_total'' ''counter''
       ''Local llama-server instances that exited abnormally (fault signal or non-zero exit; excludes graceful SIGTERM).''
       (unat (pc_instances_crashed pc))]"

definition circuit_families :: "circuits option \<Rightarrow> family list" where
  "circuit_families cb = (case cb of
     None \<Rightarrow> []
   | Some cs \<Rightarrow> [\<lparr>fa_name = ''proxy_circuit_breaker_state'', fa_type = ''gauge'',
       fa_help = ''Circuit breaker state per peer (0=closed, 1=open, 2=half-open).'',
       fa_samples = map (\<lambda>(peer, st). ([(''peer'', peer)], case st of Closed \<Rightarrow> 0 | Open \<Rightarrow> 1 | HalfOpen \<Rightarrow> 2)) (get_all_states cs)\<rparr>])"

text \<open>The row of a hash; its names are sorted, so that a series keeps its labels.\<close>

record hash_row =
  hr_labels :: "(string \<times> string) list"
  hr_requests :: u64
  hr_errors :: u64
  hr_tokens :: u64
  hr_total_latency_ms :: u64
  hr_p95_latency_ms :: u64
  hr_peak_vram_mb :: u64
  hr_peak_sysmem_mb :: u64

definition hash_row_of :: "string \<times> 'p hash_metrics \<Rightarrow> hash_row" where
  "hash_row_of e = (case e of (key, h) \<Rightarrow>
     \<lparr>hr_labels = [(''hash'', key), (''names'', join_with '','' (sort (hx_display_names h)))],
      hr_requests = hx_requests_total h, hr_errors = hx_errors_total h, hr_tokens = hx_tokens_generated_total h,
      hr_total_latency_ms = hx_total_latency_ms h, hr_p95_latency_ms = p95_latency (hx_latency_samples h),
      hr_peak_vram_mb = hx_peak_vram_mb h, hr_peak_sysmem_mb = hx_peak_sysmem_mb h\<rparr>)"

definition row_family :: "string \<Rightarrow> string \<Rightarrow> string \<Rightarrow> (hash_row \<Rightarrow> u64) \<Rightarrow> hash_row list \<Rightarrow> family" where
  "row_family name typ help val rows = \<lparr>fa_name = name, fa_type = typ, fa_help = help,
     fa_samples = map (\<lambda>r. (hr_labels r, unat (val r))) rows\<rparr>"

definition hash_families :: "'p metrics \<Rightarrow> family list" where
  "hash_families m = (let rows = map hash_row_of (mt_hash_metrics m) in
    [row_family ''proxy_hash_requests_total'' ''counter'' ''Total requests per model/profile hash.'' hr_requests rows,
     row_family ''proxy_hash_errors_total'' ''counter'' ''Total errors per model/profile hash.'' hr_errors rows,
     row_family ''proxy_hash_tokens_generated_total'' ''counter'' ''Total tokens generated per hash.'' hr_tokens rows,
     row_family ''proxy_hash_total_latency_ms'' ''counter'' ''Total latency in milliseconds per hash.'' hr_total_latency_ms rows,
     row_family ''proxy_hash_p95_latency_ms'' ''gauge'' ''P95 latency in milliseconds (last 100 samples).'' hr_p95_latency_ms rows,
     row_family ''proxy_hash_peak_vram_mb'' ''gauge'' ''Peak VRAM usage in MB per hash.'' hr_peak_vram_mb rows,
     row_family ''proxy_hash_peak_sysmem_mb'' ''gauge'' ''Peak system memory usage in MB per hash.'' hr_peak_sysmem_mb rows])"

definition exposition :: "circuits option \<Rightarrow> string \<Rightarrow> u64 \<Rightarrow> process_counters \<Rightarrow> 'p metrics \<Rightarrow> family list" where
  "exposition cb llama_cpp_version start_time_unix pc m =
     node_families llama_cpp_version start_time_unix m @ queue_families m @ process_families pc m @ circuit_families cb @ hash_families m"

definition render_prometheus :: "circuits option \<Rightarrow> string \<Rightarrow> u64 \<Rightarrow> process_counters \<Rightarrow> 'p metrics \<Rightarrow> string" where
  "render_prometheus cb llama_cpp_version start_time_unix pc m =
     concat (map print_family (exposition cb llama_cpp_version start_time_unix pc m))"


section \<open>A reader of the format\<close>

definition name_char :: "char \<Rightarrow> bool" where
  "name_char c = (is_digit c \<or> c = CHR ''_'' \<or> c = CHR '':'' \<or> 97 \<le> (of_char (ascii_lower c) :: nat) \<and> (of_char (ascii_lower c) :: nat) \<le> 122)"

definition unescaped :: "char \<Rightarrow> char" where
  "unescaped c = (if c = CHR ''n'' then newline else c)"

text \<open>The rest of a label value, up to its closing quote.\<close>

fun read_value :: "string \<Rightarrow> (string \<times> string) option" where
  "read_value [] = None"
| "read_value (c # cs) =
     (if c = dquote then Some ([], cs)
      else if c = backslash then (case cs of [] \<Rightarrow> None | d # ds \<Rightarrow> map_option (apfst (\<lambda>v. unescaped d # v)) (read_value ds))
      else map_option (apfst (\<lambda>v. c # v)) (read_value cs))"

lemma read_value_shorter: "read_value s = Some (v, r) \<Longrightarrow> length r < length s"
  by (induction s arbitrary: v rule: read_value.induct) (fastforce split: if_splits list.splits)+

lemma label_start_shorter:
  "strip_prefix (dropWhile name_char s) p = Some t \<Longrightarrow> length t \<le> length s"
  using length_dropWhile_le [of name_char s] by (auto simp: strip_prefix_def split: if_splits)

function read_labels :: "string \<Rightarrow> ((string \<times> string) list \<times> string) option" where
  "read_labels s =
     (case strip_prefix (dropWhile name_char s) (''='' @ [dquote]) of
        None \<Rightarrow> None
      | Some t \<Rightarrow> (case read_value t of
          None \<Rightarrow> None
        | Some (v, r) \<Rightarrow> (case r of
            [] \<Rightarrow> None
          | c # r' \<Rightarrow>
              if c = CHR ''}'' then Some ([(takeWhile name_char s, v)], r')
              else if c = CHR '','' then map_option (apfst (\<lambda>ls. (takeWhile name_char s, v) # ls)) (read_labels r')
              else None)))"
  by pat_completeness auto
termination
  by (relation "measure length") (auto dest!: read_value_shorter label_start_shorter)

declare read_labels.simps [simp del]

datatype scrape_line = HelpLine string string | TypeLine string string | SampleLine string "(string \<times> string) list" nat

definition read_number :: "string \<Rightarrow> nat option" where
  "read_number s = (if s = [] \<or> \<not> list_all is_digit s then None else Some (read_base 10 s))"

definition read_sample :: "string \<Rightarrow> scrape_line option" where
  "read_sample s =
     (let name = takeWhile name_char s; rest = dropWhile name_char s;
          value_of = (\<lambda>labels t. case t of
            c # ds \<Rightarrow> if c = CHR '' '' then map_option (SampleLine name labels) (read_number ds) else None | [] \<Rightarrow> None)
      in case rest of
           c # t \<Rightarrow> if c = CHR ''{'' then (case read_labels t of None \<Rightarrow> None | Some (labels, r) \<Rightarrow> value_of labels r) else value_of [] rest
         | [] \<Rightarrow> None)"

definition read_line :: "string \<Rightarrow> scrape_line option" where
  "read_line l = (case strip_prefix l ''# HELP '' of
     Some r \<Rightarrow> map_option (case_prod HelpLine) (split_once CHR '' '' r)
   | None \<Rightarrow> (case strip_prefix l ''# TYPE '' of
       Some r \<Rightarrow> map_option (case_prod TypeLine) (split_once CHR '' '' r)
     | None \<Rightarrow> read_sample l))"

definition read_exposition :: "string \<Rightarrow> scrape_line list option" where
  "read_exposition s = those (map read_line (butlast (split_on newline s)))"

section \<open>What is written can be read\<close>

definition escape_char :: "char \<Rightarrow> string" where
  "escape_char c = (if c = backslash then [backslash, backslash] else if c = dquote then [backslash, dquote]
     else if c = newline then [backslash, CHR ''n''] else [c])"

lemma escape_by_char: "escape_label_value s = concat (map escape_char s)"
  by (induction s) (auto simp: escape_label_value_def replace_char_def escape_char_def)

lemma read_escaped: "read_value (escape_label_value s @ dquote # r) = Some (s, r)"
  unfolding escape_by_char by (induction s) (auto simp: escape_char_def unescaped_def)

lemma escaped_no_newline: "newline \<notin> set (escape_label_value s)"
  unfolding escape_by_char by (auto simp: escape_char_def)

definition name_ok :: "string \<Rightarrow> bool" where
  "name_ok n \<longleftrightarrow> n \<noteq> [] \<and> list_all name_char n"

definition family_ok :: "family \<Rightarrow> bool" where
  "family_ok f \<longleftrightarrow> name_ok (fa_name f) \<and> newline \<notin> set (fa_help f) \<and> newline \<notin> set (fa_type f)
     \<and> (\<forall>(labels, _) \<in> set (fa_samples f). \<forall>(k, _) \<in> set labels. name_ok k)"

lemma name_char_not [simp]:
  "\<not> name_char dquote" "\<not> name_char (CHR ''='')" "\<not> name_char (CHR '' '')" "\<not> name_char (CHR ''{'')" "\<not> name_char newline"
  "\<not> name_char (CHR ''#'')"
  by (simp_all add: name_char_def is_digit_def ascii_lower_def)

lemma name_split:
  assumes "list_all name_char n" "\<not> name_char c"
  shows "takeWhile name_char (n @ c # r) = n" "dropWhile name_char (n @ c # r) = c # r"
  using assms by (auto simp: takeWhile_append list_all_iff dropWhile_append)

lemma read_print_labels:
  "ls \<noteq> [] \<Longrightarrow> \<forall>(k, _) \<in> set ls. name_ok k \<Longrightarrow> read_labels (print_labels ls @ ''}'' @ r) = Some (ls, r)"
proof (induction ls rule: print_labels.induct)
  case (2 k v)
  then show ?case by (subst read_labels.simps) (simp add: name_ok_def name_split strip_prefix_def starts_with_def read_escaped)
next
  case (3 k v l ls)
  then show ?case by (subst read_labels.simps) (simp add: name_ok_def name_split strip_prefix_def starts_with_def read_escaped)
qed simp

lemma show_base_digits: "list_all is_digit (show_base 10 n)"
proof (induction "10 :: nat" n rule: show_base.induct)
  case (1 n)
  have "is_digit (digit_char d)" if "d < 10" for d using that by (simp add: is_digit_def digit_char_def of_char_of)
  then show ?case using 1 by (subst show_base.simps) (auto simp: list_all_iff)
qed

lemma read_number_show: "read_number (show_base 10 n) = Some n"
  by (simp add: read_number_def show_base_digits read_show_base)

lemma read_print_sample:
  assumes "name_ok n" "\<forall>(k, _) \<in> set ls. name_ok k"
  shows "read_sample (print_sample n (ls, v)) = Some (SampleLine n ls v)"
proof (cases "ls = []")
  case True
  then show ?thesis using assms(1) by (simp add: read_sample_def print_sample_def name_ok_def name_split read_number_show Let_def)
next
  case False
  then show ?thesis
    using assms(1) read_print_labels [OF False assms(2), of "'' '' @ show_base 10 v"]
    by (simp add: read_sample_def print_sample_def name_ok_def name_split read_number_show Let_def)
qed


lemma name_ok_chars: "name_ok n \<Longrightarrow> c \<in> set n \<Longrightarrow> name_char c"
  by (auto simp: name_ok_def list_all_iff)

lemma name_no_newline: "name_ok n \<Longrightarrow> newline \<notin> set n"
  by (auto dest!: name_ok_chars)

lemma print_labels_no_newline: "\<forall>(k, _) \<in> set ls. name_ok k \<Longrightarrow> newline \<notin> set (print_labels ls)"
  by (induction ls rule: print_labels.induct) (auto simp: escaped_no_newline dest!: name_ok_chars)

lemma digits_no_newline: "newline \<notin> set (show_base 10 n)"
  using show_base_digits [of n] by (auto simp: list_all_iff is_digit_def)

lemma sample_no_newline: "name_ok n \<Longrightarrow> \<forall>(k, _) \<in> set ls. name_ok k \<Longrightarrow> newline \<notin> set (print_sample n (ls, v))"
  using print_labels_no_newline [of ls] digits_no_newline [of v] by (auto simp: print_sample_def dest!: name_ok_chars)

text \<open>A sample is not taken for a comment: its name does not begin with a hash sign.\<close>

lemma name_no_prefix: "name_ok n \<Longrightarrow> strip_prefix (n @ r) (CHR ''#'' # p) = None"
  by (cases n) (auto simp: name_ok_def strip_prefix_def starts_with_def)

lemma sample_read_line:
  "name_ok n \<Longrightarrow> \<forall>(k, _) \<in> set ls. name_ok k \<Longrightarrow> read_line (print_sample n (ls, v)) = Some (SampleLine n ls v)"
  using read_print_sample [of n ls v] name_no_prefix [of n] by (simp add: read_line_def print_sample_def)

lemma name_then_space: "name_ok n \<Longrightarrow> split_once CHR '' '' (n @ CHR '' '' # r) = Some (n, r)"
  by (rule split_once_append) (auto dest: name_ok_chars)

lemma header_read_line:
  assumes "name_ok n"
  shows "read_line (''# HELP '' @ n @ '' '' @ h) = Some (HelpLine n h)"
    "read_line (''# TYPE '' @ n @ '' '' @ t) = Some (TypeLine n t)"
  using name_then_space [OF assms] by (simp_all add: read_line_def strip_prefix_def starts_with_def)

text \<open>What a scraper sees of a family.\<close>

definition family_events :: "family \<Rightarrow> scrape_line list" where
  "family_events f = HelpLine (fa_name f) (fa_help f) # TypeLine (fa_name f) (fa_type f)
     # map (\<lambda>(labels, v). SampleLine (fa_name f) labels v) (fa_samples f)"

lemma family_lines_read: "family_ok f \<Longrightarrow> map read_line (family_lines f) = map Some (family_events f)"
  by (auto simp: family_lines_def family_events_def family_ok_def header_read_line [simplified] sample_read_line)

lemma family_lines_no_newline: "family_ok f \<Longrightarrow> l \<in> set (family_lines f) \<Longrightarrow> newline \<notin> set l"
  by (auto simp: family_lines_def family_ok_def sample_no_newline name_no_newline)

lemma split_lines: "\<forall>l \<in> set ls. newline \<notin> set l \<Longrightarrow> split_on newline (concat (map (\<lambda>l. l @ [newline]) ls)) = ls @ [[]]"
  by (induction ls) (auto simp: split_on_append)

lemma those_Some: "those (map Some xs) = Some xs"
  by (induction xs) auto

lemma read_families:
  assumes "\<forall>f \<in> set fs. family_ok f"
  shows "read_exposition (concat (map print_family fs)) = Some (concat (map family_events fs))"
proof -
  have whole: "concat (map print_family fs) = concat (map (\<lambda>l. l @ [newline]) (concat (map family_lines fs)))"
    by (induction fs) (simp_all add: print_family_def)
  have "split_on newline (concat (map print_family fs)) = concat (map family_lines fs) @ [[]]"
    unfolding whole by (rule split_lines) (use assms family_lines_no_newline in auto)
  moreover have "map read_line (concat (map family_lines fs)) = map Some (concat (map family_events fs))"
    using assms by (induction fs) (auto simp: family_lines_read)
  ultimately show ?thesis by (simp add: read_exposition_def those_Some)
qed

lemma families_named:
  "map fa_name (exposition cb ver start pc m) =
     map fa_name (node_families ver start m) @ map fa_name (queue_families m) @ map fa_name (process_families pc m)
     @ map fa_name (circuit_families cb) @ map fa_name (hash_families m)"
  by (simp add: exposition_def)

lemma name_letters: "list_all name_char ''abcdefghijklmnopqrstuvwxyz_0123456789''"
  by code_simp

lemmas letters = name_letters [unfolded list.pred_inject]

lemma family_ok_intro:
  "name_ok n \<Longrightarrow> newline \<notin> set h \<Longrightarrow> newline \<notin> set t \<Longrightarrow> \<forall>(labels, _) \<in> set ss. \<forall>(k, _) \<in> set labels. name_ok k \<Longrightarrow>
   family_ok \<lparr>fa_name = n, fa_type = t, fa_help = h, fa_samples = ss\<rparr>"
  by (simp add: family_ok_def)

lemma node_families_ok: "list_all family_ok (node_families ver start m)"
  unfolding node_families_def list.pred_inject
  by (intro conjI TrueI family_ok_intro; (simp add: name_ok_def letters; fail))

lemma queue_families_ok: "list_all family_ok (queue_families m)"
  unfolding queue_families_def list.pred_inject
  by (intro conjI TrueI family_ok_intro; (simp add: name_ok_def letters; fail))


lemma process_families_ok: "list_all family_ok (process_families pc m)"
  unfolding process_families_def list.pred_inject
  by (intro conjI TrueI family_ok_intro; (simp add: name_ok_def letters; fail))

lemma circuit_families_ok: "f \<in> set (circuit_families cb) \<Longrightarrow> family_ok f"
proof (cases cb)
  case (Some cs)
  then show "f \<in> set (circuit_families cb) \<Longrightarrow> family_ok f"
    by (auto simp: circuit_families_def family_ok_def name_ok_def letters)
qed (simp add: circuit_families_def)

lemma row_family_ok:
  "name_ok n \<Longrightarrow> newline \<notin> set h \<Longrightarrow> newline \<notin> set t \<Longrightarrow> family_ok (row_family n t h val (map hash_row_of hs))"
  by (auto simp: row_family_def family_ok_def hash_row_of_def name_ok_def letters)

lemma hash_families_ok: "list_all family_ok (hash_families m)"
  unfolding hash_families_def Let_def list.pred_inject
  by (intro conjI TrueI row_family_ok; (simp add: name_ok_def letters; fail))

lemma family_names:
  "map fa_name (node_families ver start m) = map fa_name (node_families [] 0 (new_metrics :: unit metrics))"
  "map fa_name (queue_families m) = map fa_name (queue_families (new_metrics :: unit metrics))"
  "map fa_name (process_families pc m) = map fa_name (process_families
     \<lparr>pc_token_counting_disabled = 0, pc_skipped_stream_cleanups = 0, pc_peer_stream_body_aborts = 0, pc_instances_crashed = 0\<rparr>
     (new_metrics :: unit metrics))"
  "map fa_name (circuit_families cb) = (if cb = None then [] else [''proxy_circuit_breaker_state''])"
  "map fa_name (hash_families m) = map fa_name (hash_families (new_metrics :: unit metrics))"
  by (simp_all add: node_families_def queue_families_def process_families_def circuit_families_def hash_families_def row_family_def
      split: option.split)

lemma names_distinct:
  "distinct (map fa_name (node_families [] 0 (new_metrics :: unit metrics)) @ map fa_name (queue_families (new_metrics :: unit metrics))
     @ map fa_name (process_families
     \<lparr>pc_token_counting_disabled = 0, pc_skipped_stream_cleanups = 0, pc_peer_stream_body_aborts = 0, pc_instances_crashed = 0\<rparr>
     (new_metrics :: unit metrics)) @ [''proxy_circuit_breaker_state''] @ map fa_name (hash_families (new_metrics :: unit metrics)))"
  by (simp add: node_families_def queue_families_def process_families_def hash_families_def row_family_def Let_def)

text \<open>C33. The exposition is well-formed whatever the names of models, hashes, peers and versions contain: a reader of the format
  finds the families one after the other, each once, with its help, its type and exactly its samples, and
  reads back every label value and every number as it was.\<close>

theorem exposition_is_well_formed:
  "read_exposition (render_prometheus cb ver start pc m) = Some (concat (map family_events (exposition cb ver start pc m)))
   \<and> distinct (map fa_name (exposition cb ver start pc m))"
proof
  show "read_exposition (render_prometheus cb ver start pc m) = Some (concat (map family_events (exposition cb ver start pc m)))"
    unfolding render_prometheus_def
    by (rule read_families)
      (use node_families_ok [of ver start m] queue_families_ok [of m] process_families_ok [of pc m] hash_families_ok [of m]
         circuit_families_ok in \<open>auto simp: exposition_def list_all_iff\<close>)
  show "distinct (map fa_name (exposition cb ver start pc m))"
    using names_distinct unfolding families_named family_names(1) [of ver start m] family_names(2) [of m] family_names(3) [of pc m]
      family_names(4) [of cb] family_names(5) [of m] by (simp split: if_splits)
qed

end
