(* ===== verification/Builds.thy ===== *)
theory Builds
  imports Config Metrics "HOL-Library.Sublist"
begin

text \<open>
  The managed builds of llama.cpp, \<^verbatim>\<open>src/build_manager.rs\<close>: the names of build directories and the commit read off them,
  the walk along the symbolic links of the binary, the removal of old builds, and an update from the fetch
  to the switch of the link. Commands, the file system and the clock are arguments; a command is its
  outcome.
\<close>

section \<open>Paths\<close>

datatype component = RootDir | CurDir | ParentDir | Normal string

type_synonym path = "component list"

definition to_component :: "string \<Rightarrow> component" where
  "to_component s = (if s = ''..'' then ParentDir else Normal s)"

text \<open>\<^verbatim>\<open>Path::components\<close>: repeated separators and inner dots are dropped.\<close>

definition components :: "string \<Rightarrow> path" where
  "components s = (let parts = split_on CHR ''/'' s in
     (if starts_with s ''/'' then [RootDir] else if hd parts = ''.'' then [CurDir] else [])
     @ map to_component (filter (\<lambda>p. p \<noteq> [] \<and> p \<noteq> ''.'') parts))"

definition path_parent :: "path \<Rightarrow> path option" where
  "path_parent p = (if p = [] \<or> last p = RootDir then None else Some (butlast p))"

definition file_name :: "path \<Rightarrow> string option" where
  "file_name p = (if p = [] then None else case last p of Normal n \<Rightarrow> Some n | _ \<Rightarrow> None)"

definition join_path :: "path \<Rightarrow> string \<Rightarrow> path" where
  "join_path p s = (if starts_with s ''/'' then components s else p @ filter (\<lambda>c. c \<noteq> CurDir) (components s))"

definition with_file_name :: "path \<Rightarrow> string \<Rightarrow> path" where
  "with_file_name p name = (case file_name p of
     None \<Rightarrow> join_path p name
   | Some _ \<Rightarrow> join_path (butlast p) name)"

definition builds_dir :: "path \<Rightarrow> path" where
  "builds_dir build_base = (case path_parent build_base of
     Some p \<Rightarrow> if p \<noteq> [] then p else [CurDir]
   | None \<Rightarrow> [CurDir])"

section \<open>Names of builds\<close>

text \<open>\<^verbatim>\<open>rsplit_once\<close>\<close>

definition rsplit_once :: "char \<Rightarrow> string \<Rightarrow> (string \<times> string) option" where
  "rsplit_once d s = map_option (\<lambda>(a, b). (rev b, rev a)) (split_once d (rev s))"

definition is_hex :: "char \<Rightarrow> bool" where
  "is_hex c = (is_digit c \<or> 97 \<le> (of_char c :: nat) \<and> (of_char c :: nat) \<le> 102 \<or> 65 \<le> (of_char c :: nat) \<and> (of_char c :: nat) \<le> 70)"

definition is_lower_hex :: "char \<Rightarrow> bool" where
  "is_lower_hex c = (is_digit c \<or> 97 \<le> (of_char c :: nat) \<and> (of_char c :: nat) \<le> 102)"

definition split_managed_build_name :: "string \<Rightarrow> (string \<times> string) option" where
  "split_managed_build_name name = (case rsplit_once CHR ''-'' name of
     None \<Rightarrow> None
   | Some (base, identity) \<Rightarrow>
       (case (case split_once CHR ''_'' identity of
                Some (commit, inputs_id) \<Rightarrow>
                  if length inputs_id \<noteq> 8 \<or> \<not> list_all is_lower_hex inputs_id then None else Some commit
              | None \<Rightarrow> Some identity) of
          None \<Rightarrow> None
        | Some commit \<Rightarrow> if 4 \<le> length commit \<and> list_all is_hex commit then Some (base, commit) else None))"

definition version_from_resolved_binary :: "path \<Rightarrow> string option" where
  "version_from_resolved_binary p =
     Option.bind (path_parent p) (\<lambda>bin_dir. Option.bind (path_parent bin_dir) (\<lambda>d. Option.bind (file_name d)
       (\<lambda>name. map_option snd (split_managed_build_name name))))"

text \<open>The JSON text of the build arguments and the digest are libraries'.\<close>

definition hex_text :: "string \<Rightarrow> string" where
  "hex_text bs = concat (map (\<lambda>b. hex_fixed 2 (of_char b)) bs)"

definition build_inputs_id ::
  "(string list \<Rightarrow> string list \<Rightarrow> (string, string) result) \<Rightarrow> (string \<Rightarrow> string) \<Rightarrow> llama_cpp_config \<Rightarrow> (string, string) result" where
  "build_inputs_id to_json sha256 cfg = (case to_json (build_args cfg) (build_command_args cfg) of
     Inl e \<Rightarrow> Err e
   | Inr inputs \<Rightarrow> Ok (take 8 (hex_text (sha256 inputs))))"

definition build_dir_for_commit ::
  "(string list \<Rightarrow> string list \<Rightarrow> (string, string) result) \<Rightarrow> (string \<Rightarrow> string) \<Rightarrow> llama_cpp_config \<Rightarrow> string \<Rightarrow> (path, string) result" where
  "build_dir_for_commit to_json sha256 cfg commit =
     (let build_base = components (build_path cfg) in
      case file_name build_base of
        None \<Rightarrow> Err (''build_path has no valid directory name: '' @ build_path cfg)
      | Some base_name \<Rightarrow> (case build_inputs_id to_json sha256 cfg of
          Inl e \<Rightarrow> Err e
        | Inr inputs_id \<Rightarrow> Ok (join_path (builds_dir build_base) (base_name @ ''-'' @ commit @ ''_'' @ inputs_id))))"

definition binary_in :: "path \<Rightarrow> path" where
  "binary_in build_dir = build_dir @ [Normal ''bin'', Normal ''llama-server'']"

section \<open>The commit is read off the path\<close>

lemma rsplit_once_append: "d \<notin> set b \<Longrightarrow> rsplit_once d (a @ d # b) = Some (a, b)"
  by (simp add: rsplit_once_def split_once_append)

lemma is_hex_not: "is_hex c \<Longrightarrow> c \<noteq> CHR ''-'' \<and> c \<noteq> CHR ''_'' \<and> c \<noteq> CHR ''/'' \<and> c \<noteq> CHR ''.''"
  by (auto simp: is_hex_def is_digit_def)

lemma lower_hex_is_hex: "is_lower_hex c \<Longrightarrow> is_hex c"
  by (auto simp: is_hex_def is_lower_hex_def)

lemma split_managed:
  assumes "4 \<le> length commit" "list_all is_hex commit" "length inputs_id = 8" "list_all is_lower_hex inputs_id"
  shows "split_managed_build_name (base @ ''-'' @ commit @ ''_'' @ inputs_id) = Some (base, commit)"
proof -
  have "CHR ''-'' \<notin> set (commit @ ''_'' @ inputs_id)" "CHR ''_'' \<notin> set commit"
    using assms is_hex_not lower_hex_is_hex by (fastforce simp: list_all_iff)+
  then show ?thesis using assms
    by (simp add: split_managed_build_name_def rsplit_once_append split_once_append)
qed

lemma split_legacy:
  assumes "4 \<le> length commit" "list_all is_hex commit"
  shows "split_managed_build_name (base @ ''-'' @ commit) = Some (base, commit)"
proof -
  have "CHR ''-'' \<notin> set commit" "CHR ''_'' \<notin> set commit"
    using assms is_hex_not by (fastforce simp: list_all_iff)+
  then show ?thesis using assms
    by (simp add: split_managed_build_name_def rsplit_once_append split_once_None [THEN iffD2])
qed

lemma hex_digit_lower: "d < 16 \<Longrightarrow> is_lower_hex (hex_digit d)"
  by (auto simp: is_lower_hex_def is_digit_def hex_digit_def of_char_of)

lemma hex_fixed_2: "hex_fixed 2 n = [hex_digit (n div 16 mod 16), hex_digit (n mod 16)]"
  by (simp add: numeral_2_eq_2)

lemma hex_text_lower: "list_all is_lower_hex (hex_text bs)" "length (hex_text bs) = 2 * length bs"
  by (induction bs) (simp_all add: hex_text_def hex_fixed_2 hex_digit_lower list_all_append)

lemma components_name:
  assumes "CHR ''/'' \<notin> set name" "2 < length name"
  shows "components name = [Normal name]"
proof -
  have "\<not> starts_with name ''/''" using assms by (cases name) (auto simp: starts_with_def)
  moreover have "name \<noteq> []" "name \<noteq> ''.''" "name \<noteq> ''..''" using assms(2) by auto
  ultimately show ?thesis using assms(1) by (simp add: components_def split_on_none to_component_def Let_def)
qed

lemma join_name:
  assumes "CHR ''/'' \<notin> set name" "2 < length name"
  shows "join_path p name = p @ [Normal name]"
proof -
  have "\<not> starts_with name ''/''" using assms by (cases name) (auto simp: starts_with_def)
  then show ?thesis using components_name [OF assms] by (simp add: join_path_def)
qed

lemma file_name_no_slash:
  assumes "file_name (components s) = Some n"
  shows "CHR ''/'' \<notin> set n"
proof -
  have parts: "CHR ''/'' \<notin> set p" if "p \<in> set (split_on CHR ''/'' s)" for p s
    using that by (induction "CHR ''/''" s arbitrary: p rule: split_on.induct) (fastforce split: if_splits list.splits)+
  have "Normal n \<in> set (components s)"
    using assms by (auto simp: file_name_def split: if_splits component.splits) (metis last_in_set)
  then show ?thesis using parts [of n s] by (auto simp: components_def Let_def to_component_def split: if_splits)
qed

text \<open>The directory of a commit has a name of one component, and so has the directory older versions used.\<close>

lemma build_dir_shape:
  assumes "build_dir_for_commit to_json sha256 cfg commit = Ok dir"
    and "4 \<le> length commit" "list_all is_hex commit"
    and "\<forall>x. length (sha256 x) = 32"
  obtains base inputs_id where "dir = builds_dir (components (build_path cfg)) @ [Normal (base @ ''-'' @ commit @ ''_'' @ inputs_id)]"
    "build_inputs_id to_json sha256 cfg = Ok inputs_id" "length inputs_id = 8" "list_all is_lower_hex inputs_id" "CHR ''/'' \<notin> set base"
proof -
  obtain base json where base: "file_name (components (build_path cfg)) = Some base"
    and json: "to_json (build_args cfg) (build_command_args cfg) = Ok json"
    and dir: "dir = join_path (builds_dir (components (build_path cfg))) (base @ ''-'' @ commit @ ''_'' @ take 8 (hex_text (sha256 json)))"
    using assms(1) by (auto simp: build_dir_for_commit_def build_inputs_id_def Let_def split: option.splits sum.splits)
  let ?id = "take 8 (hex_text (sha256 json))"
  let ?name = "base @ ''-'' @ commit @ ''_'' @ ?id"
  have id: "length ?id = 8" "list_all is_lower_hex ?id"
    using assms(4) hex_text_lower [of "sha256 json"] by (auto simp: list_all_iff dest: in_set_takeD)
  have "CHR ''/'' \<notin> set ?name"
    using file_name_no_slash [OF base] assms(3) id(2) is_hex_not lower_hex_is_hex by (fastforce simp: list_all_iff)
  moreover have "2 < length ?name" using assms(2) by (auto simp: min_def)
  ultimately have "join_path p ?name = p @ [Normal ?name]" for p by (rule join_name)
  then show ?thesis using that [of base ?id] dir json id file_name_no_slash [OF base] by (simp add: build_inputs_id_def)
qed

lemma version_from_name:
  "split_managed_build_name name = Some (base, commit) \<Longrightarrow> version_from_resolved_binary (binary_in (p @ [Normal name])) = Some commit"
  by (simp add: version_from_resolved_binary_def binary_in_def path_parent_def file_name_def butlast_append)

text \<open>The commit of a build is read off the path of its binary, which is how a running instance learns its version: whatever
  the configured base is called, the directory made for a commit gives that commit back.\<close>

theorem build_version_roundtrip:
  assumes "build_dir_for_commit to_json sha256 cfg commit = Ok dir"
    and "4 \<le> length commit" "list_all is_hex commit"
    and "\<forall>x. length (sha256 x) = 32"
  shows "version_from_resolved_binary (binary_in dir) = Some commit"
  using build_dir_shape [OF assms] version_from_name [OF split_managed] assms(2,3) by metis

definition demo_builds :: llama_cpp_config where
  "demo_builds = (llama_cpp demo_config)\<lparr>build_path := ''/srv/build'', binary_path := ''/srv/llama-server'', build_enabled := True, keep_builds := 0\<rparr>"

definition flat_digest :: "string \<Rightarrow> string" where
  "flat_digest x = replicate 32 (CHR 0x61)"

definition list_json :: "string list \<Rightarrow> string list \<Rightarrow> (string, string) result" where
  "list_json a b = Ok (concat a @ concat b)"

lemma flat_digest_id: "take 8 (hex_text (flat_digest x)) = ''61616161''"
  unfolding flat_digest_def by code_simp

lemma demo_paths: "components ''/srv/build'' = [RootDir, Normal ''srv'', Normal ''build'']"
  "components ''/srv/llama-server'' = [RootDir, Normal ''srv'', Normal ''llama-server'']"
  by (simp_all add: components_def starts_with_def to_component_def Let_def)

lemma demo_build_dir:
  "build_dir_for_commit list_json flat_digest demo_builds ''abc1234'' = Ok [RootDir, Normal ''srv'', Normal ''build-abc1234_61616161'']"
proof -
  have "join_path [RootDir, Normal ''srv''] ''build-abc1234_61616161'' = [RootDir, Normal ''srv''] @ [Normal ''build-abc1234_61616161'']"
    by (rule join_name) simp_all
  then show ?thesis
    by (simp add: build_dir_for_commit_def demo_builds_def demo_paths file_name_def build_inputs_id_def list_json_def flat_digest_id
        builds_dir_def path_parent_def Let_def)
qed

theorem build_version_roundtrip_witness:
  "version_from_resolved_binary (binary_in [RootDir, Normal ''srv'', Normal ''build-abc1234_61616161'']) = Some ''abc1234''"
  by (rule build_version_roundtrip [OF demo_build_dir]) (simp_all add: is_hex_def is_digit_def flat_digest_def)

section \<open>Following symbolic links\<close>

text \<open>\<^verbatim>\<open>symlink_metadata\<close>: nothing, a link that can be read or not, or something else.\<close>

datatype fs_node = SymLink "path option" | OtherNode

type_synonym fs = "path \<Rightarrow> fs_node option"

text \<open>
  The loop: the components still to resolve, the number of links followed, the directories passed through,
  and where the walk stands. It ends at a component that cannot be read, after forty links, or at
  the end of the path; the flag tells that it got there.
\<close>

function walk :: "fs \<Rightarrow> path \<Rightarrow> nat \<Rightarrow> path set \<Rightarrow> path \<Rightarrow> path set \<times> path \<times> bool" where
  "walk fs [] links dirs current = (dirs, current, True)"
| "walk fs (RootDir # pending) links dirs current = walk fs pending links (insert [RootDir] dirs) [RootDir]"
| "walk fs (CurDir # pending) links dirs current = walk fs pending links (insert current dirs) current"
| "walk fs (ParentDir # pending) links dirs current =
     (let up = (case path_parent current of Some p \<Rightarrow> p | None \<Rightarrow> current) in walk fs pending links (insert up dirs) up)"
| "walk fs (Normal name # pending) links dirs current =
     (let next_path = current @ [Normal name] in
      case fs next_path of
        None \<Rightarrow> (dirs, current, False)
      | Some (SymLink None) \<Rightarrow> (dirs, current, False)
      | Some (SymLink (Some target)) \<Rightarrow>
          if 40 < links + 1 then (dirs, current, False)
          else walk fs (target @ pending) (links + 1) (insert current dirs) current
      | Some OtherNode \<Rightarrow> walk fs pending links (insert next_path dirs) next_path)"
  by pat_completeness auto
termination
  by (relation "measures [\<lambda>(fs, pending, links, dirs, current). 41 - links, \<lambda>(fs, pending, links, dirs, current). length pending]")
    auto

text \<open>\<^verbatim>\<open>absolute\<close> puts the working directory in front of a relative path; it fails on an empty one.\<close>

definition absolute :: "path \<Rightarrow> path \<Rightarrow> path option" where
  "absolute cwd p = (if p = [] then None else if hd p = RootDir then Some p else Some (cwd @ filter (\<lambda>c. c \<noteq> CurDir) p))"

definition dirs_resolved_through :: "fs \<Rightarrow> path \<Rightarrow> path \<Rightarrow> path set" where
  "dirs_resolved_through fs cwd p = (case absolute cwd p of None \<Rightarrow> {} | Some q \<Rightarrow> fst (walk fs q 0 {} []))"

text \<open>\<^verbatim>\<open>canonicalize\<close>: the physical path of what a path resolves to, if that exists.\<close>

definition canonicalize :: "fs \<Rightarrow> path \<Rightarrow> path \<Rightarrow> path option" where
  "canonicalize fs cwd p = (case absolute cwd p of
     None \<Rightarrow> None
   | Some q \<Rightarrow> (case walk fs q 0 {} [] of (_, current, done) \<Rightarrow> if done then Some current else None))"

section \<open>Removal of old builds\<close>

datatype check_result = Exists | Missing | CheckFailed

record dir_entry =
  de_name :: string
  de_is_dir :: bool
  de_binary :: check_result
  de_time :: "nat option"

text \<open>The loop over the entries: what is removed at once as unfinished, and the complete builds with their times.\<close>

definition is_managed :: "string \<Rightarrow> dir_entry \<Rightarrow> bool" where
  "is_managed base_name e \<longleftrightarrow> de_is_dir e \<and> (case split_managed_build_name (de_name e) of None \<Rightarrow> False | Some (base, _) \<Rightarrow> base = base_name)"

definition is_protected :: "(path \<Rightarrow> path option) \<Rightarrow> path set \<Rightarrow> path \<Rightarrow> dir_entry \<Rightarrow> bool" where
  "is_protected canon protected parent e = (case canon (parent @ [Normal (de_name e)]) of None \<Rightarrow> False | Some c \<Rightarrow> c \<in> protected)"

definition scan_entry ::
  "string \<Rightarrow> (path \<Rightarrow> path option) \<Rightarrow> path set \<Rightarrow> path \<Rightarrow> dir_entry \<Rightarrow> string list \<times> (string \<times> nat) list \<Rightarrow> string list \<times> (string \<times> nat) list" where
  "scan_entry base_name canon protected parent e acc =
     (let (removed, builds) = acc in
      if \<not> is_managed base_name e \<or> is_protected canon protected parent e then acc
      else case de_binary e of
        Missing \<Rightarrow> (removed @ [de_name e], builds)
      | CheckFailed \<Rightarrow> acc
      | Exists \<Rightarrow> (case de_time e of None \<Rightarrow> acc | Some t \<Rightarrow> (removed, builds @ [(de_name e, t)])))"

text \<open>The directories it sets out to remove; that removing one fails is only logged.\<close>

definition cleanup_old_builds ::
  "fs \<Rightarrow> path \<Rightarrow> llama_cpp_config \<Rightarrow> dir_entry list \<Rightarrow> string list" where
  "cleanup_old_builds fs cwd cfg entries =
     (let build_base = components (build_path cfg); parent = builds_dir build_base in
      case file_name build_base of
        None \<Rightarrow> []
      | Some base_name \<Rightarrow>
          (let protected = dirs_resolved_through fs cwd (components (binary_path cfg));
               (unfinished, builds) = fold (scan_entry base_name (canonicalize fs cwd) protected parent) entries ([], []);
               sorted = sort_key snd builds
           in unfinished @ map fst (take (length sorted - keep_builds cfg) sorted)))"


text \<open>Every part of the way to the place a path resolves to is passed through.\<close>

lemma walk_prefixes:
  assumes "walk fs pending links dirs current = (dirs', current', fin)"
    and "\<And>p. prefix p current \<Longrightarrow> p \<noteq> [] \<Longrightarrow> p \<in> dirs"
  shows "prefix p current' \<Longrightarrow> p \<noteq> [] \<Longrightarrow> p \<in> dirs'"
  using assms
proof (induction fs pending links dirs current rule: walk.induct)
  case (2 fs pending links dirs current)
  then show ?case by (auto simp: prefix_Cons)
next
  case (4 fs pending links dirs current)
  have "prefix (case path_parent current of Some p \<Rightarrow> p | None \<Rightarrow> current) current"
    by (auto simp: path_parent_def prefixeq_butlast split: option.splits)
  then show ?case using 4 by (auto simp: Let_def dest: prefix_order.trans)
next
  case (5 fs name pending links dirs current)
  let ?next = "current @ [Normal name]"
  consider (stop) "dirs' = dirs" "current' = current"
    | (link) target where "fs ?next = Some (SymLink (Some target))" "\<not> 40 < links + 1"
      "walk fs (target @ pending) (links + 1) (insert current dirs) current = (dirs', current', fin)"
    | (enter) "fs ?next = Some OtherNode" "walk fs pending links (insert ?next dirs) ?next = (dirs', current', fin)"
    using 5(5) by (auto simp: Let_def split: option.splits fs_node.splits if_splits)
  then show ?case
  proof cases
    case stop
    then show ?thesis using 5 by blast
  next
    case link
    then show ?thesis using 5(1) [OF refl link(1) refl refl link(2)] 5 by blast
  next
    case enter
    then show ?thesis using 5(2) [OF refl enter(1) refl] 5 by auto
  qed
qed auto

lemma scanned:
  "fold (scan_entry base canon protected parent) es (rm, bs) =
     (rm @ map de_name (filter (\<lambda>e. is_managed base e \<and> \<not> is_protected canon protected parent e \<and> de_binary e = Missing) es),
      bs @ map (\<lambda>e. (de_name e, the (de_time e)))
        (filter (\<lambda>e. is_managed base e \<and> \<not> is_protected canon protected parent e \<and> de_binary e = Exists \<and> de_time e \<noteq> None) es))"
  by (induction es arbitrary: rm bs) (auto simp: scan_entry_def split: check_result.splits option.splits)

lemma removed_was_scanned:
  assumes "name \<in> set (cleanup_old_builds fs cwd cfg es)"
  shows "\<exists>base e. file_name (components (build_path cfg)) = Some base \<and> e \<in> set es \<and> de_name e = name \<and> is_managed base e
    \<and> \<not> is_protected (canonicalize fs cwd) (dirs_resolved_through fs cwd (components (binary_path cfg)))
        (builds_dir (components (build_path cfg))) e"
proof -
  obtain base where base: "file_name (components (build_path cfg)) = Some base"
    using assms by (cases "file_name (components (build_path cfg))") (simp_all add: cleanup_old_builds_def Let_def)
  then show ?thesis using assms by (auto simp: cleanup_old_builds_def Let_def scanned dest!: in_set_takeD)
qed


text \<open>Of the complete builds the oldest are removed, so that as many as configured stay.\<close>

definition removable :: "fs \<Rightarrow> path \<Rightarrow> llama_cpp_config \<Rightarrow> string \<Rightarrow> dir_entry \<Rightarrow> bool" where
  "removable fs cwd cfg base e \<longleftrightarrow> is_managed base e
     \<and> \<not> is_protected (canonicalize fs cwd) (dirs_resolved_through fs cwd (components (binary_path cfg)))
         (builds_dir (components (build_path cfg))) e"

definition aged_builds :: "fs \<Rightarrow> path \<Rightarrow> llama_cpp_config \<Rightarrow> string \<Rightarrow> dir_entry list \<Rightarrow> (string \<times> nat) list" where
  "aged_builds fs cwd cfg base es = sort_key snd (map (\<lambda>e. (de_name e, the (de_time e)))
     (filter (\<lambda>e. removable fs cwd cfg base e \<and> de_binary e = Exists \<and> de_time e \<noteq> None) es))"

lemma cleanup_removes:
  assumes "file_name (components (build_path cfg)) = Some base"
  shows "cleanup_old_builds fs cwd cfg es =
     map de_name (filter (\<lambda>e. removable fs cwd cfg base e \<and> de_binary e = Missing) es)
     @ map fst (take (length (aged_builds fs cwd cfg base es) - keep_builds cfg) (aged_builds fs cwd cfg base es))"
  using assms by (simp add: cleanup_old_builds_def removable_def aged_builds_def Let_def scanned conj_assoc)


text \<open>Two builds, of which the link leads to the first; nothing else is to be kept.\<close>

definition demo_fs :: fs where
  "demo_fs p = Some (if p = [RootDir, Normal ''srv'', Normal ''llama-server'']
     then SymLink (Some (binary_in [RootDir, Normal ''srv'', Normal ''build-abc1234''])) else OtherNode)"

definition demo_entries :: "dir_entry list" where
  "demo_entries = [\<lparr>de_name = ''build-abc1234'', de_is_dir = True, de_binary = Exists, de_time = Some 1\<rparr>,
     \<lparr>de_name = ''build-dddd111'', de_is_dir = True, de_binary = Exists, de_time = Some 2\<rparr>]"

lemma demo_walk:
  "canonicalize demo_fs [RootDir] (components (binary_path demo_builds)) = Some (binary_in [RootDir, Normal ''srv'', Normal ''build-abc1234''])"
  "dirs_resolved_through demo_fs [RootDir] (components (binary_path demo_builds)) =
     {[RootDir], [RootDir, Normal ''srv''], [RootDir, Normal ''srv'', Normal ''build-abc1234''],
      [RootDir, Normal ''srv'', Normal ''build-abc1234'', Normal ''bin''], binary_in [RootDir, Normal ''srv'', Normal ''build-abc1234'']}"
  by (auto simp: demo_builds_def demo_paths canonicalize_def dirs_resolved_through_def absolute_def demo_fs_def binary_in_def Let_def)

lemma demo_cleanup: "cleanup_old_builds demo_fs [RootDir] demo_builds demo_entries = [''build-dddd111'']"
proof -
  have base: "file_name (components (build_path demo_builds)) = Some ''build''"
    by (simp add: demo_builds_def demo_paths file_name_def)
  have canon: "canonicalize demo_fs [RootDir] [RootDir, Normal ''srv'', Normal n] = Some [RootDir, Normal ''srv'', Normal n]"
    if "n \<noteq> ''llama-server''" for n
    using that by (simp add: canonicalize_def absolute_def demo_fs_def Let_def)
  have parent: "builds_dir (components (build_path demo_builds)) = [RootDir, Normal ''srv'']"
    by (simp add: demo_builds_def demo_paths builds_dir_def path_parent_def)
  have prot: "is_protected (canonicalize demo_fs [RootDir]) (dirs_resolved_through demo_fs [RootDir] (components (binary_path demo_builds)))
      [RootDir, Normal ''srv''] e = (de_name e = ''build-abc1234'')" if "e \<in> set demo_entries" for e
    using that canon by (auto simp: is_protected_def demo_walk demo_entries_def binary_in_def)
  have managed: "is_managed ''build'' e" if "e \<in> set demo_entries" for e
    using that split_legacy [of "''abc1234''" "''build''"] split_legacy [of "''dddd111''" "''build''"]
    by (auto simp: is_managed_def demo_entries_def is_hex_def is_digit_def)
  have rem: "removable demo_fs [RootDir] demo_builds ''build'' e = (de_name e = ''build-dddd111'')" if "e \<in> set demo_entries" for e
    using that prot [OF that] managed [OF that] by (auto simp: removable_def parent demo_entries_def)
  have pick: "filter (\<lambda>e. removable demo_fs [RootDir] demo_builds ''build'' e \<and> Q e) demo_entries = filter (\<lambda>e. de_name e = ''build-dddd111'' \<and> Q e) demo_entries" for Q
    using rem by (auto intro!: filter_cong)
  have keep: "keep_builds demo_builds = 0" by (simp add: demo_builds_def)
  show ?thesis unfolding cleanup_removes [OF base] aged_builds_def pick keep by (simp add: demo_entries_def)
qed


end
