(* ===== verification/Command_Output.thy ===== *)
theory Command_Output
  imports Builds Noise_Http
begin

text \<open>
  The output of the commands a build runs (\<^verbatim>\<open>src/build_manager.rs\<close>): lines are read from the pipe in whatever pieces it
  delivers, each bounded in memory, echoed, and the last forty are kept for the message of a failed command. A
  pipe is the sequence of what successive reads give; the end of the sequence is the end of the output.
\<close>

section \<open>Reading a line\<close>

datatype piece = Bytes string | ReadFailure

fun read_line_capped :: "piece list \<Rightarrow> string \<Rightarrow> nat \<Rightarrow> bool \<Rightarrow> (bool, unit) result \<times> string \<times> piece list" where
  "read_line_capped [] buf cap read_any = (Ok read_any, buf, [])"
| "read_line_capped (ReadFailure # later) buf cap read_any = (Err (), buf, later)"
| "read_line_capped (Bytes available # later) buf cap read_any =
     (if available = [] then (Ok read_any, buf, Bytes available # later)
      else
        let (chunk_len, found_newline) =
              (if newline \<in> set available then (length (takeWhile (\<lambda>b. b \<noteq> newline) available) + 1, True)
               else (length available, False));
            buf' = buf @ take (min chunk_len (cap - length buf)) available
        in if found_newline
           then (Ok True, buf', (if chunk_len < length available then Bytes (drop chunk_len available) # later else later))
           else read_line_capped later buf' cap True)"

section \<open>The pump of a pipe\<close>

text \<open>\<^verbatim>\<open>is_char_boundary\<close> on the bytes of a text: not in the middle of a character.\<close>

definition is_char_boundary :: "string \<Rightarrow> nat \<Rightarrow> bool" where
  "is_char_boundary s i = (i = 0 \<or> i = length s \<or> i < length s \<and> \<not> cont_byte (of_char (s ! i)))"

fun floor_boundary :: "string \<Rightarrow> nat \<Rightarrow> nat" where
  "floor_boundary s 0 = 0"
| "floor_boundary s (Suc i) = (if is_char_boundary s (Suc i) then Suc i else floor_boundary s i)"

definition trim_end_newlines :: "string \<Rightarrow> string" where
  "trim_end_newlines s = rev (dropWhile (\<lambda>c. c = CHR 0x0D \<or> c = newline) (rev s))"

definition ellipsis :: string where
  "ellipsis = [CHR 0xE2, CHR 0x80, CHR 0xA6]"

definition shorten_line :: "string \<Rightarrow> string" where
  "shorten_line line = (if 400 < length line then take (floor_boundary line 400) line @ ellipsis else line)"

definition kept_line :: "(string \<Rightarrow> string) \<Rightarrow> string \<Rightarrow> string" where
  "kept_line lossy buf = shorten_line (trim_end_newlines (from_utf8_lossy lossy buf))"

definition push_tail :: "string list \<Rightarrow> string \<Rightarrow> string list" where
  "push_tail tail line = (if length tail = 40 then drop 1 tail else tail) @ [line]"

fun weight :: "piece \<Rightarrow> nat" where
  "weight (Bytes s) = Suc (length s)"
| "weight ReadFailure = 1"

lemma read_line_weight:
  "read_line_capped ps buf cap any = (r, buf', ps') \<Longrightarrow> sum_list (map weight ps') \<le> sum_list (map weight ps)"
proof (induction ps arbitrary: buf any)
  case (Cons p later)
  then show ?case by (cases p) (fastforce simp: Let_def split: if_splits)+
qed simp

lemma read_line_consumes:
  assumes "read_line_capped ps buf cap False = (Ok True, buf', ps')"
  shows "sum_list (map weight ps') < sum_list (map weight ps)"
proof (cases ps)
  case (Cons p later)
  then show ?thesis using assms
    by (cases p) (auto simp: Let_def split: if_splits dest!: read_line_weight)
qed (use assms in simp)

text \<open>
  The loop of a pump: the lines echoed (until writing one fails), and the lines kept. Which of its writes
  succeed is an argument.
\<close>

function pump_output :: "(string \<Rightarrow> string) \<Rightarrow> bool list \<Rightarrow> bool \<Rightarrow> piece list \<Rightarrow> string list \<times> string list" where
  "pump_output lossy writes echo_ok ps = (case read_line_capped ps [] 8192 False of
     (Inr True, buf, ps') \<Rightarrow>
       let buf' = (if echo_ok \<and> \<not> (buf \<noteq> [] \<and> last buf = newline) then buf @ [newline] else buf);
           written = (case writes of [] \<Rightarrow> True | w # _ \<Rightarrow> w);
           (echoed, lines) = pump_output lossy (drop 1 writes) (echo_ok \<and> written) ps'
       in (if echo_ok \<and> written then buf' # echoed else echoed, kept_line lossy buf' # lines)
   | _ \<Rightarrow> ([], []))"
  by pat_completeness auto
termination
  by (relation "measure (\<lambda>(lossy, writes, echo_ok, ps). sum_list (map weight ps))") (auto dest!: sym [THEN read_line_consumes])

declare pump_output.simps [simp del]

section \<open>Running a command\<close>

text \<open>
  Both pumps push their lines to the same tail, in an order the scheduler chooses; a pump that does not end in time is
  aborted with the lines it has.
\<close>

definition output_tail :: "string list \<Rightarrow> string list" where
  "output_tail pushed = fold (\<lambda>line tail. push_tail tail line) pushed []"

fun join_lines :: "string list \<Rightarrow> string" where
  "join_lines [] = []"
| "join_lines [l] = l"
| "join_lines (l # ls) = l @ [newline] @ join_lines ls"

datatype command_exit = SpawnFailed string | WaitFailed string | Exited bool string

definition run_command :: "string \<Rightarrow> command_exit \<Rightarrow> string list \<Rightarrow> (unit, string) result" where
  "run_command cmd ex pushed = (case ex of
     SpawnFailed e \<Rightarrow> Err (''Failed to spawn command: '' @ cmd @ '': '' @ e)
   | WaitFailed e \<Rightarrow> Err e
   | Exited success status \<Rightarrow>
       if success then Ok ()
       else
         let tail = output_tail pushed;
             output = (if tail = [] then ''no output captured'' else ''last output:'' @ [newline] @ join_lines tail)
         in Err (''Command failed ('' @ status @ ''): '' @ cmd @ ''; '' @ output))"

section \<open>However the pipe delivers it\<close>

text \<open>The lines of a text with their terminators, the reading of a whole output.\<close>

definition first_line :: "string \<Rightarrow> string" where
  "first_line s = takeWhile (\<lambda>b. b \<noteq> newline) s @ (if newline \<in> set s then [newline] else [])"

lemma first_line_append:
  "newline \<in> set c \<Longrightarrow> first_line (c @ s) = first_line c"
  "newline \<notin> set c \<Longrightarrow> first_line (c @ s) = c @ first_line s"
  by (auto simp: first_line_def takeWhile_append)

lemma first_line_take: "first_line s = take (length (first_line s)) s"
proof (cases "newline \<in> set s")
  case True
  then obtain as bs where "s = as @ newline # bs" "newline \<notin> set as" by (metis split_list_first)
  then show ?thesis by (simp add: first_line_def takeWhile_append)
next
  case False
  then have "first_line s = s" using first_line_append(2) [of s "[]"] by (simp add: first_line_def)
  then show ?thesis by simp
qed

lemma first_line_Nil [simp]: "first_line s = [] \<longleftrightarrow> s = []"
  by (cases s) (auto simp: first_line_def)

function text_lines :: "string \<Rightarrow> string list" where
  "text_lines s = (if s = [] then [] else first_line s # text_lines (drop (length (first_line s)) s))"
  by pat_completeness auto
termination by (relation "measure length") auto

declare text_lines.simps [simp del]

lemma read_line_whole:
  assumes "\<forall>c\<in>set cs. c \<noteq> []"
  shows "\<exists>cs'. read_line_capped (map Bytes cs) buf cap any =
      (Ok (any \<or> concat cs \<noteq> []), buf @ take (cap - length buf) (first_line (concat cs)), map Bytes cs')
    \<and> concat cs' = drop (length (first_line (concat cs))) (concat cs) \<and> (\<forall>c\<in>set cs'. c \<noteq> [])"
  using assms
proof (induction cs arbitrary: buf any)
  case Nil
  then show ?case by (simp add: first_line_def)
next
  case (Cons c cs)
  show ?case
  proof (cases "newline \<in> set c")
    case True
    let ?n = "length (takeWhile (\<lambda>b. b \<noteq> newline) c) + 1"
    have n: "length (first_line c) = ?n" using True by (simp add: first_line_def)
    have len: "?n \<le> length c" using True first_line_take [of c] n by (metis length_take min.cobounded1)
    have fl: "take (min ?n k) c = take k (first_line c)" for k
      using first_line_take [of c] n by (metis min.commute take_take)
    have "concat (if ?n < length c then drop ?n c # cs else cs) = drop ?n (concat (c # cs))" using len by auto
    moreover have "read_line_capped (map Bytes (c # cs)) buf cap any = (Ok True, buf @ take (cap - length buf) (first_line c),
        map Bytes (if ?n < length c then drop ?n c # cs else cs))"
      using Cons.prems True fl by (auto simp: Let_def)
    moreover have "\<forall>d\<in>set (if ?n < length c then drop ?n c # cs else cs). d \<noteq> []" using Cons.prems by auto
    ultimately show ?thesis using Cons.prems first_line_append(1) [OF True] n by (intro exI conjI) auto
  next
    case False
    let ?buf = "buf @ take (min (length c) (cap - length buf)) c"
    obtain cs' where step: "read_line_capped (map Bytes cs) ?buf cap True =
        (Ok True, ?buf @ take (cap - length ?buf) (first_line (concat cs)), map Bytes cs')"
      and rest: "concat cs' = drop (length (first_line (concat cs))) (concat cs)" "\<forall>c\<in>set cs'. c \<noteq> []"
      using Cons.IH [of ?buf True] Cons.prems by auto
    have "?buf @ take (cap - length ?buf) (first_line (concat cs)) = buf @ take (cap - length buf) (c @ first_line (concat cs))"
      by (auto simp: min_def)
    then show ?thesis using False step rest Cons.prems by (auto simp: Let_def first_line_append(2) [OF False])
  qed
qed

text \<open>A line break at the end of a text neither completes nor breaks a character.\<close>

lemma valid_utf8_newline: "valid_utf8 (bs @ [10]) = valid_utf8 bs"
  by (induction bs rule: valid_utf8.induct) (auto simp: cont_byte_def split: list.splits)

lemma kept_line_newline:
  assumes "\<forall>s. lossy (s @ [newline]) = lossy s @ [newline]"
  shows "kept_line lossy (buf @ [newline]) = kept_line lossy buf"
  using assms valid_utf8_newline [of "map of_char buf"] by (simp add: kept_line_def from_utf8_lossy_def trim_end_newlines_def)

lemma floor_boundary_le: "floor_boundary s i \<le> i"
  by (induction s i rule: floor_boundary.induct) auto

lemma kept_line_bound: "length (kept_line lossy buf) \<le> 403"
proof -
  have "length (take (floor_boundary l 400) l) \<le> 400" for l
    using floor_boundary_le [of l 400] by simp
  then show ?thesis by (simp add: kept_line_def shorten_line_def ellipsis_def del: length_take)
qed

text \<open>The tail is the last forty lines pushed to it, whichever pump pushed them.\<close>

lemma output_tail_last: "output_tail pushed = drop (length pushed - 40) pushed"
proof (induction pushed rule: rev_induct)
  case (snoc l ls)
  have "Suc (length ls - 40) = length ls - 39" if "\<not> length ls < 40" using that by arith
  then show ?case using snoc by (cases "length ls < 40") (auto simp: output_tail_def push_tail_def)
qed (simp add: output_tail_def)

text \<open>C34. What a build command prints is taken in line by line however the pipe cuts it into pieces, and whether or not it can
  still be echoed: the lines kept are those of the whole output, each read to at most 8192 bytes, cut to at most
  403, and the last forty of them make the error of a failed command.\<close>

theorem output_read_as_lines:
  assumes "\<forall>c\<in>set cs. c \<noteq> []" and "\<forall>s. lossy (s @ [newline]) = lossy s @ [newline]"
  shows "snd (pump_output lossy writes echo_ok (map Bytes cs)) = map (\<lambda>l. kept_line lossy (take 8192 l)) (text_lines (concat cs))
    \<and> list_all (\<lambda>l. length l \<le> 403) (snd (pump_output lossy writes echo_ok (map Bytes cs)))
    \<and> output_tail (snd (pump_output lossy writes echo_ok (map Bytes cs)))
        = drop (length (text_lines (concat cs)) - 40) (map (\<lambda>l. kept_line lossy (take 8192 l)) (text_lines (concat cs)))"
proof -
  have "snd (pump_output lossy writes echo_ok (map Bytes cs)) = map (\<lambda>l. kept_line lossy (take 8192 l)) (text_lines (concat cs))"
    using assms(1)
  proof (induction "length (concat cs)" arbitrary: cs writes echo_ok rule: less_induct)
    case less
    let ?s = "concat cs"
    obtain cs' where r: "read_line_capped (map Bytes cs) [] 8192 False = (Ok (?s \<noteq> []), take 8192 (first_line ?s), map Bytes cs')"
      and rest: "concat cs' = drop (length (first_line ?s)) ?s" "\<forall>c\<in>set cs'. c \<noteq> []"
      using read_line_whole [OF less.prems, of "[]" 8192 False] by auto
    show ?case
    proof (cases "?s = []")
      case True
      then show ?thesis using r by (simp add: pump_output.simps text_lines.simps)
    next
      case False
      have "length (concat cs') < length ?s" using rest(1) False by simp
      note IH = less.hyps [OF this rest(2)]
      have "text_lines ?s = first_line ?s # text_lines (concat cs')"
        using False rest(1) by (subst text_lines.simps) simp
      then show ?thesis
        using False IH kept_line_newline [OF assms(2)]
        by (subst pump_output.simps) (simp add: r Let_def case_prod_beta)
    qed
  qed
  then show ?thesis by (simp add: output_tail_last drop_map kept_line_bound list_all_iff)
qed

theorem output_read_as_lines_witness:
  "snd (pump_output id [] True (map Bytes [''ab'', ''c'' @ [newline] @ ''d''])) = [''abc'', ''d'']"
proof -
  have "text_lines (''abc'' @ [newline] @ ''d'') = [''abc'' @ [newline], ''d'']"
    by (simp add: text_lines.simps first_line_def)
  then show ?thesis
    using output_read_as_lines [where cs = "[''ab'', ''c'' @ [newline] @ ''d'']" and lossy = id and writes = "[]" and echo_ok = True]
    by (simp add: kept_line_def from_utf8_lossy_def trim_end_newlines_def shorten_line_def)
qed

end
