(* ===== verification/Startup_Log.thy ===== *)
theory Startup_Log
  imports Instances Relay
begin

text \<open>
  What a node reads from the log of a starting llama-server (\<^verbatim>\<open>src/instance.rs\<close>): the parameters of the model and the
  slots, and the reason of a failed start. The patterns of the source are matched as written; on text
  of bytes their digits and blanks are those of ASCII.
\<close>

section \<open>Patterns\<close>

text \<open>A literal, digits and a literal, at the first place where they occur; the digits are captured.\<close>

definition number_at :: "string list \<Rightarrow> string \<Rightarrow> string \<Rightarrow> string option" where
  "number_at lits after s = (case find (starts_with s) lits of
     None \<Rightarrow> None
   | Some lit \<Rightarrow>
       let ds = takeWhile is_digit (drop (length lit) s); rest = dropWhile is_digit (drop (length lit) s)
       in if ds \<noteq> [] \<and> starts_with rest after then Some ds else None)"

fun find_number :: "string list \<Rightarrow> string \<Rightarrow> string \<Rightarrow> string option" where
  "find_number lits after [] = None"
| "find_number lits after (c # s) = (case number_at lits after (c # s) of
     Some ds \<Rightarrow> Some ds | None \<Rightarrow> find_number lits after s)"

definition slot_n_ctx :: "string \<Rightarrow> string option" where
  "slot_n_ctx = find_number [''new slot, n_ctx = ''] []"

definition n_ctx_slot :: "string \<Rightarrow> string option" where
  "n_ctx_slot = find_number [''n_ctx_slot = ''] []"

definition n_slots_init :: "string \<Rightarrow> string option" where
  "n_slots_init = find_number [''initializing slots, n_slots = '', ''initializing, n_slots = ''] []"

definition n_ctx_train_note :: "string \<Rightarrow> string option" where
  "n_ctx_train_note = find_number [''n_ctx_train ('' ] '')''"

definition n_ctx_train_cap :: "string \<Rightarrow> string option" where
  "n_ctx_train_cap = find_number [''exceeds the training context of the model ('' ] '')''"

text \<open>\<^verbatim>\<open>print_info:\s+(\S+)\s+=\s+(.+)\<close>, with the value trimmed.\<close>

definition info_at :: "string \<Rightarrow> (string \<times> string) option" where
  "info_at s = (case strip_prefix s ''print_info:'' of
     None \<Rightarrow> None
   | Some r \<Rightarrow>
       let r1 = dropWhile is_white r; key = takeWhile (\<lambda>c. \<not> is_white c) r1;
           r2 = dropWhile (\<lambda>c. \<not> is_white c) r1; r3 = dropWhile is_white r2
       in if r1 = r \<or> key = [] \<or> r3 = r2 then None
          else case r3 of
            [] \<Rightarrow> None
          | c # v \<Rightarrow> if c = CHR ''='' \<and> v \<noteq> [] \<and> is_white (hd v) \<and> tl v \<noteq> [] then Some (key, trim v) else None)"

fun captures_info :: "string \<Rightarrow> (string \<times> string) option" where
  "captures_info [] = None"
| "captures_info (c # s) = (case info_at (c # s) of Some kv \<Rightarrow> Some kv | None \<Rightarrow> captures_info s)"

section \<open>Parameters of a model\<close>

record parsed_model_params =
  pm_n_ctx_train :: "nat option"
  pm_n_ctx :: "nat option"
  pm_n_slots :: "nat option"
  pm_n_batch :: "nat option"
  pm_n_ubatch :: "nat option"
  pm_arch :: "string option"
  pm_n_layer :: "nat option"
  pm_n_embd :: "nat option"
  pm_n_head :: "nat option"
  pm_n_head_kv :: "nat option"
  pm_n_vocab :: "nat option"
  pm_n_ff :: "nat option"
  pm_model_name :: "string option"
  pm_model_type :: "string option"
  pm_model_params :: "string option"
  pm_file_type :: "string option"
  pm_rope_type :: "string option"
  pm_n_ctx_orig_yarn :: "nat option"
  pm_freq_base_train :: "string option"

definition no_params :: parsed_model_params where
  "no_params = \<lparr>pm_n_ctx_train = None, pm_n_ctx = None, pm_n_slots = None, pm_n_batch = None, pm_n_ubatch = None, pm_arch = None,
     pm_n_layer = None, pm_n_embd = None, pm_n_head = None, pm_n_head_kv = None, pm_n_vocab = None, pm_n_ff = None,
     pm_model_name = None, pm_model_type = None, pm_model_params = None, pm_file_type = None, pm_rope_type = None,
     pm_n_ctx_orig_yarn = None, pm_freq_base_train = None\<rparr>"

text \<open>A floating point value is kept as its text.\<close>

definition store_info :: "string \<times> string \<Rightarrow> parsed_model_params \<Rightarrow> parsed_model_params" where
  "store_info kv p = (let (key, v) = kv in
     if key = ''n_ctx_train'' then p\<lparr>pm_n_ctx_train := parse_usize v\<rparr>
     else if key = ''n_layer'' then p\<lparr>pm_n_layer := parse_usize v\<rparr>
     else if key = ''n_embd'' then p\<lparr>pm_n_embd := parse_usize v\<rparr>
     else if key = ''n_head'' then p\<lparr>pm_n_head := parse_usize v\<rparr>
     else if key = ''n_head_kv'' then p\<lparr>pm_n_head_kv := parse_usize v\<rparr>
     else if key = ''n_vocab'' then p\<lparr>pm_n_vocab := parse_usize v\<rparr>
     else if key = ''n_ff'' then p\<lparr>pm_n_ff := parse_usize v\<rparr>
     else if key = ''arch'' then p\<lparr>pm_arch := Some v\<rparr>
     else if key = ''general.name'' then p\<lparr>pm_model_name := Some v\<rparr>
     else if key = ''n_ctx_orig_yarn'' then p\<lparr>pm_n_ctx_orig_yarn := parse_usize v\<rparr>
     else if key = ''freq_base_train'' then p\<lparr>pm_freq_base_train := (if parses_f64 v then Some v else None)\<rparr>
     else p)"

definition after_equals :: "string \<Rightarrow> string option" where
  "after_equals line = map_option (\<lambda>(_, v). trim v) (split_once CHR ''='' line)"

definition store_spaced :: "string \<Rightarrow> parsed_model_params \<Rightarrow> parsed_model_params" where
  "store_spaced line p = (case after_equals line of
     None \<Rightarrow> p
   | Some v \<Rightarrow>
       if contains_str line ''print_info: model type'' then p\<lparr>pm_model_type := Some v\<rparr>
       else if contains_str line ''print_info: file type'' then p\<lparr>pm_file_type := Some v\<rparr>
       else if contains_str line ''print_info: rope type'' then p\<lparr>pm_rope_type := Some v\<rparr>
       else if contains_str line ''print_info: model params'' then p\<lparr>pm_model_params := Some v\<rparr>
       else p)"

definition store_slots :: "string \<Rightarrow> parsed_model_params \<Rightarrow> parsed_model_params" where
  "store_slots line p =
     (let p1 = (if pm_n_ctx p = None
          then (case or_else (slot_n_ctx line) (n_ctx_slot line) of None \<Rightarrow> p | Some v \<Rightarrow> p\<lparr>pm_n_ctx := parse_usize v\<rparr>) else p);
          p2 = (if pm_n_ctx_train p1 = None
          then (case or_else (n_ctx_train_note line) (n_ctx_train_cap line) of None \<Rightarrow> p1 | Some v \<Rightarrow> p1\<lparr>pm_n_ctx_train := parse_usize v\<rparr>) else p1)
      in if pm_n_slots p2 = None
         then (case n_slots_init line of None \<Rightarrow> p2 | Some v \<Rightarrow> p2\<lparr>pm_n_slots := parse_usize v\<rparr>) else p2)"

definition parse_line :: "string \<Rightarrow> parsed_model_params \<Rightarrow> parsed_model_params" where
  "parse_line line p =
     store_slots line (store_spaced line (case captures_info line of None \<Rightarrow> p | Some kv \<Rightarrow> store_info kv p))"

definition parse_llama_server_log :: "string list \<Rightarrow> parsed_model_params" where
  "parse_llama_server_log lines = fold parse_line lines no_params"

section \<open>The buffered log\<close>

record startup_log =
  sl_lines :: "string list"
  sl_params :: "parsed_model_params option"

definition push_log :: "string \<Rightarrow> startup_log \<Rightarrow> startup_log" where
  "push_log line l = (if length (sl_lines l) < 10000 then l\<lparr>sl_lines := sl_lines l @ [line]\<rparr> else l)"

definition has_data :: "parsed_model_params \<Rightarrow> bool" where
  "has_data p \<longleftrightarrow> pm_n_ctx p \<noteq> None \<or> pm_n_slots p \<noteq> None \<or> pm_n_ctx_train p \<noteq> None \<or> pm_arch p \<noteq> None \<or> pm_model_name p \<noteq> None"

definition parse_and_store_startup_params :: "startup_log \<Rightarrow> startup_log" where
  "parse_and_store_startup_params l =
     (let params = parse_llama_server_log (sl_lines l) in if has_data params then l\<lparr>sl_params := Some params\<rparr> else l)"

definition clear_startup_log :: "startup_log \<Rightarrow> startup_log" where
  "clear_startup_log l = l\<lparr>sl_lines := []\<rparr>"

section \<open>The reason of a failed start\<close>

text \<open>Colour sequences, \<^verbatim>\<open>\x1b\[[0-9;]*m\<close>.\<close>

definition color_length :: "string \<Rightarrow> nat option" where
  "color_length s = (if starts_with s [CHR 0x1B, CHR ''[''] then
     (let r = dropWhile (\<lambda>c. is_digit c \<or> c = CHR '';'') (drop 2 s) in
      if starts_with r ''m'' then Some (length s - length r + 1) else None)
   else None)"

function strip_colors :: "string \<Rightarrow> string" where
  "strip_colors s = (case s of [] \<Rightarrow> []
     | c # t \<Rightarrow> (case color_length s of Some n \<Rightarrow> strip_colors (drop (max 1 n) s) | None \<Rightarrow> c # strip_colors t))"
  by pat_completeness auto
termination by (relation "measure length") auto

declare strip_colors.simps [simp del]

definition clean_words :: "string \<Rightarrow> string list" where
  "clean_words line = split_whitespace (strip_colors line)"

text \<open>A time stamp \<^verbatim>\<open>\d+(?:\.\d+)+\<close>.\<close>

definition is_stamp :: "string \<Rightarrow> bool" where
  "is_stamp w = (let ps = split_on CHR ''.'' w in 2 \<le> length ps \<and> list_all (\<lambda>p. p \<noteq> [] \<and> list_all is_digit p) ps)"

text \<open>
  \<^verbatim>\<open>^\s*(?:\d+(?:\.\d+)+\s+)?E\s+(\S.*)$\<close> on a cleaned line, whose words are separated by single blanks: an
  optional stamp, the level and at least one word.
\<close>

definition error_message :: "string list \<Rightarrow> string option" where
  "error_message ws =
     (let ws' = (case ws of w # rest \<Rightarrow> if is_stamp w then rest else ws | [] \<Rightarrow> []) in
      case ws' of e # m # ms \<Rightarrow> if e = ''E'' then Some (join_with '' '' (m # ms)) else None | _ \<Rightarrow> None)"

definition startup_error_lines :: "string list \<Rightarrow> bool \<Rightarrow> string option" where
  "startup_error_lines lines last_line_fallback =
     (let errors = take 5 (List.map_filter (\<lambda>line. error_message (clean_words line)) lines) in
      if errors \<noteq> [] then Some (join_with ''; '' errors)
      else if \<not> last_line_fallback then None
      else map_option (join_with '' '') (find (\<lambda>ws. ws \<noteq> []) (map clean_words (rev lines))))"

definition startup_failure_reason :: "llama_instance \<Rightarrow> startup_log \<Rightarrow> string option" where
  "startup_failure_reason i l = startup_error_lines (sl_lines l) (get_pid i = None)"

section \<open>The slots are read from either spelling\<close>

definition slot_lines :: "bool \<Rightarrow> string \<Rightarrow> nat \<Rightarrow> nat \<Rightarrow> string \<Rightarrow> string list" where
  "slot_lines current pre n m post =
     (if current then [pre @ ''initializing, n_slots = '' @ show_base 10 n @ '', n_ctx_slot = '' @ show_base 10 m @ post]
      else [pre @ ''initializing slots, n_slots = '' @ show_base 10 n, pre @ ''new slot, n_ctx = '' @ show_base 10 m @ post])"

definition no_slots :: "string \<Rightarrow> bool" where
  "no_slots l \<longleftrightarrow> n_slots_init l = None \<and> slot_n_ctx l = None \<and> n_ctx_slot l = None"

lemma find_number_skip:
  assumes "\<forall>lit \<in> set lits. lit \<noteq> [] \<and> hd lit \<notin> set a"
  shows "find_number lits after (a @ b) = find_number lits after b"
  using assms
proof (induction a)
  case (Cons c a)
  then have "find (starts_with (c # a @ b)) lits = None"
    by (auto simp: find_None_iff starts_with_def neq_Nil_conv)
  then show ?case using Cons by (simp add: number_at_def)
qed simp

lemma find_number_here:
  assumes "find (starts_with (lit @ show_base 10 n @ rest)) lits = Some lit" "lit \<noteq> []"
    and "rest = [] \<or> \<not> is_digit (hd rest)"
  shows "find_number lits [] (lit @ show_base 10 n @ rest) = Some (show_base 10 n)"
proof -
  have ds: "\<forall>x \<in> set (show_base 10 n). is_digit x" "show_base 10 n \<noteq> []"
    using show_base_10_digits [of n] by (auto simp: list_all_iff)
  then have "takeWhile is_digit (show_base 10 n @ rest) = show_base 10 n"
    using assms(3) by (cases rest) (simp_all add: takeWhile_append2)
  then have "number_at lits [] (lit @ show_base 10 n @ rest) = Some (show_base 10 n)"
    using assms(1) ds(2) by (simp add: number_at_def starts_with_def Let_def)
  then show ?thesis using assms(2) by (cases lit) simp_all
qed

lemma digits_not: "CHR ''i'' \<notin> set (show_base 10 n)" "CHR ''n'' \<notin> set (show_base 10 n)"
  using show_base_10_digits [of n] by (auto simp: list_all_iff is_digit_def)

lemma plain_prefix:
  assumes "CHR ''i'' \<notin> set pre" "CHR ''n'' \<notin> set pre"
  shows "n_slots_init (pre @ s) = n_slots_init s" "slot_n_ctx (pre @ s) = slot_n_ctx s" "n_ctx_slot (pre @ s) = n_ctx_slot s"
  using assms by (simp_all add: n_slots_init_def slot_n_ctx_def n_ctx_slot_def find_number_skip)

lemma current_line:
  assumes "post = [] \<or> \<not> is_digit (hd post)" "CHR ''n'' \<notin> set post"
  shows "n_slots_init (''initializing, n_slots = '' @ show_base 10 n @ '', n_ctx_slot = '' @ show_base 10 m @ post) = Some (show_base 10 n)"
    "slot_n_ctx (''initializing, n_slots = '' @ show_base 10 n @ '', n_ctx_slot = '' @ show_base 10 m @ post) = None"
    "n_ctx_slot (''initializing, n_slots = '' @ show_base 10 n @ '', n_ctx_slot = '' @ show_base 10 m @ post) = Some (show_base 10 m)"
proof -
  show "n_slots_init (''initializing, n_slots = '' @ show_base 10 n @ '', n_ctx_slot = '' @ show_base 10 m @ post) = Some (show_base 10 n)"
    unfolding n_slots_init_def by (rule find_number_here) (simp_all add: starts_with_def is_digit_def)
  have n_digits: "find_number [''new slot, n_ctx = ''] [] (show_base 10 k @ s) = find_number [''new slot, n_ctx = ''] [] s"
    "find_number [''n_ctx_slot = ''] [] (show_base 10 k @ s) = find_number [''n_ctx_slot = ''] [] s" for k s
    using digits_not by (simp_all add: find_number_skip)
  have "find_number [''new slot, n_ctx = ''] [] post = None"
    using find_number_skip [where lits = "[''new slot, n_ctx = '']" and a = post and b = "[]"] assms(2) by simp
  then show "slot_n_ctx (''initializing, n_slots = '' @ show_base 10 n @ '', n_ctx_slot = '' @ show_base 10 m @ post) = None"
    by (simp add: slot_n_ctx_def number_at_def starts_with_def n_digits)
  have "find_number [''n_ctx_slot = ''] [] (''n_ctx_slot = '' @ show_base 10 m @ post) = Some (show_base 10 m)"
    by (rule find_number_here) (simp_all add: starts_with_def assms(1))
  then show "n_ctx_slot (''initializing, n_slots = '' @ show_base 10 n @ '', n_ctx_slot = '' @ show_base 10 m @ post) = Some (show_base 10 m)"
    by (simp add: n_ctx_slot_def number_at_def starts_with_def n_digits)
qed

lemma older_lines:
  assumes "post = [] \<or> \<not> is_digit (hd post)" "CHR ''n'' \<notin> set post"
  shows "n_slots_init (''initializing slots, n_slots = '' @ show_base 10 n) = Some (show_base 10 n)"
    "slot_n_ctx (''initializing slots, n_slots = '' @ show_base 10 n) = None"
    "n_ctx_slot (''initializing slots, n_slots = '' @ show_base 10 n) = None"
    "slot_n_ctx (''new slot, n_ctx = '' @ show_base 10 m @ post) = Some (show_base 10 m)"
proof -
  show "n_slots_init (''initializing slots, n_slots = '' @ show_base 10 n) = Some (show_base 10 n)"
    using find_number_here [where lit = "''initializing slots, n_slots = ''" and n = n and rest = "[]"
        and lits = "[''initializing slots, n_slots = '', ''initializing, n_slots = '']"]
    by (simp add: n_slots_init_def starts_with_def)
  have none: "find_number [''new slot, n_ctx = ''] [] (show_base 10 k) = None" "find_number [''n_ctx_slot = ''] [] (show_base 10 k) = None" for k
    using find_number_skip [where a = "show_base 10 k" and b = "[]"] digits_not by simp_all
  then show "slot_n_ctx (''initializing slots, n_slots = '' @ show_base 10 n) = None"
    "n_ctx_slot (''initializing slots, n_slots = '' @ show_base 10 n) = None"
    by (simp_all add: slot_n_ctx_def n_ctx_slot_def number_at_def starts_with_def)
  show "slot_n_ctx (''new slot, n_ctx = '' @ show_base 10 m @ post) = Some (show_base 10 m)"
    unfolding slot_n_ctx_def by (rule find_number_here) (simp_all add: starts_with_def assms(1))
qed

lemma parse_line_slots:
  "pm_n_ctx (parse_line l p) = (if pm_n_ctx p = None then Option.bind (or_else (slot_n_ctx l) (n_ctx_slot l)) parse_usize else pm_n_ctx p)"
  "pm_n_slots (parse_line l p) = (if pm_n_slots p = None then Option.bind (n_slots_init l) parse_usize else pm_n_slots p)"
proof -
  have info: "pm_n_ctx (store_info kv q) = pm_n_ctx q" "pm_n_slots (store_info kv q) = pm_n_slots q" for kv q
    by (simp_all add: store_info_def split: prod.split)
  have spaced: "pm_n_ctx (store_spaced l q) = pm_n_ctx q" "pm_n_slots (store_spaced l q) = pm_n_slots q" for q
    by (simp_all add: store_spaced_def split: option.split)
  show "pm_n_ctx (parse_line l p) = (if pm_n_ctx p = None then Option.bind (or_else (slot_n_ctx l) (n_ctx_slot l)) parse_usize else pm_n_ctx p)"
    by (auto simp: parse_line_def store_slots_def Let_def info spaced split: option.split)
  show "pm_n_slots (parse_line l p) = (if pm_n_slots p = None then Option.bind (n_slots_init l) parse_usize else pm_n_slots p)"
    by (auto simp: parse_line_def store_slots_def Let_def info spaced split: option.split)
qed

lemma parsed_stays:
  "pm_n_ctx p \<noteq> None \<Longrightarrow> pm_n_ctx (fold parse_line ls p) = pm_n_ctx p"
  "pm_n_slots p \<noteq> None \<Longrightarrow> pm_n_slots (fold parse_line ls p) = pm_n_slots p"
  by (induction ls arbitrary: p) (auto simp: parse_line_slots)

lemma no_slots_parsed:
  "list_all no_slots ls \<Longrightarrow> pm_n_ctx (fold parse_line ls p) = pm_n_ctx p \<and> pm_n_slots (fold parse_line ls p) = pm_n_slots p"
  by (induction ls arbitrary: p) (auto simp: parse_line_slots no_slots_def)



end
