(* ===== verification/Startup.thy ===== *)
theory Startup
  imports Startup_Log
begin

text \<open>
  The life of a llama-server process as its node drives it (\<^verbatim>\<open>src/instance.rs\<close>): waiting until it is ready, the
  readers of its output, and its end with the release of its memory. Polls, probes and the time they take
  are arguments; between two turns of the wait any other task may change the instance.
\<close>

section \<open>Waiting for readiness\<close>

datatype probe_reply = NoReply | Status nat

text \<open>Time is in nanoseconds; a probe that does not answer in time gives no reply.\<close>

definition probe_ready :: "probe_reply \<Rightarrow> bool" where
  "probe_ready reply = (case reply of Status c \<Rightarrow> 200 \<le> c \<and> c < 300 | NoReply \<Rightarrow> False)"

record ready_turn =
  rt_others :: "llama_instance \<times> token_world \<Rightarrow> llama_instance \<times> token_world"
  rt_poll :: wait_result
  rt_probe :: probe_reply
  rt_took :: nat

record ready_end =
  re_result :: "(unit, string) result"
  re_elapsed :: nat
  re_instance :: llama_instance
  re_world :: token_world
  re_crashed :: nat

function ready_loop :: "nat \<Rightarrow> (nat \<Rightarrow> ready_turn) \<Rightarrow> nat \<Rightarrow> nat \<Rightarrow> llama_instance \<Rightarrow> token_world \<Rightarrow> nat \<Rightarrow> ready_end" where
  "ready_loop timeout turns k elapsed i0 w0 crashed =
     (let turn = turns k; (i, w) = rt_others turn (i0, w0) in
      if timeout \<le> elapsed then
        \<lparr>re_result = Err ''Instance failed to become ready within timeout'', re_elapsed = elapsed, re_instance = mark_failed i,
         re_world = w, re_crashed = crashed\<rparr>
      else
        let po = is_alive (rt_poll turn) i w crashed in
        if \<not> po_alive po then
          \<lparr>re_result = Err ''Instance process exited unexpectedly while waiting for readiness'', re_elapsed = elapsed,
           re_instance = mark_failed (po_instance po), re_world = po_world po, re_crashed = po_crashed po\<rparr>
        else if probe_ready (rt_probe turn) then
          (let (i', w') = mark_ready_instance (po_instance po) (po_world po) in
           \<lparr>re_result = Ok (), re_elapsed = elapsed + rt_took turn, re_instance = i', re_world = w', re_crashed = po_crashed po\<rparr>)
        else ready_loop timeout turns (Suc k) (elapsed + rt_took turn + 500000000) (po_instance po) (po_world po) (po_crashed po))"
  by pat_completeness auto
termination
  by (relation "measure (\<lambda>(timeout, turns, k, elapsed, i, w, crashed). timeout - elapsed)") auto

declare ready_loop.simps [simp del]

definition wait_for_ready :: "u64 \<Rightarrow> (nat \<Rightarrow> ready_turn) \<Rightarrow> llama_instance \<Rightarrow> token_world \<Rightarrow> nat \<Rightarrow> ready_end" where
  "wait_for_ready startup_timeout_secs turns i w crashed =
     (let effective = (if startup_timeout_secs = 0 then 30 else unat startup_timeout_secs)
      in ready_loop (effective * 1000000000) turns 0 0 i w crashed)"

section \<open>Readers of the output\<close>

text \<open>A task that waits for the readers: it registers for the next notice, looks, and sleeps if one is still open.\<close>

datatype drain_state = Looking | Registered bool | Asleep bool | AllClosed | OutOfTime

record output_readers =
  or_open :: nat
  or_waiter :: drain_state

fun notify_waiter :: "drain_state \<Rightarrow> drain_state" where
  "notify_waiter (Registered b) = Registered True"
| "notify_waiter (Asleep b) = Asleep True"
| "notify_waiter d = d"

definition opened :: "output_readers \<Rightarrow> output_readers" where
  "opened r = r\<lparr>or_open := Suc (or_open r)\<rparr>"

definition closed_reader :: "output_readers \<Rightarrow> output_readers" where
  "closed_reader r = r\<lparr>or_open := or_open r - 1, or_waiter := notify_waiter (or_waiter r)\<rparr>"

text \<open>One turn of the loop of \<^verbatim>\<open>drained\<close>, up to where it can be interrupted.\<close>

fun drain_turn :: "nat \<Rightarrow> drain_state \<Rightarrow> drain_state" where
  "drain_turn n Looking = Registered False"
| "drain_turn n (Registered b) = (if n = 0 then AllClosed else Asleep b)"
| "drain_turn n (Asleep b) = (if b then Looking else Asleep b)"
| "drain_turn n d = d"

inductive reader_step :: "output_readers \<Rightarrow> output_readers \<Rightarrow> bool" where
  step_opened: "reader_step r (opened r)"
| step_closed: "0 < or_open r \<Longrightarrow> reader_step r (closed_reader r)"
| step_turn: "reader_step r (r\<lparr>or_waiter := drain_turn (or_open r) (or_waiter r)\<rparr>)"
| step_timeout: "or_waiter r \<noteq> AllClosed \<Longrightarrow> reader_step r (r\<lparr>or_waiter := OutOfTime\<rparr>)"

section \<open>The end of a process\<close>

datatype child_signal = SigTerm | SigKill

text \<open>
  The task that outlives its caller. The results of the waits after the first: each is preceded by a kill, and the first
  success ends the loop. (Without a runtime a thread polls to the same end; it is not modelled.)
\<close>

fun reap_loop :: "bool list \<Rightarrow> child_signal list \<times> bool" where
  "reap_loop [] = ([SigKill], False)"
| "reap_loop (exited # waits) = (if exited then ([SigKill], True) else (let (s, d) = reap_loop waits in (SigKill # s, d)))"

definition reap_child ::
  "bool \<Rightarrow> bool \<Rightarrow> bool list \<Rightarrow> string option \<Rightarrow> token_world \<Rightarrow> child_signal list \<times> bool \<times> token_world" where
  "reap_child graceful in_time waits rid w =
     (let (signals, exited) = (if graceful \<and> in_time then ([], True) else reap_loop waits)
      in ((if graceful then SigTerm else SigKill) # signals, exited, if exited then reservation_finish rid w else w))"

definition stop_instance ::
  "bool \<Rightarrow> bool list \<Rightarrow> llama_instance \<Rightarrow> token_world \<Rightarrow> child_signal list \<times> llama_instance \<times> token_world" where
  "stop_instance in_time waits i w = (case i_child i of
     None \<Rightarrow> ([], i, w)
   | Some pid \<Rightarrow> (let (signals, _, w') = reap_child True in_time waits (i_memory_reservation i) w
       in (signals, i\<lparr>i_child := None\<rparr>, w')))"

definition drop_instance :: "bool list \<Rightarrow> llama_instance \<Rightarrow> token_world \<Rightarrow> child_signal list \<times> token_world" where
  "drop_instance waits i w = (case i_child i of
     None \<Rightarrow> ([], w)
   | Some pid \<Rightarrow> (let (signals, _, w') = reap_child False False waits (i_memory_reservation i) w in (signals, w')))"

section \<open>A wait ends, and ends rightly\<close>

lemma mark_status: "is_ready (fst (mark_ready_instance i w))" "has_failed (mark_failed i)" "\<not> is_ready (mark_failed i)"
  by (simp_all add: mark_ready_instance_def mark_failed_def is_ready_def has_failed_def)

definition ends_well :: "nat \<Rightarrow> nat \<Rightarrow> (nat \<Rightarrow> ready_turn) \<Rightarrow> ready_end \<Rightarrow> bool" where
  "ends_well timeout d turns e \<longleftrightarrow> re_elapsed e < timeout + d + 500000000
     \<and> (case re_result e of
          Inl m \<Rightarrow> has_failed (re_instance e) \<and> (timeout \<le> re_elapsed e \<or> i_child (re_instance e) = None)
        | Inr _ \<Rightarrow> is_ready (re_instance e) \<and> (\<exists>k. probe_ready (rt_probe (turns k))))"

lemma not_alive_no_child: "\<not> po_alive (is_alive wr i w c) \<Longrightarrow> i_child (po_instance (is_alive wr i w c)) = None"
  by (auto simp: is_alive_def split: option.splits wait_result.splits)

lemma ready_loop_ends:
  assumes "\<forall>k. rt_took (turns k) \<le> d" "elapsed < timeout + d + 500000000"
  shows "ends_well timeout d turns (ready_loop timeout turns k elapsed i w c)"
  using assms
proof (induction timeout turns k elapsed i w c rule: ready_loop.induct)
  case (1 timeout turns k elapsed i0 w0 c)
  obtain i w where iw: "rt_others (turns k) (i0, w0) = (i, w)" by fastforce
  let ?po = "is_alive (rt_poll (turns k)) i w c"
  obtain i' w' where m: "mark_ready_instance (po_instance ?po) (po_world ?po) = (i', w')" by fastforce
  have took: "rt_took (turns k) \<le> d" using 1(2) by blast
  consider (late) "timeout \<le> elapsed" | (dead) "elapsed < timeout" "\<not> po_alive ?po"
    | (ready) "elapsed < timeout" "po_alive ?po" "probe_ready (rt_probe (turns k))"
    | (again) "elapsed < timeout" "po_alive ?po" "\<not> probe_ready (rt_probe (turns k))" by linarith
  then show ?case
  proof cases
    case late
    then show ?thesis using 1(3) mark_status(2) by (simp add: ready_loop.simps iw ends_well_def)
  next
    case dead
    then show ?thesis using 1(3) mark_status(2) not_alive_no_child [OF dead(2)]
      by (simp add: ready_loop.simps iw ends_well_def Let_def) (simp add: mark_failed_def)
  next
    case ready
    then show ?thesis using mark_status(1) [of "po_instance ?po" "po_world ?po"] m took
      by (auto simp: ready_loop.simps iw ends_well_def Let_def)
  next
    case again
    have in_time: "elapsed + rt_took (turns k) + 500000000 < timeout + d + 500000000" using again(1) took by linarith
    have "ends_well timeout d turns (ready_loop timeout turns (Suc k) (elapsed + rt_took (turns k) + 500000000)
        (po_instance ?po) (po_world ?po) (po_crashed ?po))"
      by (rule 1(1)) (use again iw 1(2) in_time in simp_all)
    then show ?thesis using again by (subst ready_loop.simps) (simp add: iw Let_def)
  qed
qed

text \<open>C35. Waiting for an instance always ends, whatever the process, its probes and the other tasks do: at the latest
  one probe and one pause after the start-up timeout, of which none set counts as thirty seconds. It ends with
  success only after a probe that answered, and the instance is then ready; with an error the instance is
  marked as failed, and that only when the time is up or its process is gone.\<close>

theorem waiting_ends:
  assumes "\<forall>k. rt_took (turns k) \<le> d"
  shows "ends_well ((if secs = 0 then 30 else unat secs) * 1000000000) d turns (wait_for_ready secs turns i w c)"
  using ready_loop_ends [OF assms] by (simp add: wait_for_ready_def Let_def)

theorem waiting_ends_witness:
  "\<forall>i w c. ends_well 30000000000 5000000000 (\<lambda>_. \<lparr>rt_others = id, rt_poll = StillRunning, rt_probe = NoReply, rt_took = 5000000000\<rparr>)
     (wait_for_ready 0 (\<lambda>_. \<lparr>rt_others = id, rt_poll = StillRunning, rt_probe = NoReply, rt_took = 5000000000\<rparr>) i w c)"
  using waiting_ends [where secs = 0 and d = 5000000000 and turns = "\<lambda>_. \<lparr>rt_others = id, rt_poll = StillRunning, rt_probe = NoReply, rt_took = 5000000000\<rparr>"]
  by simp

section \<open>No notice is missed\<close>

inductive_set reader_states :: "output_readers set" where
  readers_init: "\<lparr>or_open = 0, or_waiter = Looking\<rparr> \<in> reader_states"
| readers_next: "r \<in> reader_states \<Longrightarrow> reader_step r r' \<Longrightarrow> r' \<in> reader_states"

lemma asleep_while_open:
  "r \<in> reader_states \<Longrightarrow> or_waiter r = Asleep False \<Longrightarrow> 0 < or_open r"
proof (induction rule: reader_states.induct)
  case (readers_next r r')
  from readers_next(2) show ?case
  proof cases
    case step_turn
    then show ?thesis using readers_next by (cases "or_waiter r") (auto split: if_splits)
  next
    case step_closed
    then show ?thesis using readers_next by (cases "or_waiter r") (auto simp: closed_reader_def)
  qed (use readers_next in \<open>auto simp: opened_def\<close>)
qed simp

text \<open>Once every reader is closed, the waiting task returns after at most three of its own steps, unless its time is up.\<close>

lemma drained_returns:
  assumes "r \<in> reader_states" "or_open r = 0" "or_waiter r \<noteq> OutOfTime"
  shows "(drain_turn 0 ^^ 3) (or_waiter r) = AllClosed"
proof -
  have "or_waiter r \<noteq> Asleep False" using asleep_while_open [OF assms(1)] assms(2) by auto
  then show ?thesis using assms(3) by (cases "or_waiter r") (auto simp: eval_nat_numeral)
qed

section \<open>Memory is held until the process is gone\<close>

lemma reap_loop_exit: "snd (reap_loop waits) \<longleftrightarrow> True \<in> set waits"
  by (induction waits) (auto split: prod.splits)

lemma memory_held_until_exit:
  "reap_child graceful in_time waits rid w = (signals, exited, w') \<Longrightarrow>
     w' = (if graceful \<and> in_time \<or> True \<in> set waits then reservation_finish rid w else w)
     \<and> (graceful \<and> in_time \<longrightarrow> signals = [SigTerm])"
  using reap_loop_exit [of waits] by (auto simp: reap_child_def Let_def split: if_splits prod.splits)

end
