(* ===== verification/Build_Update.thy ===== *)
theory Build_Update
  imports Builds
begin

text \<open>
  The state of the build manager and its operations (\<^verbatim>\<open>src/build_manager.rs\<close>): an update from the fetch to the switch of
  the link, the cached test for the binary, the reported version, and the bounded output of commands. What the
  commands and the file system answer is the environment; the link itself, the stamps of build
  directories and the directories removed are part of the state.
\<close>

section \<open>State\<close>

datatype stamp_read = StampText string | StampAbsent | StampDangling | StampUnreadable

record build_manager =
  bm_version :: "string option"
  bm_building :: bool
  bm_cache :: "(bool \<times> instant) option"
  bm_generation :: u64
  bm_last_error :: "string option"
  bm_last_at :: "string option"
  bm_prepared :: "path set"
  bm_link :: "path option"
  bm_stamps :: "path \<Rightarrow> stamp_read"
  bm_removed :: "path list"

definition new_manager :: "path option \<Rightarrow> (path \<Rightarrow> stamp_read) \<Rightarrow> build_manager" where
  "new_manager link stamps = \<lparr>bm_version = None, bm_building = False, bm_cache = None, bm_generation = 0, bm_last_error = None,
     bm_last_at = None, bm_prepared = {}, bm_link = link, bm_stamps = stamps, bm_removed = []\<rparr>"

type_synonym outcome = "(unit, string) result"

text \<open>The reset of a branch to its origin is left out: it may fail, and its outcome is only logged.\<close>

datatype rev_parse = RevNotRun string | RevFailed | RevText string

record build_env =
  be_to_json :: "string list \<Rightarrow> string list \<Rightarrow> (string, string) result"
  be_sha256 :: "string \<Rightarrow> string"
  be_repo_exists :: bool
  be_clone :: outcome
  be_fetch :: outcome
  be_checkout :: outcome
  be_rev_parse :: rev_parse
  be_exists :: "path \<Rightarrow> bool"
  be_verify :: "path \<Rightarrow> outcome"
  be_canonical :: "path \<Rightarrow> path option"
  be_write_stamp :: outcome
  be_try_binary :: "(bool, string) result"
  be_try_dir :: "(bool, string) result"
  be_remove_dir :: outcome
  be_create_dir :: outcome
  be_repo_canonical :: outcome
  be_configure :: outcome
  be_build :: outcome
  be_verify_new :: outcome
  be_link_dir :: outcome
  be_symlink :: bool
  be_symlink_again :: outcome
  be_rename :: outcome
  be_fs :: fs
  be_cwd :: path
  be_entries :: "(dir_entry list, string) result"
  be_now :: string

section \<open>Operations\<close>

definition is_binary_available_cached :: "instant \<Rightarrow> bool \<Rightarrow> build_manager \<Rightarrow> bool \<times> build_manager" where
  "is_binary_available_cached now exists bm = (case bm_cache bm of
     Some (cached, checked_at) \<Rightarrow>
       if now - checked_at < 1000000000 then (cached, bm) else (exists, bm\<lparr>bm_cache := Some (exists, now)\<rparr>)
   | None \<Rightarrow> (exists, bm\<lparr>bm_cache := Some (exists, now)\<rparr>))"

definition invalidate_binary_cache :: "build_manager \<Rightarrow> build_manager" where
  "invalidate_binary_cache bm = bm\<lparr>bm_cache := None\<rparr>"

definition build_status_of :: "build_manager \<Rightarrow> build_status" where
  "build_status_of bm = \<lparr>bs_is_building = bm_building bm, bs_last_build_error = bm_last_error bm, bs_last_build_at = bm_last_at bm\<rparr>"

definition record_build_success :: "string \<Rightarrow> build_manager \<Rightarrow> build_manager" where
  "record_build_success now bm = bm\<lparr>bm_last_error := None, bm_last_at := Some now\<rparr>"

definition record_build_failure :: "string \<Rightarrow> string \<Rightarrow> build_manager \<Rightarrow> build_manager" where
  "record_build_failure now e bm = bm\<lparr>bm_last_error := Some e, bm_last_at := Some now\<rparr>"

definition record_running_version :: "string \<Rightarrow> build_manager \<Rightarrow> build_manager" where
  "record_running_version commit bm = bm\<lparr>bm_version := Some commit\<rparr>"

definition signal_binary_swap :: "build_manager \<Rightarrow> build_manager" where
  "signal_binary_swap bm = bm\<lparr>bm_generation := bm_generation bm + 1\<rparr>"

definition resolved_link :: "build_env \<Rightarrow> build_manager \<Rightarrow> path option" where
  "resolved_link env bm = Option.bind (bm_link bm) (be_canonical env)"

definition get_version :: "build_env \<Rightarrow> build_manager \<Rightarrow> string" where
  "get_version env bm = (case bm_version bm of
     Some v \<Rightarrow> v
   | None \<Rightarrow> (case Option.bind (resolved_link env bm) version_from_resolved_binary of Some v \<Rightarrow> v | None \<Rightarrow> ''unknown''))"

definition symlink_already_current :: "build_env \<Rightarrow> path \<Rightarrow> build_manager \<Rightarrow> bool" where
  "symlink_already_current env target bm = (case (resolved_link env bm, be_canonical env target) of
     (Some a, Some b) \<Rightarrow> a = b | _ \<Rightarrow> False)"

text \<open>A step that may fail: on an error the rest is not done.\<close>

definition attempt_step ::
  "('a, string) result \<Rightarrow> build_manager \<Rightarrow> ('a \<Rightarrow> build_manager \<Rightarrow> ('b, string) result \<times> build_manager) \<Rightarrow> ('b, string) result \<times> build_manager" where
  "attempt_step r bm go = (case r of Inl e \<Rightarrow> (Err e, bm) | Inr x \<Rightarrow> go x bm)"

definition update_symlink :: "build_env \<Rightarrow> path \<Rightarrow> build_manager \<Rightarrow> outcome \<times> build_manager" where
  "update_symlink env target bm =
     (let abs_target = (if target \<noteq> [] \<and> hd target = RootDir then target
        else case be_canonical env target of Some c \<Rightarrow> c | None \<Rightarrow> target)
      in attempt_step (be_link_dir env) bm (\<lambda>_ bm.
         attempt_step (if be_symlink env then Ok () else be_symlink_again env) bm (\<lambda>_ bm.
         attempt_step (be_rename env) bm (\<lambda>_ bm.
           (Ok (), signal_binary_swap (invalidate_binary_cache (bm\<lparr>bm_link := Some abs_target\<rparr>)))))))"

definition write_build_inputs_stamp :: "build_env \<Rightarrow> path \<Rightarrow> string \<Rightarrow> build_manager \<Rightarrow> outcome \<times> build_manager" where
  "write_build_inputs_stamp env dir inputs_id bm =
     attempt_step (be_write_stamp env) bm (\<lambda>_ bm. (Ok (), bm\<lparr>bm_stamps := (bm_stamps bm)(dir := StampText inputs_id)\<rparr>))"

text \<open>The directory of the commit without the inputs, as older versions named it.\<close>

definition legacy_dir :: "path \<Rightarrow> string \<Rightarrow> path" where
  "legacy_dir dir inputs_id = (case file_name dir of
     None \<Rightarrow> dir
   | Some name \<Rightarrow> with_file_name dir (take (length name - length (''_'' @ inputs_id)) name))"

definition select_build_dir :: "build_env \<Rightarrow> llama_cpp_config \<Rightarrow> string \<Rightarrow> build_manager \<Rightarrow> (path \<times> bool, string) result \<times> build_manager" where
  "select_build_dir env cfg commit bm =
     attempt_step (build_dir_for_commit (be_to_json env) (be_sha256 env) cfg commit) bm (\<lambda>dir bm.
       if be_exists env (binary_in dir) \<and> is_ok (be_verify env (binary_in dir)) then (Ok (dir, True), bm)
       else attempt_step (build_inputs_id (be_to_json env) (be_sha256 env) cfg) bm (\<lambda>inputs_id bm.
         let legacy = legacy_dir dir inputs_id; legacy_binary = binary_in legacy;
             adopt = (bm_stamps bm legacy = StampAbsent \<and> symlink_already_current env legacy_binary bm);
             matches = (case bm_stamps bm legacy of StampText s \<Rightarrow> s = inputs_id | StampAbsent \<Rightarrow> adopt | _ \<Rightarrow> False)
         in if matches \<and> is_ok (be_verify env legacy_binary) then
              (if adopt then
                 (case write_build_inputs_stamp env legacy inputs_id bm of
                    (Inl e, bm) \<Rightarrow> (Err e, bm) | (Inr _, bm) \<Rightarrow> (Ok (legacy, True), bm))
               else (Ok (legacy, True), bm))
            else (Ok (dir, False), bm)))"

definition prepare_build_dir :: "build_env \<Rightarrow> path \<Rightarrow> build_manager \<Rightarrow> outcome \<times> build_manager" where
  "prepare_build_dir env dir bm =
     (let create = (\<lambda>bm. attempt_step (be_create_dir env) bm (\<lambda>_ bm. (Ok (), bm\<lparr>bm_prepared := insert dir (bm_prepared bm)\<rparr>)))
      in if dir \<in> bm_prepared bm then create bm
         else attempt_step (be_try_binary env) bm (\<lambda>has_binary bm.
           if has_binary then create bm
           else attempt_step (be_try_dir env) bm (\<lambda>has_dir bm.
             if has_dir
             then attempt_step (be_remove_dir env) bm (\<lambda>_ bm. create (bm\<lparr>bm_removed := dir # bm_removed bm\<rparr>))
             else create bm)))"

definition remove_old_builds :: "build_env \<Rightarrow> llama_cpp_config \<Rightarrow> build_manager \<Rightarrow> build_manager" where
  "remove_old_builds env cfg bm = (case be_entries env of
     Inl _ \<Rightarrow> bm
   | Inr entries \<Rightarrow> bm\<lparr>bm_removed := map (\<lambda>n. builds_dir (components (build_path cfg)) @ [Normal n])
       (cleanup_old_builds (be_fs env) (be_cwd env) cfg entries) @ bm_removed bm\<rparr>)"

text \<open>The part under the guard that clears the flag at its end, whether it failed or not.\<close>

definition compile_and_switch :: "build_env \<Rightarrow> llama_cpp_config \<Rightarrow> string \<Rightarrow> path \<Rightarrow> build_manager \<Rightarrow> outcome \<times> build_manager" where
  "compile_and_switch env cfg commit dir bm =
     (let (r, bm') = (case prepare_build_dir env dir (bm\<lparr>bm_building := True\<rparr>) of
        (Inl e, bm) \<Rightarrow> (Err e, bm)
      | (Inr _, bm) \<Rightarrow>
          attempt_step (be_repo_canonical env) bm (\<lambda>_ bm.
          attempt_step (be_configure env) bm (\<lambda>_ bm.
          attempt_step (be_build env) bm (\<lambda>_ bm.
          attempt_step (be_verify_new env) bm (\<lambda>_ bm.
            case update_symlink env (binary_in dir) bm of
              (Inl e, bm) \<Rightarrow> (Err e, bm)
            | (Inr _, bm) \<Rightarrow> (Ok (), remove_old_builds env cfg (record_running_version commit bm)))))))
      in (r, bm'\<lparr>bm_building := False\<rparr>))"

definition activate :: "build_env \<Rightarrow> string \<Rightarrow> path \<Rightarrow> build_manager \<Rightarrow> outcome \<times> build_manager" where
  "activate env commit dir bm =
     (if symlink_already_current env (binary_in dir) bm then (Ok (), record_running_version commit bm)
      else case update_symlink env (binary_in dir) bm of
        (Inl e, bm) \<Rightarrow> (Err e, bm)
      | (Inr _, bm) \<Rightarrow> (Ok (), record_running_version commit bm))"

definition build_commit :: "build_env \<Rightarrow> llama_cpp_config \<Rightarrow> string \<Rightarrow> build_manager \<Rightarrow> outcome \<times> build_manager" where
  "build_commit env cfg commit bm = (case select_build_dir env cfg commit bm of
     (Inl e, bm) \<Rightarrow> (Err e, bm)
   | (Inr (dir, reusable), bm) \<Rightarrow> if reusable then activate env commit dir bm else compile_and_switch env cfg commit dir bm)"

definition update_and_build_inner :: "build_env \<Rightarrow> llama_cpp_config \<Rightarrow> build_manager \<Rightarrow> outcome \<times> build_manager" where
  "update_and_build_inner env cfg bm =
     (if \<not> build_enabled cfg then (Ok (), bm)
      else attempt_step (if be_repo_exists env then Ok () else be_clone env) bm (\<lambda>_ bm.
        attempt_step (be_fetch env) bm (\<lambda>_ bm.
        attempt_step (be_checkout env) bm (\<lambda>_ bm.
          case be_rev_parse env of
            RevNotRun e \<Rightarrow> (Err e, bm)
          | RevFailed \<Rightarrow> (Err ''Failed to get git commit hash'', bm)
          | RevText out \<Rightarrow> build_commit env cfg (trim out) bm))))"

definition update_and_build :: "build_env \<Rightarrow> llama_cpp_config \<Rightarrow> build_manager \<Rightarrow> outcome \<times> build_manager" where
  "update_and_build env cfg bm = (case update_and_build_inner env cfg bm of
     (Inr _, bm) \<Rightarrow> (Ok (), record_build_success (be_now env) bm)
   | (Inl e, bm) \<Rightarrow> (Err e, record_build_failure (be_now env) e bm))"


section \<open>An update switches entirely or not at all\<close>

definition same_live :: "build_manager \<Rightarrow> build_manager \<Rightarrow> bool" where
  "same_live bm bm' \<longleftrightarrow> bm_version bm' = bm_version bm \<and> bm_link bm' = bm_link bm \<and> bm_generation bm' = bm_generation bm"

text \<open>What is live after a success: the version is the commit, and the link leads to its binary.\<close>

definition now_live :: "build_env \<Rightarrow> string \<Rightarrow> path \<Rightarrow> build_manager \<Rightarrow> build_manager \<Rightarrow> bool" where
  "now_live env commit dir bm bm' \<longleftrightarrow> bm_version bm' = Some commit \<and>
     (symlink_already_current env (binary_in dir) bm \<and> bm_link bm' = bm_link bm \<and> bm_generation bm' = bm_generation bm
      \<or> bm_generation bm' = bm_generation bm + 1 \<and> bm_cache bm' = None
        \<and> (bm_link bm' = Some (binary_in dir) \<or> bm_link bm' = be_canonical env (binary_in dir) \<and> bm_link bm' \<noteq> None))"

lemma same_live_refl [simp]: "same_live bm bm"
  by (simp add: same_live_def)

lemma same_live_building [simp]:
  "same_live (bm\<lparr>bm_building := b\<rparr>) bm' = same_live bm bm'" "same_live bm (bm'\<lparr>bm_building := b\<rparr>) = same_live bm bm'"
  by (simp_all add: same_live_def)

lemma update_symlink_spec:
  "case update_symlink env target bm of
     (Inl _, bm') \<Rightarrow> bm' = bm
   | (Inr _, bm') \<Rightarrow> bm' = bm\<lparr>bm_link := bm_link bm', bm_cache := None, bm_generation := bm_generation bm + 1\<rparr>
        \<and> (bm_link bm' = Some target \<or> bm_link bm' = be_canonical env target \<and> bm_link bm' \<noteq> None)"
  by (simp add: update_symlink_def attempt_step_def Let_def signal_binary_swap_def invalidate_binary_cache_def
      split: sum.split option.split)

lemma update_symlink_cases:
  "update_symlink env target bm = (r, bm') \<Longrightarrow>
   (case r of
      Inl _ \<Rightarrow> bm' = bm
    | Inr _ \<Rightarrow> bm' = bm\<lparr>bm_link := bm_link bm', bm_cache := None, bm_generation := bm_generation bm + 1\<rparr>
        \<and> (bm_link bm' = Some target \<or> bm_link bm' = be_canonical env target \<and> bm_link bm' \<noteq> None))"
  using update_symlink_spec [where env = env and target = target and bm = bm] by (simp split: sum.splits)

lemma write_stamp_live: "write_build_inputs_stamp env dir inputs_id bm = (r, bm') \<Longrightarrow> same_live bm bm' \<and> bm_building bm' = bm_building bm"
  by (auto simp: write_build_inputs_stamp_def attempt_step_def same_live_def split: sum.splits)

lemma select_live: "select_build_dir env cfg commit bm = (r, bm') \<Longrightarrow> same_live bm bm' \<and> bm_building bm' = bm_building bm"
  using write_stamp_live
  by (auto simp: select_build_dir_def attempt_step_def Let_def split: sum.splits if_splits prod.splits)

lemma prepare_live: "prepare_build_dir env dir bm = (r, bm') \<Longrightarrow> same_live bm bm' \<and> bm_building bm' = bm_building bm"
  by (auto simp: prepare_build_dir_def attempt_step_def Let_def same_live_def split: sum.splits if_splits)

lemma already_current_live: "same_live bm bm' \<Longrightarrow> symlink_already_current env t bm' = symlink_already_current env t bm"
  by (simp add: symlink_already_current_def resolved_link_def same_live_def)


text \<open>What an update that leads to the build of a commit may do, and how the steps of an attempt compose.\<close>

definition all_or_nothing :: "build_env \<Rightarrow> string \<Rightarrow> path \<Rightarrow> build_manager \<Rightarrow> outcome \<times> build_manager \<Rightarrow> bool" where
  "all_or_nothing env commit dir bm res = (case fst res of
     Inl _ \<Rightarrow> same_live bm (snd res) | Inr _ \<Rightarrow> now_live env commit dir bm (snd res))"

lemma attempt_rule:
  "(\<And>e. P (Err e, bm)) \<Longrightarrow> (\<And>x. P (go x bm)) \<Longrightarrow> P (attempt_step r bm go)"
  by (cases r) (simp_all add: attempt_step_def)

lemma now_live_fields:
  "now_live env commit dir bm (bm'\<lparr>bm_building := b\<rparr>) = now_live env commit dir bm bm'"
  "now_live env commit dir bm (remove_old_builds env cfg bm') = now_live env commit dir bm bm'"
  by (auto simp: now_live_def remove_old_builds_def split: sum.split)

lemma now_live_from:
  "same_live bm0 bm \<Longrightarrow> now_live env commit dir bm bm' \<Longrightarrow> now_live env commit dir bm0 bm'"
proof -
  assume live: "same_live bm0 bm" and n: "now_live env commit dir bm bm'"
  have "symlink_already_current env (binary_in dir) bm = symlink_already_current env (binary_in dir) bm0"
    using live by (rule already_current_live)
  then show ?thesis using n live unfolding now_live_def same_live_def by simp
qed

lemma switch_result:
  assumes "same_live bm0 bm"
  shows "case update_symlink env (binary_in dir) bm of
     (Inl e, bm') \<Rightarrow> same_live bm0 bm'
   | (Inr _, bm') \<Rightarrow> now_live env commit dir bm0 (record_running_version commit bm')"
proof -
  obtain r bm' where u: "update_symlink env (binary_in dir) bm = (r, bm')" by fastforce
  show ?thesis
  proof (cases r)
    case (Inl e)
    then show ?thesis using assms u update_symlink_cases [OF u] by simp
  next
    case (Inr x)
    with update_symlink_cases [OF u]
    have "bm' = bm\<lparr>bm_link := bm_link bm', bm_cache := None, bm_generation := bm_generation bm + 1\<rparr>"
      and link: "bm_link bm' = Some (binary_in dir) \<or> bm_link bm' = be_canonical env (binary_in dir) \<and> bm_link bm' \<noteq> None" by auto
    from this(1) have "bm_generation bm' = bm_generation bm + 1" "bm_cache bm' = None" by (cases bm'; cases bm; simp)+
    then have "now_live env commit dir bm (record_running_version commit bm')"
      using link by (simp add: now_live_def record_running_version_def)
    then show ?thesis using u Inr now_live_from [OF assms] by simp
  qed
qed

lemma activate_result: "all_or_nothing env commit dir bm (activate env commit dir bm)"
proof (cases "symlink_already_current env (binary_in dir) bm")
  case True
  then show ?thesis by (simp add: all_or_nothing_def activate_def now_live_def record_running_version_def)
next
  case False
  then show ?thesis using switch_result [OF same_live_refl, where env = env and dir = dir and commit = commit and bm = bm]
    by (auto simp: all_or_nothing_def activate_def split: prod.splits sum.splits)
qed

lemma compile_result: "all_or_nothing env commit dir bm (compile_and_switch env cfg commit dir bm)"
proof -
  obtain r0 bm0 where p: "prepare_build_dir env dir (bm\<lparr>bm_building := True\<rparr>) = (r0, bm0)" by fastforce
  have live: "same_live bm bm0" using prepare_live [OF p] by simp
  let ?P = "all_or_nothing env commit dir bm"
  have failed: "?P (Err e, bm0)" for e using live by (simp add: all_or_nothing_def)
  have switched: "?P (case update_symlink env (binary_in dir) bm0 of
      (Inl e, bm) \<Rightarrow> (Err e, bm) | (Inr _, bm) \<Rightarrow> (Ok (), remove_old_builds env cfg (record_running_version commit bm)))"
    using switch_result [OF live, where env = env and dir = dir and commit = commit]
    by (auto simp: all_or_nothing_def now_live_fields split: prod.splits sum.splits)
  have "?P (case prepare_build_dir env dir (bm\<lparr>bm_building := True\<rparr>) of
        (Inl e, bm) \<Rightarrow> (Err e, bm)
      | (Inr _, bm) \<Rightarrow>
          attempt_step (be_repo_canonical env) bm (\<lambda>_ bm.
          attempt_step (be_configure env) bm (\<lambda>_ bm.
          attempt_step (be_build env) bm (\<lambda>_ bm.
          attempt_step (be_verify_new env) bm (\<lambda>_ bm.
            case update_symlink env (binary_in dir) bm of
              (Inl e, bm) \<Rightarrow> (Err e, bm)
            | (Inr _, bm) \<Rightarrow> (Ok (), remove_old_builds env cfg (record_running_version commit bm)))))))"
    unfolding p by (cases r0) (auto intro!: attempt_rule failed switched)
  then show ?thesis unfolding compile_and_switch_def
    by (auto simp: all_or_nothing_def now_live_fields split: prod.splits sum.splits)
qed

text \<open>Whichever directory is chosen, the commit is read off it, and a reused binary has passed its test.\<close>

lemma legacy_version:
  assumes "build_dir_for_commit to_json sha256 cfg commit = Ok dir" "build_inputs_id to_json sha256 cfg = Ok inputs_id"
    and commit: "4 \<le> length commit" "list_all is_hex commit" and "\<forall>x. length (sha256 x) = 32"
  shows "version_from_resolved_binary (binary_in (legacy_dir dir inputs_id)) = Some commit"
proof -
  let ?p = "builds_dir (components (build_path cfg))"
  obtain base where dir: "dir = ?p @ [Normal (base @ ''-'' @ commit @ ''_'' @ inputs_id)]" and base: "CHR ''/'' \<notin> set base"
    using build_dir_shape [OF assms(1) commit assms(5)] assms(2) by (metis sum.inject(2))
  have "CHR ''/'' \<notin> set (base @ ''-'' @ commit)" "2 < length (base @ ''-'' @ commit)"
    using base commit is_hex_not by (fastforce simp: list_all_iff)+
  then have "join_path ?p (base @ ''-'' @ commit) = ?p @ [Normal (base @ ''-'' @ commit)]" by (rule join_name)
  then have "legacy_dir dir inputs_id = ?p @ [Normal (base @ ''-'' @ commit)]"
    by (simp add: legacy_dir_def dir file_name_def with_file_name_def)
  then show ?thesis using version_from_name [OF split_legacy [OF commit]] by simp
qed

lemma selected_dir:
  assumes "select_build_dir env cfg commit bm = (Inr (dir, reusable), bm')"
    and "4 \<le> length commit" "list_all is_hex commit" "\<forall>x. length (be_sha256 env x) = 32"
  shows "version_from_resolved_binary (binary_in dir) = Some commit \<and> (reusable \<longrightarrow> is_ok (be_verify env (binary_in dir)))"
proof -
  obtain dir0 where d: "build_dir_for_commit (be_to_json env) (be_sha256 env) cfg commit = Ok dir0"
    using assms(1) by (auto simp: select_build_dir_def attempt_step_def split: sum.splits)
  obtain base inputs_id where shape: "dir0 = builds_dir (components (build_path cfg)) @ [Normal (base @ ''-'' @ commit @ ''_'' @ inputs_id)]"
    and i: "build_inputs_id (be_to_json env) (be_sha256 env) cfg = Ok inputs_id" "length inputs_id = 8" "list_all is_lower_hex inputs_id"
    using build_dir_shape [OF d assms(2-4)] by metis
  have "dir = dir0 \<and> (reusable \<longrightarrow> is_ok (be_verify env (binary_in dir)))
      \<or> dir = legacy_dir dir0 inputs_id \<and> is_ok (be_verify env (binary_in dir))"
    using assms(1) by (auto simp: select_build_dir_def attempt_step_def d i(1) Let_def split: sum.splits if_splits prod.splits)
  then show ?thesis
    using legacy_version [OF d i(1) assms(2-4)] version_from_name [OF split_managed [OF assms(2,3) i(2,3)]] shape by auto
qed

lemma compile_verified: "compile_and_switch env cfg commit dir bm = (Inr u, bm') \<Longrightarrow> is_ok (be_verify_new env)"
  by (auto simp: compile_and_switch_def attempt_step_def Let_def is_ok_def split: prod.splits sum.splits)

lemma build_commit_result:
  assumes "build_commit env cfg commit bm = (r, bm')"
    and "4 \<le> length commit" "list_all is_hex commit" "\<forall>x. length (be_sha256 env x) = 32"
  obtains dir where "all_or_nothing env commit dir bm (r, bm')"
    "is_ok r \<Longrightarrow> version_from_resolved_binary (binary_in dir) = Some commit
       \<and> (is_ok (be_verify env (binary_in dir)) \<or> is_ok (be_verify_new env))"
proof -
  obtain r1 bm1 where s: "select_build_dir env cfg commit bm = (r1, bm1)" by fastforce
  note live = select_live [OF s, THEN conjunct1]
  have via: "all_or_nothing env commit dir bm1 res \<Longrightarrow> all_or_nothing env commit dir bm res" for dir res
    using live now_live_from [OF live] by (auto simp: all_or_nothing_def same_live_def split: sum.splits)
  show ?thesis
  proof (cases r1)
    case (Inl e)
    then show ?thesis using that assms(1) s live by (auto simp: build_commit_def all_or_nothing_def)
  next
    case (Inr x)
    obtain dir reusable where x: "x = (dir, reusable)" by fastforce
    have res: "(r, bm') = (if reusable then activate env commit dir bm1 else compile_and_switch env cfg commit dir bm1)"
      using assms(1) s Inr x by (simp add: build_commit_def)
    have "all_or_nothing env commit dir bm (r, bm')"
      unfolding res using via activate_result compile_result by simp
    moreover have "is_ok (be_verify_new env)" if "is_ok r" "\<not> reusable"
      using that compile_verified [of env cfg commit dir bm1] res [symmetric] by (cases r) auto
    ultimately show ?thesis
      using that [of dir] selected_dir [of env cfg commit bm dir reusable bm1] s Inr x assms(2-4) by auto
  qed
qed

lemma activate_building: "activate env commit dir bm = (r, bm') \<Longrightarrow> bm_building bm' = bm_building bm"
  by (auto simp: activate_def update_symlink_def attempt_step_def Let_def record_running_version_def signal_binary_swap_def
      invalidate_binary_cache_def split: if_splits prod.splits sum.splits)

lemma build_commit_building: "build_commit env cfg commit bm = (r, bm') \<Longrightarrow> bm_building bm' \<Longrightarrow> bm_building bm"
  using select_live [of env cfg commit bm] activate_building
  by (fastforce simp: build_commit_def compile_and_switch_def split: prod.splits sum.splits if_splits)


text \<open>A first build of a commit into an empty directory.\<close>

definition demo_env :: build_env where
  "demo_env = \<lparr>be_to_json = list_json, be_sha256 = flat_digest, be_repo_exists = True, be_clone = Ok (), be_fetch = Ok (),
     be_checkout = Ok (), be_rev_parse = RevText ''abc1234'', be_exists = (\<lambda>_. False), be_verify = (\<lambda>_. Err ''missing''),
     be_canonical = Some, be_write_stamp = Ok (), be_try_binary = Ok False, be_try_dir = Ok False, be_remove_dir = Ok (),
     be_create_dir = Ok (), be_repo_canonical = Ok (), be_configure = Ok (), be_build = Ok (), be_verify_new = Ok (),
     be_link_dir = Ok (), be_symlink = True, be_symlink_again = Ok (), be_rename = Ok (), be_fs = demo_fs, be_cwd = [RootDir],
     be_entries = Ok [], be_now = ''now''\<rparr>"

lemma demo_trim: "trim ''abc1234'' = ''abc1234''"
  by (simp add: trim_def is_white_def)

lemma demo_update: "fst (update_and_build demo_env demo_builds (new_manager None (\<lambda>_. StampAbsent))) = Ok ()"
proof -
  have id: "build_inputs_id list_json flat_digest demo_builds = Ok ''61616161''"
    by (simp add: build_inputs_id_def list_json_def flat_digest_id)
  have "select_build_dir demo_env demo_builds ''abc1234'' bm = (Ok ([RootDir, Normal ''srv'', Normal ''build-abc1234_61616161''], False), bm)" for bm
    by (simp add: select_build_dir_def demo_env_def attempt_step_def demo_build_dir id Let_def)
  moreover have "build_enabled demo_builds" by (simp add: demo_builds_def)
  ultimately show ?thesis
    by (simp add: update_and_build_def update_and_build_inner_def demo_env_def attempt_step_def demo_trim build_commit_def
        compile_and_switch_def prepare_build_dir_def new_manager_def update_symlink_def binary_in_def Let_def)
qed


end
