(* ===== verification/Catalogue.thy ===== *)
theory Catalogue
  imports Model_Index Routing Startup_Log Build_Update
begin

text \<open>
  What a node tells about itself: the models it lists (\<^verbatim>\<open>collect_models\<close>, \<^verbatim>\<open>list_models\<close>, \<^verbatim>\<open>get_model\<close> in \<^verbatim>\<open>src/router.rs\<close>), the
  parameters of a model (\<^verbatim>\<open>src/node_state/mod.rs\<close>), its health (\<^verbatim>\<open>src/health.rs\<close>) and the small handlers of \<^verbatim>\<open>src/api.rs\<close>.
  An answer is its status and what of its body depends on the node.
\<close>

section \<open>The models of a node\<close>

datatype model_metadata =
    LocalMeta string "string option" string "string option" u64 rat "parsed_model_params option"
  | ClusterMeta string string

record model_object =
  mo_id :: string
  mo_created :: u64
  mo_owned_by :: string
  mo_root :: string
  mo_metadata :: model_metadata

record catalogue_view =
  cg_config :: node_config
  cg_cookbook :: cookbook
  cg_started_at :: u64
  cg_version :: "string option"
  cg_instances :: instances
  cg_params :: "string \<Rightarrow> parsed_model_params option"
  cg_peers :: "(string, peer_state) hashmap"

definition current_llama_cpp_version :: "build_env \<Rightarrow> build_manager \<Rightarrow> string option" where
  "current_llama_cpp_version env bm = (if get_version env bm \<noteq> ''unknown'' then Some (get_version env bm) else None)"

definition versions_differ :: "string option \<Rightarrow> string option \<Rightarrow> bool" where
  "versions_differ a b = (case (a, b) of (Some x, Some y) \<Rightarrow> x \<noteq> y | _ \<Rightarrow> False)"

fun first_params :: "(string \<Rightarrow> parsed_model_params option) \<Rightarrow> string \<Rightarrow> string \<Rightarrow> string option \<Rightarrow> llama_instance list \<Rightarrow> parsed_model_params option" where
  "first_params params model_name profile_id current [] = None"
| "first_params params model_name profile_id current (i # is) =
     (if i_model_name i = model_name \<and> i_profile_id i = profile_id \<and> \<not> draining i \<and> i_status i = Ready
         \<and> \<not> versions_differ (llama_cpp_version i) current \<and> params (i_id i) \<noteq> None
      then params (i_id i) else first_params params model_name profile_id current is)"

definition get_parsed_params_for_model :: "catalogue_view \<Rightarrow> string \<Rightarrow> string \<Rightarrow> parsed_model_params option" where
  "get_parsed_params_for_model v model_name profile_id =
     first_params (cg_params v) model_name profile_id (cg_version v) (hm_values (cg_instances v))"

definition catalogue_id :: "model \<Rightarrow> profile \<Rightarrow> string" where
  "catalogue_id m p = (if p_id p = ''default'' then m_name m else m_name m @ '':'' @ p_id p)"

definition local_profiles :: "cookbook \<Rightarrow> (model \<times> profile) list" where
  "local_profiles cb = concat (map (\<lambda>m. if \<not> m_enabled m then [] else map (Pair m) (filter p_enabled (profiles m))) (models cb))"

text \<open>A row of the local catalogue; looking its hash up may add an empty entry to the metrics.\<close>

definition local_object ::
  "(string \<Rightarrow> string) \<Rightarrow> catalogue_view \<Rightarrow> model \<times> profile \<Rightarrow> model_object list \<times> parsed_model_params metrics
   \<Rightarrow> model_object list \<times> parsed_model_params metrics" where
  "local_object sha256 v row acc =
     (let (m, p) = row; (data, mt) = acc; (h, mt') = get_hash_metrics (args_hash_for_profile sha256 p) mt;
          params = or_else (get_parsed_params_for_model v (m_name m) (p_id p)) (get_parsed_params (cg_version v) h)
      in (data @ [\<lparr>mo_id = catalogue_id m p, mo_created = cg_started_at v, mo_owned_by = node_id (cg_config v), mo_root = m_name m,
            mo_metadata = LocalMeta (m_name m) (m_description m) (p_id p) (p_description p) (p_idle_timeout_seconds p)
              (tokens_per_second h) params\<rparr>], mt'))"

fun peer_objects :: "u64 \<Rightarrow> peer_state \<Rightarrow> string list \<Rightarrow> string set \<times> model_object list \<Rightarrow> string set \<times> model_object list" where
  "peer_objects start peer [] acc = acc"
| "peer_objects start peer (entry # es) (seen, data) =
     peer_objects start peer es
       (if entry \<in> seen then (seen, data)
        else (insert entry seen, data @ [\<lparr>mo_id = entry, mo_created = (if 0 < started_at_unix peer then started_at_unix peer else start),
          mo_owned_by = ps_node_id peer, mo_root = hd (split_on CHR '':'' entry),
          mo_metadata = ClusterMeta (ps_node_id peer) (ps_address peer)\<rparr>]))"

definition collect_models ::
  "(string \<Rightarrow> string) \<Rightarrow> catalogue_view \<Rightarrow> parsed_model_params metrics \<Rightarrow> model_object list \<times> parsed_model_params metrics" where
  "collect_models sha256 v mt =
     (let (data, mt') = fold (local_object sha256 v) (local_profiles (cg_cookbook v)) ([], mt);
          seen = set (map mo_id data)
      in (if cluster_enabled (cluster (cg_config v))
          then snd (fold (\<lambda>peer. peer_objects (cg_started_at v) peer (supported_models peer)) (hm_values (cg_peers v)) (seen, data))
          else data, mt'))"

section \<open>The endpoints\<close>

definition list_models ::
  "(unit, auth_error) result \<Rightarrow> (string \<Rightarrow> string) \<Rightarrow> catalogue_view \<Rightarrow> parsed_model_params metrics
   \<Rightarrow> (model_object list, app_error) result \<times> parsed_model_params metrics" where
  "list_models checked sha256 v mt = (case checked of
     Inl _ \<Rightarrow> (Err (authentication_error ''Unauthorized''), mt)
   | Inr _ \<Rightarrow> (let (data, mt') = collect_models sha256 v mt in (Ok data, mt')))"

definition get_model ::
  "(unit, auth_error) result \<Rightarrow> (string \<Rightarrow> string) \<Rightarrow> catalogue_view \<Rightarrow> string \<Rightarrow> parsed_model_params metrics
   \<Rightarrow> (model_object, app_error) result \<times> parsed_model_params metrics" where
  "get_model checked sha256 v path mt = (case checked of
     Inl _ \<Rightarrow> (Err (authentication_error ''Unauthorized''), mt)
   | Inr _ \<Rightarrow>
       let model = dropWhile (\<lambda>c. c = CHR ''/'') path; (data, mt') = collect_models sha256 v mt
       in (case find (\<lambda>obj. mo_id obj = model) data of
             Some obj \<Rightarrow> Ok obj
           | None \<Rightarrow> Err (with_param ''model'' (model_not_found (''Model '' @ [CHR 0x27] @ model @ [CHR 0x27] @ '' not found in local cookbook or any peer''))), mt'))"

section \<open>The list, the single model and the routing agree\<close>

lemma local_profiles_enabled: "local_profiles cb = enabled_pairs cb"
proof -
  have "filter pair_enabled (map (Pair m) (profiles m)) = (if m_enabled m then map (Pair m) (filter p_enabled (profiles m)) else [])" for m
    by (simp add: filter_map comp_def pair_enabled_def)
  then show ?thesis
    unfolding local_profiles_def enabled_pairs_def cookbook_pairs_def filter_concat map_map comp_def
    by (intro arg_cong [of _ _ concat] map_cong) auto
qed

lemma local_rows:
  assumes "\<forall>obj \<in> set data. mo_owned_by obj = node_id (cg_config v)"
  shows "map mo_id (fst (fold (local_object sha256 v) rows (data, mt))) = map mo_id data @ map (\<lambda>(m, p). catalogue_id m p) rows
    \<and> (\<forall>obj \<in> set (fst (fold (local_object sha256 v) rows (data, mt))). mo_owned_by obj = node_id (cg_config v))"
  using assms
proof (induction rows arbitrary: data mt)
  case (Cons row rows)
  obtain m p where row: "row = (m, p)" by fastforce
  obtain h mt' where h: "get_hash_metrics (args_hash_for_profile sha256 p) mt = (h, mt')" by fastforce
  obtain obj where step: "local_object sha256 v row (data, mt) = (data @ [obj], mt')" "mo_id obj = catalogue_id m p"
    "mo_owned_by obj = node_id (cg_config v)"
    by (simp add: local_object_def row h)
  show ?case using Cons.prems Cons.IH [of "data @ [obj]" mt'] step row by simp
qed simp

text \<open>The entries of peers are added to the ones listed before them, each name once.\<close>

definition listing_ok :: "string set \<times> model_object list \<Rightarrow> bool" where
  "listing_ok acc \<longleftrightarrow> fst acc = set (map mo_id (snd acc)) \<and> distinct (map mo_id (snd acc))"

lemma peer_objects_ok:
  "listing_ok acc \<Longrightarrow> listing_ok (peer_objects start peer es acc) \<and> set (snd acc) \<subseteq> set (snd (peer_objects start peer es acc))"
proof (induction es arbitrary: acc)
  case (Cons e es)
  obtain seen data where acc: "acc = (seen, data)" by fastforce
  let ?obj = "\<lparr>mo_id = e, mo_created = (if 0 < started_at_unix peer then started_at_unix peer else start),
    mo_owned_by = ps_node_id peer, mo_root = hd (split_on CHR '':'' e), mo_metadata = ClusterMeta (ps_node_id peer) (ps_address peer)\<rparr>"
  have "listing_ok (insert e seen, data @ [?obj])" if "e \<notin> seen" using that Cons.prems by (auto simp: listing_ok_def acc)
  then show ?case using Cons.IH [of acc] Cons.IH [of "(insert e seen, data @ [?obj])"] Cons.prems by (auto simp: acc)
qed simp

lemma peers_listed:
  "listing_ok acc \<Longrightarrow> listing_ok (fold (\<lambda>peer. peer_objects start peer (supported_models peer)) ps acc)
     \<and> set (snd acc) \<subseteq> set (snd (fold (\<lambda>peer. peer_objects start peer (supported_models peer)) ps acc))"
proof (induction ps arbitrary: acc)
  case (Cons q ps)
  then show ?case using peer_objects_ok [OF Cons.prems, of start q "supported_models q"] Cons.IH by fastforce
qed simp

lemma catalogue_key:
  assumes "validate_cookbook cb = Ok ()" "(m, p) \<in> set (enabled_pairs cb)"
  shows "request_key (catalogue_id m p) = pair_key (m, p)"
proof -
  have plain: "CHR '':'' \<notin> set (m_name m)" "CHR '':'' \<notin> set (p_id p)"
    using validated_pairs(1) [OF assms] by (simp_all add: pair_plain_def)
  then show ?thesis by (simp add: catalogue_id_def pair_key_def request_key_name request_key_pair [simplified])
qed

lemma catalogue_resolves:
  assumes "validate_cookbook cb = Ok ()" "(m, p) \<in> set (enabled_pairs cb)"
  shows "resolve (build_model_index cb) (catalogue_id m p) = Some (m_name m, p)"
  using catalogue_key [OF assms] fold_insert_get [OF validated_pairs(2) [OF assms(1)] assms(2)]
  by (simp add: resolve_def build_model_index_pairs)

lemma catalogue_ids_distinct:
  assumes "validate_cookbook cb = Ok ()"
  shows "distinct (map (\<lambda>(m, p). catalogue_id m p) (enabled_pairs cb))"
proof -
  have "map request_key (map (\<lambda>(m, p). catalogue_id m p) (enabled_pairs cb)) = map pair_key (enabled_pairs cb)"
    using catalogue_key [OF assms] by auto
  then show ?thesis using validated_pairs(2) [OF assms] by (metis distinct_map)
qed

lemma find_distinct: "distinct (map f xs) \<Longrightarrow> x \<in> set xs \<Longrightarrow> find (\<lambda>y. f y = f x) xs = Some x"
  by (induction xs) auto


definition demo_view :: catalogue_view where
  "demo_view = \<lparr>cg_config = demo_config, cg_cookbook = demo_cookbook, cg_started_at = 7, cg_version = None, cg_instances = [],
     cg_params = (\<lambda>_. None), cg_peers = []\<rparr>"


text \<open>A model may be called \<^verbatim>\<open>/m\<close>: it is listed under that name, and asking for it is answered that there is no such model.\<close>

definition slash_view :: catalogue_view where
  "slash_view = demo_view\<lparr>cg_cookbook := \<lparr>models = [\<lparr>m_name = ''/m'', m_description = None, m_enabled = True,
     profiles = [(blank_profile ''default'')\<lparr>model_path := Some ''/m/a''\<rparr>]\<rparr>]\<rparr>\<rparr>"

lemma listed_but_not_found:
  "validate_cookbook (cg_cookbook slash_view) = Ok ()
   \<and> map mo_id (fst (collect_models id slash_view mt)) = [''/m'']
   \<and> \<not> is_ok (fst (get_model (Ok ()) id slash_view ''/m'' mt))"
proof -
  obtain data mt' where l: "fold (local_object id slash_view) (local_profiles (cg_cookbook slash_view)) ([], mt) = (data, mt')" by fastforce
  have "map mo_id data = [''/m'']"
    using local_rows [of "[]" slash_view id "local_profiles (cg_cookbook slash_view)" mt] l
    by (simp add: slash_view_def local_profiles_def catalogue_id_def blank_profile_def)
  moreover have "collect_models id slash_view mt = (data, mt')"
    using l by (simp add: collect_models_def Let_def slash_view_def demo_view_def)
  moreover have "validate_cookbook (cg_cookbook slash_view) = Ok ()"
    by (simp add: slash_view_def validate_cookbook_def cookbook_pairs_def check_pair_def validate_profile_def blank_profile_def has_flag_def Let_def)
  moreover have "find (\<lambda>obj. mo_id obj = ''m'') data = None" if "map mo_id data = [''/m'']"
    using that by (auto simp: find_None_iff)
  ultimately show ?thesis by (simp add: get_model_def)
qed

section \<open>Health\<close>

record health_view =
  hv_config :: node_config
  hv_draining :: bool
  hv_no_models :: bool
  hv_binary_cached :: bool
  hv_binary :: bool
  hv_forwarding_target :: bool
  hv_load :: "u64 \<times> u64"

datatype health_reply = HealthOk | HealthError string | ReadyReply bool | DrainingReply | NotReady string

fun reply_status :: "health_reply \<Rightarrow> nat" where
  "reply_status HealthOk = 200"
| "reply_status (ReadyReply can_spawn) = 200"
| "reply_status _ = 503"

definition is_forwarding_only :: "health_view \<Rightarrow> bool" where
  "is_forwarding_only h = (cluster_enabled (cluster (hv_config h)) \<and> hv_no_models h)"

definition healthz :: "health_view \<Rightarrow> health_reply" where
  "healthz h =
     (if is_forwarding_only h then HealthOk
      else if hv_no_models h then HealthError ''No models configured''
      else if \<not> hv_binary_cached h then HealthError ''Binary missing''
      else HealthOk)"

definition readyz :: "health_view \<Rightarrow> health_reply" where
  "readyz h =
     (if hv_draining h then DrainingReply
      else if is_forwarding_only h then (if \<not> hv_forwarding_target h then NotReady ''No peer available'' else ReadyReply False)
      else if \<not> hv_binary_cached h then NotReady ''Binary missing''
      else if hv_no_models h then NotReady ''No models configured''
      else ReadyReply (hv_binary h \<and> fst (hv_load h) < max_vram_mb (hv_config h) \<and> snd (hv_load h) < max_sysmem_mb (hv_config h)))"

text \<open>A node that is ready is healthy, does not drain, and has its binary or a peer.\<close>

lemma ready_is_healthy:
  "reply_status (readyz h) = 200 \<Longrightarrow> reply_status (healthz h) = 200 \<and> \<not> hv_draining h \<and> (hv_binary_cached h \<or> hv_forwarding_target h)"
  by (auto simp: readyz_def healthz_def split: if_splits)

section \<open>Rebuilds on demand\<close>

datatype rebuild_reply = RebuildUnauthorized | RebuildDraining app_error | RebuildAccepted build_status | RebuildConflict build_status

text \<open>The second component is the state of the lock: a rebuild that was accepted holds it until the build ends.\<close>

definition rebuild_llama_handler :: "(unit, auth_error) result \<Rightarrow> node_config \<Rightarrow> bool \<Rightarrow> build_manager \<Rightarrow> bool \<Rightarrow> rebuild_reply \<times> bool" where
  "rebuild_llama_handler checked cfg is_draining bm locked =
     (if \<not> is_ok checked then (RebuildUnauthorized, locked)
      else if is_draining then (RebuildDraining (node_draining (node_id cfg)), locked)
      else if \<not> locked then (RebuildAccepted (build_status_of bm), True)
      else (RebuildConflict (build_status_of bm), True))"

definition version_payload :: "string \<Rightarrow> string option \<Rightarrow> (string \<times> string) list" where
  "version_payload proxy_version version = (''version'', proxy_version) # (case version of Some v \<Rightarrow> [(''llama_cpp_version'', v)] | None \<Rightarrow> [])"

definition version_handler :: "(unit, auth_error) result \<Rightarrow> string \<Rightarrow> build_env \<Rightarrow> build_manager \<Rightarrow> (string \<times> string) list" where
  "version_handler checked proxy_version env bm =
     version_payload proxy_version (if is_ok checked then Some (get_version env bm) else None)"

end
