(* ===== verification/Spec2Isabelle.thy ===== *)
theory Spec2Isabelle
  imports Port_Pool Circuit_Breaker Spawn_Reservations Model_Index Credentials Wedge_Detector Route Noise_Handshake Request_Loop
    Exposition Command_Output Startup Catalogue
begin

text \<open>
  Verification of a llamesh node, the Rust program under \<^verbatim>\<open>src/src\<close>. A node runs llama-server processes
  (instances) for the models of a cookbook, queues the requests it cannot serve at once, forwards requests
  to better placed nodes, and keeps a view of the cluster by gossip over Noise or mutual TLS.

  \<^bold>\<open>The parts and their theories.\<close>

  \<^item> \<open>Prelude\<close>, \<open>Std_Text\<close>, \<open>Net_Addr\<close>: the machine integers with the saturating and checked operations, hash maps,
    results, the text functions and the address types of the standard library that the code uses.
  \<^item> \<open>Guards\<close>: the interfaces \<open>once_guard\<close> (a guard that gives its resource back exactly once) and \<open>lease_pool\<close>
    (a pool that never grants a resource twice). They are interpreted on port leases, memory
    reservations, queue permits and forward guards, in the theories of these.
  \<^item> \<open>Config\<close>, \<open>Launch_Args\<close>, \<open>Model_Index\<close>, \<open>Credentials\<close>: the configuration records with their validation
    (\<^verbatim>\<open>config.rs\<close>), the arguments of a llama-server and their hash (\<^verbatim>\<open>instance.rs\<close>, \<^verbatim>\<open>model_index.rs\<close>), the lookup
    of names (interface \<open>name_resolver\<close>), API keys and redaction (\<^verbatim>\<open>security.rs\<close>, \<^verbatim>\<open>instance.rs\<close>).
  \<^item> \<open>Port_Pool\<close>, \<open>Spawn_Reservations\<close>, \<open>Instances\<close>, \<open>Resources\<close>: ports (\<^verbatim>\<open>port_pool.rs\<close>), the registry of spawns in
    progress with its tokens (\<^verbatim>\<open>spawn_reservations.rs\<close>), the state of an instance (\<^verbatim>\<open>instance.rs\<close>), the accounting of
    memory and the plan of a spawn with its victims (\<^verbatim>\<open>node_state/mod.rs\<close>).
  \<^item> \<open>Wait_Queue\<close>, \<open>Eviction\<close>, \<open>Wedge_Detector\<close>: queues, tokens and wake-ups; drains, their cancellation, the idle
    sweep; the watchdog for stuck instances (\<^verbatim>\<open>node_state/mod.rs\<close>, \<^verbatim>\<open>wedge_detector.rs\<close>).
  \<^item> \<open>Spawning\<close>, \<open>Node_Limits\<close>, \<open>Request_Loop\<close>: \<^verbatim>\<open>try_get_or_spawn_resolved\<close> as functions on the node, one per locked
    section; any number of such calls interleaved with everything else (\<open>node_step\<close>); and
    \<^verbatim>\<open>get_instance_for_model\<close> as a step relation of one request among others (\<open>request_step\<close>).
  \<^item> \<open>Circuit_Breaker\<close>, \<open>Routing\<close>: the circuits of the peers (interface \<open>dispatch_gate\<close>, \<^verbatim>\<open>circuit_breaker.rs\<close>), the peer
    states, scores and the choice of a node (\<^verbatim>\<open>peer_state.rs\<close>, \<^verbatim>\<open>node_state/mod.rs\<close>).
  \<^item> \<open>Gossip\<close>, \<open>Trust\<close>, \<open>Noise_Transport\<close>, \<open>Noise_Http\<close>, \<open>Noise_Handshake\<close>: a gossip round and the receiving side
    (\<^verbatim>\<open>cluster.rs\<close>), the keys a node trusts (\<^verbatim>\<open>known_peers.rs\<close>), framing, requests and responses over Noise
    (\<^verbatim>\<open>transport.rs\<close>), the handshake of both sides and the serving loop (\<^verbatim>\<open>handshake.rs\<close>, \<^verbatim>\<open>api.rs\<close>).
  \<^item> \<open>Token_Stream\<close>, \<open>Relay\<close>, \<open>Peer_Forward\<close>, \<open>Route\<close>: the HTTP handler of a completion (\<^verbatim>\<open>router.rs\<close>, \<^verbatim>\<open>errors.rs\<close>): the streamed
    body with its token count and clean-up, headers (interface \<open>header_laws\<close>), hops and the checks on arrival, the
    reply of a peer and what it does to its circuit, and the loop that routes a request (\<open>route_request\<close>).
  \<^item> \<open>Metrics\<close>, \<open>Exposition\<close>: the counters, their snapshot and its reading, the change of the hash of arguments, and the
    Prometheus text (\<^verbatim>\<open>metrics.rs\<close>).
  \<^item> \<open>Builds\<close>, \<open>Build_Update\<close>, \<open>Command_Output\<close>: the builds of llama.cpp (\<^verbatim>\<open>build_manager.rs\<close>): the names of build directories,
    the walk along links and the removal of old builds; an update from the fetch to the switch of the link; the
    lines read from a command.
  \<^item> \<open>Startup_Log\<close>, \<open>Startup\<close>, \<open>Catalogue\<close>: the log of a starting process and what is read from it, the wait until it is
    ready, the readers of its output and its end (\<^verbatim>\<open>instance.rs\<close>); the models a node lists, its health and the
    rebuild on demand (\<^verbatim>\<open>router.rs\<close>, \<^verbatim>\<open>health.rs\<close>, \<^verbatim>\<open>api.rs\<close>).

  \<^bold>\<open>How the model corresponds to the code.\<close> A struct is a record, an enum a datatype, a method a function that
  returns the new state, with the errors as \<open>Inl\<close>. What the code does under one lock, or between two waits, is
  one step; what other tasks may do in between is another step or an argument, so that the theorems about
  reachable states hold for every order. Library code, the clock, random numbers, samples of the operating
  system and the outcome of I/O are arguments. The integers that can overflow or saturate are words;
  \<^verbatim>\<open>usize\<close> counters are natural numbers, floating point scores are rational numbers, text is a list of bytes and
  case folding is that of ASCII. A hash map is an association list with distinct keys in an arbitrary order.
  The token counter of the queues is assumed not to wrap.

  \<^bold>\<open>What is shown.\<close> The limits of the node hold in every reachable state and no started process is killed
  by the recheck at insertion; a request that ends leaves no token and no queue entry behind, gets no
  internal refusal, and recovers at most three times; a spawn fits the memory budget after its victims are
  gone, and the victims are the fewest least recently used ones; ports and memory commitments have exactly
  one owner; a wake-up serves the first listener, and a shutdown wakes everyone; only a sustained wedge is
  killed; the sweep removes what is due and nothing else; forced drains are final. Routing picks an
  eligible node of the lowest score. A circuit recovers by probes only. Gossip changes the entry of its
  origin only, never goes back, and over Noise only for the name and key proved in the handshake, which
  two honest nodes complete. Requests, responses and known peers survive being written and read. A routed request is
  accounted exactly once however it ends, is not sent again to a peer that drains, and is refused after a bounded
  number of hops; a forwarded request keeps its end-to-end headers; tokens are counted the same however a stream
  is cut, and every stream is cleaned up once. Metrics survive a restart and a change of hashes, and their text is
  read back exactly. An update of llama.cpp happens entirely or not at all, and the removal of old builds spares
  the one that serves. Waiting for an instance ends in bounded time, its slots are read from its log, and the models
  a node lists are those it finds and routes.

  \<^bold>\<open>Fuel and bounds.\<close> The loops are recursive over their data or have a measure. \<open>wake_while\<close> has a fuel of
  one more than the length of the queue, each turn of which removes an entry; the spawn loop makes
  \<open>MAX_SPAWN_RETRIES\<close> turns, as in the code.

  \<^bold>\<open>Not modelled.\<close> The system calls that start, probe and signal processes, sockets and TLS, timers and log output, mDNS, the
  commands a build runs, the HTTP and JSON libraries, key and token files, and the sampling of memory.
\<close>

end
